(* ===== verification/Fij_Prelude.thy ===== *)
theory Fij_Prelude
  imports Main "HOL-Library.Word" "HOL-Library.Monad_Syntax"
begin

unbundle bit_operations_syntax

text \<open>
  Shared vocabulary of the development: the machine integers of the C code, the errno
  values the module returns, and the two predicate transformers with which the properties
  of a kernel-side operation are stated.

  An operation of the module is a function from the state to \<^typ>\<open>('a \<times> 's) option\<close>.
  The value \<open>None\<close> is a call that does not come back: a dereference of a NULL pointer, a
  read outside an array (both an oops of the kernel) or a loop that never ends.
  \<open>wlp m Q\<close> says that every normal return of \<open>m\<close> satisfies \<open>Q\<close>; \<open>wp m Q\<close> says
  that \<open>m\<close> does return, and that the result satisfies \<open>Q\<close>.
\<close>

section \<open>Machine integers\<close>

type_synonym u8 = "8 word"
type_synonym u32 = "32 word"
type_synonym u64 = "64 word"

text \<open>\<open>int\<close> of C is modelled by its value. The kernel is compiled with
  \<open>-fno-strict-overflow\<close>, so signed arithmetic and the conversion of an \<open>unsigned int\<close>
  to \<open>int\<close> wrap: \<open>s32\<close> is the value after the wrap.\<close>

definition s32 :: "int \<Rightarrow> int" where
  "s32 x = sint (word_of_int x :: u32)"

definition is_s32 :: "int \<Rightarrow> bool" where
  "is_s32 x \<longleftrightarrow> - (2 ^ 31) \<le> x \<and> x < 2 ^ 31"

lemma s32_id: "is_s32 x \<Longrightarrow> s32 x = x"
  by (simp add: s32_def is_s32_def sint_sbintrunc' signed_take_bit_int_eq_self)

lemma s32_bounds: "is_s32 (s32 x)"
  using sint_greater_eq [of "word_of_int x :: u32"] sint_less [of "word_of_int x :: u32"]
  by (simp add: s32_def is_s32_def)

section \<open>errno values\<close>

abbreviation (input) ENOENT :: int where "ENOENT \<equiv> 2"
abbreviation (input) ESRCH :: int where "ESRCH \<equiv> 3"
abbreviation (input) EINTR :: int where "EINTR \<equiv> 4"
abbreviation (input) EAGAIN :: int where "EAGAIN \<equiv> 11"
abbreviation (input) ENOMEM :: int where "ENOMEM \<equiv> 12"
abbreviation (input) EFAULT :: int where "EFAULT \<equiv> 14"
abbreviation (input) EBUSY :: int where "EBUSY \<equiv> 16"
abbreviation (input) EINVAL :: int where "EINVAL \<equiv> 22"
abbreviation (input) EOPNOTSUPP :: int where "EOPNOTSUPP \<equiv> 95"
abbreviation (input) ETIMEDOUT :: int where "ETIMEDOUT \<equiv> 110"
abbreviation (input) ECANCELED :: int where "ECANCELED \<equiv> 125"
abbreviation (input) ERESTARTSYS :: int where "ERESTARTSYS \<equiv> 512"

section \<open>Returning from an operation\<close>

definition wlp :: "'a option \<Rightarrow> ('a \<Rightarrow> bool) \<Rightarrow> bool" where
  "wlp m Q \<longleftrightarrow> (\<forall>x. m = Some x \<longrightarrow> Q x)"

definition wp :: "'a option \<Rightarrow> ('a \<Rightarrow> bool) \<Rightarrow> bool" where
  "wp m Q \<longleftrightarrow> (\<exists>x. m = Some x \<and> Q x)"

named_theorems op_defs \<open>definitions of the module's operations\<close>

lemma wlp_simps [simp]:
  "wlp None Q"
  "wlp (Some x) Q \<longleftrightarrow> Q x"
  "wlp (Option.bind m f) Q \<longleftrightarrow> wlp m (\<lambda>x. wlp (f x) Q)"
  by (auto simp: wlp_def Option.bind_eq_Some_conv)

lemma wp_simps [simp]:
  "\<not> wp None Q"
  "wp (Some x) Q \<longleftrightarrow> Q x"
  "wp (Option.bind m f) Q \<longleftrightarrow> wp m (\<lambda>x. wp (f x) Q)"
  by (auto simp: wp_def Option.bind_eq_Some_conv)

lemma wlp_if [simp]:
  "wlp (if b then m else n) Q \<longleftrightarrow> (if b then wlp m Q else wlp n Q)"
  by simp

lemma wp_if [simp]:
  "wp (if b then m else n) Q \<longleftrightarrow> (if b then wp m Q else wp n Q)"
  by simp

lemma wlp_case_option [simp]:
  "wlp (case x of None \<Rightarrow> m | Some y \<Rightarrow> n y) Q \<longleftrightarrow>
     (case x of None \<Rightarrow> wlp m Q | Some y \<Rightarrow> wlp (n y) Q)"
  by (cases x) auto

lemma wp_case_option [simp]:
  "wp (case x of None \<Rightarrow> m | Some y \<Rightarrow> n y) Q \<longleftrightarrow>
     (case x of None \<Rightarrow> wp m Q | Some y \<Rightarrow> wp (n y) Q)"
  by (cases x) auto

lemma wlp_case_prod [simp]:
  "wlp (case p of (a, b) \<Rightarrow> f a b) Q \<longleftrightarrow> (case p of (a, b) \<Rightarrow> wlp (f a b) Q)"
  by (cases p) auto

lemma wp_case_prod [simp]:
  "wp (case p of (a, b) \<Rightarrow> f a b) Q \<longleftrightarrow> (case p of (a, b) \<Rightarrow> wp (f a b) Q)"
  by (cases p) auto

lemma wlp_mono: "wlp m P \<Longrightarrow> (\<And>x. P x \<Longrightarrow> Q x) \<Longrightarrow> wlp m Q"
  by (auto simp: wlp_def)

lemma wp_mono: "wp m P \<Longrightarrow> (\<And>x. P x \<Longrightarrow> Q x) \<Longrightarrow> wp m Q"
  by (auto simp: wp_def)

lemma wlp_conj: "wlp m P \<Longrightarrow> wlp m Q \<Longrightarrow> wlp m (\<lambda>x. P x \<and> Q x)"
  by (auto simp: wlp_def)

lemma wlpI: "(\<And>x. m = Some x \<Longrightarrow> Q x) \<Longrightarrow> wlp m Q"
  by (auto simp: wlp_def)

lemma wlpD: "wlp m Q \<Longrightarrow> m = Some x \<Longrightarrow> Q x"
  by (auto simp: wlp_def)

lemma wp_imp_wlp: "wp m Q \<Longrightarrow> wlp m Q"
  by (auto simp: wp_def wlp_def)

lemma wp_iff_wlp: "wp m Q \<longleftrightarrow> m \<noteq> None \<and> wlp m Q"
  by (auto simp: wp_def wlp_def)

section \<open>Lists and bits\<close>

text \<open>The net effect of a log of events on a counter, each event weighed by \<open>f\<close>.\<close>

definition net :: "('e \<Rightarrow> int) \<Rightarrow> 'e list \<Rightarrow> int" where
  "net f l = sum_list (map f l)"

lemma net_simps [simp]:
  "net f [] = 0"
  "net f (e # l) = f e + net f l"
  "net f (l @ l') = net f l + net f l'"
  by (simp_all add: net_def)

text \<open>Two words differ in exactly the bit \<open>b\<close>.\<close>

definition one_bit_apart :: "nat \<Rightarrow> 'a::len word \<Rightarrow> 'a word \<Rightarrow> bool" where
  "one_bit_apart b x y \<longleftrightarrow> b < LENGTH('a) \<and> y = x XOR push_bit b 1"

lemma one_bit_apart_bit:
  assumes "one_bit_apart b x y"
  shows "bit y n \<longleftrightarrow> (if n = b then \<not> bit x n else bit x n)"
  using assms by (auto simp: one_bit_apart_def bit_simps bit_push_bit_iff)

lemma one_bit_apart_neq: "one_bit_apart b x y \<Longrightarrow> y \<noteq> x"
  using one_bit_apart_bit by metis

lemma one_bit_apart_sym: "one_bit_apart b x y \<Longrightarrow> one_bit_apart b y x"
  by (auto simp: one_bit_apart_def xor.assoc)

lemma xor_twice: "(x XOR m) XOR m = (x :: 'a::len word)"
  by (simp add: xor.assoc)

section \<open>Counting words\<close>

lemma card_words_below:
  fixes l :: "'a::len word"
  shows "card {r. r < l \<and> P (unat r)} = card {n. n < unat l \<and> P n}"
proof (rule bij_betw_same_card [of unat])
  have "\<exists>r::'a word. r < l \<and> P (unat r) \<and> n = unat r" if "n < unat l" "P n" for n
  proof -
    from that(1) have "n < 2 ^ LENGTH('a)"
      by (metis order.strict_trans unsigned_less)
    then have "unat (word_of_nat n :: 'a word) = n" by (simp add: unat_of_nat take_bit_nat_eq_self)
    with that show ?thesis by (metis word_less_nat_alt)
  qed
  then show "bij_betw unat {r::'a word. r < l \<and> P (unat r)} {n. n < unat l \<and> P n}"
    by (auto simp: bij_betw_def inj_on_def word_less_nat_alt word_unat_eq_iff)
qed

lemma card_multiples_below:
  assumes "0 < (t::nat)"
  shows "card {n. n < t * q \<and> n mod t = 0} = q"
proof -
  have "{n. n < t * q \<and> n mod t = 0} = (\<lambda>i. t * i) ` {..<q}"
    using assms by (auto simp: mod_eq_0_iff_dvd dvd_def)
  moreover have "inj_on (\<lambda>i. t * i) {..<q}" using assms by (auto simp: inj_on_def)
  ultimately show ?thesis by (simp add: card_image)
qed

end
