(* ===== verification/Fij_Regs.thy ===== *)
theory Fij_Regs
  imports Fij_Prelude
begin

text \<open>
  The register identifiers of \<open>include/uapi/linux/fij.h\<close>, their names
  (\<open>fij_reg_name\<close>, \<open>include/fij_internal.h\<close>) and the map from an identifier to the
  slot of \<open>struct pt_regs\<close> that holds the saved register (\<open>core/fij_regs.c\<close>,
  \<open>include/fij_regs.h\<close>). The C code selects one of three architectures with
  \<open>#ifdef\<close>; here the architecture is an argument of type \<open>arch\<close>, and each enum is a
  datatype of its own (the C constants carry the prefix \<open>FIJ_REG_\<close>; ARM64 and RISC-V
  reuse the names SP and PC, so the ARM64 constructors are ASP and APC).

  What the three configurations have in common is the locale \<open>register_bank\<close>: the enum
  is numbered consecutively from 1, no two registers share a slot of \<open>pt_regs\<close>, and the
  names are distinct and fit the eight bytes of \<open>fij_result.register_name\<close>. The locale
  is interpreted on all three configurations.
\<close>

section \<open>The architectures and their registers\<close>

datatype arch = CONFIG_X86 | CONFIG_ARM64 | CONFIG_RISCV | CONFIG_NONE

text \<open>A member of \<open>struct pt_regs\<close>, by its name; ARM64 has an array \<open>regs[]\<close>.\<close>

datatype pt_field = Member string | MemberIdx string nat

text \<open>A pointer into the saved registers of one task.\<close>

type_synonym regs_ptr = nat

record fij_reg_view =
  ptr :: "(regs_ptr \<times> pt_field) option"
  width :: u8

datatype x86_reg =
  RAX | RBX | RCX | RDX | RSI | RDI | RBP | RSP | RIP | R8 | R9 | R10 | R11 | R12 |
  R13 | R14 | R15

datatype arm64_reg =
  X0 | X1 | X2 | X3 | X4 | X5 | X6 | X7 | X8 | X9 | X10 | X11 | X12 | X13 | X14 | X15 |
  X16 | X17 | X18 | X19 | X20 | X21 | X22 | X23 | X24 | X25 | X26 | X27 | X28 | X29 |
  X30 | ASP | APC

datatype riscv_reg =
  ZERO | RA | SP | GP | TP | T0 | T1 | T2 | S0 | S1 | A0 | A1 | A2 | A3 | A4 | A5 |
  A6 | A7 | S2 | S3 | S4 | S5 | S6 | S7 | S8 | S9 | S10 | S11 | T3 | T4 | T5 | T6 | PC

definition x86_regs :: "x86_reg list" where
  "x86_regs =
     [RAX, RBX, RCX, RDX, RSI, RDI, RBP, RSP, RIP, R8, R9, R10, R11, R12, R13, R14, R15]"

primrec x86_id :: "x86_reg \<Rightarrow> int" where
  "x86_id RAX = 1"
| "x86_id RBX = 2"
| "x86_id RCX = 3"
| "x86_id RDX = 4"
| "x86_id RSI = 5"
| "x86_id RDI = 6"
| "x86_id RBP = 7"
| "x86_id RSP = 8"
| "x86_id RIP = 9"
| "x86_id R8 = 10"
| "x86_id R9 = 11"
| "x86_id R10 = 12"
| "x86_id R11 = 13"
| "x86_id R12 = 14"
| "x86_id R13 = 15"
| "x86_id R14 = 16"
| "x86_id R15 = 17"

definition arm64_regs :: "arm64_reg list" where
  "arm64_regs =
     [X0, X1, X2, X3, X4, X5, X6, X7, X8, X9, X10, X11, X12, X13, X14, X15, X16, X17,
      X18, X19, X20, X21, X22, X23, X24, X25, X26, X27, X28, X29, X30, ASP, APC]"

primrec arm64_id :: "arm64_reg \<Rightarrow> int" where
  "arm64_id X0 = 1"
| "arm64_id X1 = 2"
| "arm64_id X2 = 3"
| "arm64_id X3 = 4"
| "arm64_id X4 = 5"
| "arm64_id X5 = 6"
| "arm64_id X6 = 7"
| "arm64_id X7 = 8"
| "arm64_id X8 = 9"
| "arm64_id X9 = 10"
| "arm64_id X10 = 11"
| "arm64_id X11 = 12"
| "arm64_id X12 = 13"
| "arm64_id X13 = 14"
| "arm64_id X14 = 15"
| "arm64_id X15 = 16"
| "arm64_id X16 = 17"
| "arm64_id X17 = 18"
| "arm64_id X18 = 19"
| "arm64_id X19 = 20"
| "arm64_id X20 = 21"
| "arm64_id X21 = 22"
| "arm64_id X22 = 23"
| "arm64_id X23 = 24"
| "arm64_id X24 = 25"
| "arm64_id X25 = 26"
| "arm64_id X26 = 27"
| "arm64_id X27 = 28"
| "arm64_id X28 = 29"
| "arm64_id X29 = 30"
| "arm64_id X30 = 31"
| "arm64_id ASP = 32"
| "arm64_id APC = 33"

definition riscv_regs :: "riscv_reg list" where
  "riscv_regs =
     [ZERO, RA, SP, GP, TP, T0, T1, T2, S0, S1, A0, A1, A2, A3, A4, A5, A6, A7, S2, S3,
      S4, S5, S6, S7, S8, S9, S10, S11, T3, T4, T5, T6, PC]"

primrec riscv_id :: "riscv_reg \<Rightarrow> int" where
  "riscv_id ZERO = 1"
| "riscv_id RA = 2"
| "riscv_id SP = 3"
| "riscv_id GP = 4"
| "riscv_id TP = 5"
| "riscv_id T0 = 6"
| "riscv_id T1 = 7"
| "riscv_id T2 = 8"
| "riscv_id S0 = 9"
| "riscv_id S1 = 10"
| "riscv_id A0 = 11"
| "riscv_id A1 = 12"
| "riscv_id A2 = 13"
| "riscv_id A3 = 14"
| "riscv_id A4 = 15"
| "riscv_id A5 = 16"
| "riscv_id A6 = 17"
| "riscv_id A7 = 18"
| "riscv_id S2 = 19"
| "riscv_id S3 = 20"
| "riscv_id S4 = 21"
| "riscv_id S5 = 22"
| "riscv_id S6 = 23"
| "riscv_id S7 = 24"
| "riscv_id S8 = 25"
| "riscv_id S9 = 26"
| "riscv_id S10 = 27"
| "riscv_id S11 = 28"
| "riscv_id T3 = 29"
| "riscv_id T4 = 30"
| "riscv_id T5 = 31"
| "riscv_id T6 = 32"
| "riscv_id PC = 33"

text \<open>The number \<open>FIJ_REG_MAX\<close> that closes each enum, and the enumerator with a given
  number (\<open>None\<close> where the \<open>switch\<close> takes its default branch).\<close>

definition reg_max :: "arch \<Rightarrow> int" where
  "reg_max A = (case A of
      CONFIG_X86 \<Rightarrow> 18
    | CONFIG_ARM64 \<Rightarrow> 34
    | CONFIG_RISCV \<Rightarrow> 34
    | CONFIG_NONE \<Rightarrow> 1)"

definition reg_of_id :: "'r list \<Rightarrow> ('r \<Rightarrow> int) \<Rightarrow> int \<Rightarrow> 'r option" where
  "reg_of_id regs val i = find (\<lambda>r. val r = i) regs"

section \<open>Names\<close>

primrec x86_name :: "x86_reg \<Rightarrow> string" where
  "x86_name RAX = ''RAX''"
| "x86_name RBX = ''RBX''"
| "x86_name RCX = ''RCX''"
| "x86_name RDX = ''RDX''"
| "x86_name RSI = ''RSI''"
| "x86_name RDI = ''RDI''"
| "x86_name RBP = ''RBP''"
| "x86_name RSP = ''RSP''"
| "x86_name RIP = ''RIP''"
| "x86_name R8 = ''R8''"
| "x86_name R9 = ''R9''"
| "x86_name R10 = ''R10''"
| "x86_name R11 = ''R11''"
| "x86_name R12 = ''R12''"
| "x86_name R13 = ''R13''"
| "x86_name R14 = ''R14''"
| "x86_name R15 = ''R15''"

primrec arm64_name :: "arm64_reg \<Rightarrow> string" where
  "arm64_name X0 = ''X0''"
| "arm64_name X1 = ''X1''"
| "arm64_name X2 = ''X2''"
| "arm64_name X3 = ''X3''"
| "arm64_name X4 = ''X4''"
| "arm64_name X5 = ''X5''"
| "arm64_name X6 = ''X6''"
| "arm64_name X7 = ''X7''"
| "arm64_name X8 = ''X8''"
| "arm64_name X9 = ''X9''"
| "arm64_name X10 = ''X10''"
| "arm64_name X11 = ''X11''"
| "arm64_name X12 = ''X12''"
| "arm64_name X13 = ''X13''"
| "arm64_name X14 = ''X14''"
| "arm64_name X15 = ''X15''"
| "arm64_name X16 = ''X16''"
| "arm64_name X17 = ''X17''"
| "arm64_name X18 = ''X18''"
| "arm64_name X19 = ''X19''"
| "arm64_name X20 = ''X20''"
| "arm64_name X21 = ''X21''"
| "arm64_name X22 = ''X22''"
| "arm64_name X23 = ''X23''"
| "arm64_name X24 = ''X24''"
| "arm64_name X25 = ''X25''"
| "arm64_name X26 = ''X26''"
| "arm64_name X27 = ''X27''"
| "arm64_name X28 = ''X28''"
| "arm64_name X29 = ''X29''"
| "arm64_name X30 = ''X30''"
| "arm64_name ASP = ''SP''"
| "arm64_name APC = ''PC''"

primrec riscv_name :: "riscv_reg \<Rightarrow> string" where
  "riscv_name ZERO = ''zero''"
| "riscv_name RA = ''ra''"
| "riscv_name SP = ''sp''"
| "riscv_name GP = ''gp''"
| "riscv_name TP = ''tp''"
| "riscv_name T0 = ''t0''"
| "riscv_name T1 = ''t1''"
| "riscv_name T2 = ''t2''"
| "riscv_name S0 = ''s0''"
| "riscv_name S1 = ''s1''"
| "riscv_name A0 = ''a0''"
| "riscv_name A1 = ''a1''"
| "riscv_name A2 = ''a2''"
| "riscv_name A3 = ''a3''"
| "riscv_name A4 = ''a4''"
| "riscv_name A5 = ''a5''"
| "riscv_name A6 = ''a6''"
| "riscv_name A7 = ''a7''"
| "riscv_name S2 = ''s2''"
| "riscv_name S3 = ''s3''"
| "riscv_name S4 = ''s4''"
| "riscv_name S5 = ''s5''"
| "riscv_name S6 = ''s6''"
| "riscv_name S7 = ''s7''"
| "riscv_name S8 = ''s8''"
| "riscv_name S9 = ''s9''"
| "riscv_name S10 = ''s10''"
| "riscv_name S11 = ''s11''"
| "riscv_name T3 = ''t3''"
| "riscv_name T4 = ''t4''"
| "riscv_name T5 = ''t5''"
| "riscv_name T6 = ''t6''"
| "riscv_name PC = ''pc''"

definition fij_reg_name :: "arch \<Rightarrow> int \<Rightarrow> string" where
  "fij_reg_name A i = (case A of
      CONFIG_X86 \<Rightarrow>
        (case reg_of_id x86_regs x86_id i of Some r \<Rightarrow> x86_name r | None \<Rightarrow> ''NONE'')
    | CONFIG_ARM64 \<Rightarrow>
        (case reg_of_id arm64_regs arm64_id i of Some r \<Rightarrow> arm64_name r | None \<Rightarrow> ''NONE'')
    | CONFIG_RISCV \<Rightarrow>
        (case reg_of_id riscv_regs riscv_id i of Some r \<Rightarrow> riscv_name r | None \<Rightarrow> ''NONE'')
    | CONFIG_NONE \<Rightarrow> ''NONE'')"

section \<open>Slots of pt-regs\<close>

text \<open>The member each \<open>case\<close> of the \<open>switch\<close> takes the address of. \<open>x0\<close> of RISC-V has
  none: that case returns \<open>-EINVAL\<close>.\<close>

primrec x86_member :: "x86_reg \<Rightarrow> pt_field option" where
  "x86_member RAX = Some (Member ''ax'')"
| "x86_member RBX = Some (Member ''bx'')"
| "x86_member RCX = Some (Member ''cx'')"
| "x86_member RDX = Some (Member ''dx'')"
| "x86_member RSI = Some (Member ''si'')"
| "x86_member RDI = Some (Member ''di'')"
| "x86_member RBP = Some (Member ''bp'')"
| "x86_member RSP = Some (Member ''sp'')"
| "x86_member RIP = Some (Member ''ip'')"
| "x86_member R8 = Some (Member ''r8'')"
| "x86_member R9 = Some (Member ''r9'')"
| "x86_member R10 = Some (Member ''r10'')"
| "x86_member R11 = Some (Member ''r11'')"
| "x86_member R12 = Some (Member ''r12'')"
| "x86_member R13 = Some (Member ''r13'')"
| "x86_member R14 = Some (Member ''r14'')"
| "x86_member R15 = Some (Member ''r15'')"

primrec arm64_member :: "arm64_reg \<Rightarrow> pt_field option" where
  "arm64_member X0 = Some (MemberIdx ''regs'' 0)"
| "arm64_member X1 = Some (MemberIdx ''regs'' 1)"
| "arm64_member X2 = Some (MemberIdx ''regs'' 2)"
| "arm64_member X3 = Some (MemberIdx ''regs'' 3)"
| "arm64_member X4 = Some (MemberIdx ''regs'' 4)"
| "arm64_member X5 = Some (MemberIdx ''regs'' 5)"
| "arm64_member X6 = Some (MemberIdx ''regs'' 6)"
| "arm64_member X7 = Some (MemberIdx ''regs'' 7)"
| "arm64_member X8 = Some (MemberIdx ''regs'' 8)"
| "arm64_member X9 = Some (MemberIdx ''regs'' 9)"
| "arm64_member X10 = Some (MemberIdx ''regs'' 10)"
| "arm64_member X11 = Some (MemberIdx ''regs'' 11)"
| "arm64_member X12 = Some (MemberIdx ''regs'' 12)"
| "arm64_member X13 = Some (MemberIdx ''regs'' 13)"
| "arm64_member X14 = Some (MemberIdx ''regs'' 14)"
| "arm64_member X15 = Some (MemberIdx ''regs'' 15)"
| "arm64_member X16 = Some (MemberIdx ''regs'' 16)"
| "arm64_member X17 = Some (MemberIdx ''regs'' 17)"
| "arm64_member X18 = Some (MemberIdx ''regs'' 18)"
| "arm64_member X19 = Some (MemberIdx ''regs'' 19)"
| "arm64_member X20 = Some (MemberIdx ''regs'' 20)"
| "arm64_member X21 = Some (MemberIdx ''regs'' 21)"
| "arm64_member X22 = Some (MemberIdx ''regs'' 22)"
| "arm64_member X23 = Some (MemberIdx ''regs'' 23)"
| "arm64_member X24 = Some (MemberIdx ''regs'' 24)"
| "arm64_member X25 = Some (MemberIdx ''regs'' 25)"
| "arm64_member X26 = Some (MemberIdx ''regs'' 26)"
| "arm64_member X27 = Some (MemberIdx ''regs'' 27)"
| "arm64_member X28 = Some (MemberIdx ''regs'' 28)"
| "arm64_member X29 = Some (MemberIdx ''regs'' 29)"
| "arm64_member X30 = Some (MemberIdx ''regs'' 30)"
| "arm64_member ASP = Some (Member ''sp'')"
| "arm64_member APC = Some (Member ''pc'')"

primrec riscv_member :: "riscv_reg \<Rightarrow> pt_field option" where
  "riscv_member ZERO = None"
| "riscv_member RA = Some (Member ''ra'')"
| "riscv_member SP = Some (Member ''sp'')"
| "riscv_member GP = Some (Member ''gp'')"
| "riscv_member TP = Some (Member ''tp'')"
| "riscv_member T0 = Some (Member ''t0'')"
| "riscv_member T1 = Some (Member ''t1'')"
| "riscv_member T2 = Some (Member ''t2'')"
| "riscv_member S0 = Some (Member ''s0'')"
| "riscv_member S1 = Some (Member ''s1'')"
| "riscv_member A0 = Some (Member ''a0'')"
| "riscv_member A1 = Some (Member ''a1'')"
| "riscv_member A2 = Some (Member ''a2'')"
| "riscv_member A3 = Some (Member ''a3'')"
| "riscv_member A4 = Some (Member ''a4'')"
| "riscv_member A5 = Some (Member ''a5'')"
| "riscv_member A6 = Some (Member ''a6'')"
| "riscv_member A7 = Some (Member ''a7'')"
| "riscv_member S2 = Some (Member ''s2'')"
| "riscv_member S3 = Some (Member ''s3'')"
| "riscv_member S4 = Some (Member ''s4'')"
| "riscv_member S5 = Some (Member ''s5'')"
| "riscv_member S6 = Some (Member ''s6'')"
| "riscv_member S7 = Some (Member ''s7'')"
| "riscv_member S8 = Some (Member ''s8'')"
| "riscv_member S9 = Some (Member ''s9'')"
| "riscv_member S10 = Some (Member ''s10'')"
| "riscv_member S11 = Some (Member ''s11'')"
| "riscv_member T3 = Some (Member ''t3'')"
| "riscv_member T4 = Some (Member ''t4'')"
| "riscv_member T5 = Some (Member ''t5'')"
| "riscv_member T6 = Some (Member ''t6'')"
| "riscv_member PC = Some (Member ''epc'')"

definition fij_arch_map_x86 :: "regs_ptr \<Rightarrow> int \<Rightarrow> fij_reg_view \<Rightarrow> int \<times> fij_reg_view" where
  "fij_arch_map_x86 regs i out =
     (case reg_of_id x86_regs x86_id i of
        None \<Rightarrow> (- EINVAL, out)
      | Some r \<Rightarrow> (case x86_member r of
          None \<Rightarrow> (- EINVAL, out)
        | Some f \<Rightarrow> (0, out\<lparr>ptr := Some (regs, f)\<rparr>)))"

definition fij_arch_map_arm64 :: "regs_ptr \<Rightarrow> int \<Rightarrow> fij_reg_view \<Rightarrow> int \<times> fij_reg_view" where
  "fij_arch_map_arm64 regs i out0 =
     (let out = out0\<lparr>width := 64\<rparr> in
      case reg_of_id arm64_regs arm64_id i of
        None \<Rightarrow> (- EINVAL, out)
      | Some r \<Rightarrow> (case arm64_member r of
          None \<Rightarrow> (- EINVAL, out)
        | Some f \<Rightarrow> (0, out\<lparr>ptr := Some (regs, f)\<rparr>)))"

text \<open>\<open>CONFIG_64BIT\<close> is the flag \<open>b64\<close>.\<close>

definition riscv_width_bits :: "bool \<Rightarrow> u8" where
  "riscv_width_bits b64 = (if b64 then 64 else 32)"

definition fij_arch_map_riscv ::
  "bool \<Rightarrow> regs_ptr \<Rightarrow> int \<Rightarrow> fij_reg_view \<Rightarrow> int \<times> fij_reg_view" where
  "fij_arch_map_riscv b64 regs i out0 =
     (let out = out0\<lparr>width := riscv_width_bits b64\<rparr> in
      case reg_of_id riscv_regs riscv_id i of
        None \<Rightarrow> (- EINVAL, out)
      | Some r \<Rightarrow> (case riscv_member r of
          None \<Rightarrow> (- EINVAL, out)
        | Some f \<Rightarrow> (0, out\<lparr>ptr := Some (regs, f)\<rparr>)))"

text \<open>The dispatcher. The module runs on 64-bit kernels, where a register has the 64 bits
  of \<open>unsigned long\<close>, so it is entered with \<open>CONFIG_64BIT\<close>. A NULL \<open>regs\<close> is
  \<open>None\<close>; \<open>out\<close> is the address of a local variable and never NULL.\<close>

definition fij_arch_map ::
  "arch \<Rightarrow> regs_ptr option \<Rightarrow> int \<Rightarrow> fij_reg_view \<Rightarrow> int \<times> fij_reg_view" where
  "fij_arch_map A regs i out =
     (case regs of
        None \<Rightarrow> (- EINVAL, out)
      | Some p \<Rightarrow> (case A of
          CONFIG_X86 \<Rightarrow> fij_arch_map_x86 p i out
        | CONFIG_ARM64 \<Rightarrow> fij_arch_map_arm64 p i out
        | CONFIG_RISCV \<Rightarrow> fij_arch_map_riscv True p i out
        | CONFIG_NONE \<Rightarrow> (- EOPNOTSUPP, out)))"

text \<open>The local view \<open>v\<close> starts uninitialised: its content is the argument \<open>v0\<close>.\<close>

definition fij_reg_ptr_from_ptregs_legacy ::
  "arch \<Rightarrow> fij_reg_view \<Rightarrow> regs_ptr option \<Rightarrow> int \<Rightarrow> (regs_ptr \<times> pt_field) option" where
  "fij_reg_ptr_from_ptregs_legacy A v0 regs i =
     (let (err, v) = fij_arch_map A regs i v0
      in if err \<noteq> 0 then None else ptr v)"

definition fij_reg_ptr_from_ptregs ::
  "arch \<Rightarrow> fij_reg_view \<Rightarrow> regs_ptr option \<Rightarrow> int \<Rightarrow> (regs_ptr \<times> pt_field) option" where
  "fij_reg_ptr_from_ptregs A v0 regs i = fij_reg_ptr_from_ptregs_legacy A v0 regs i"

section \<open>What the three configurations share\<close>

text \<open>The \<open>switch\<close> of \<open>fij_reg_name\<close> over one enum.\<close>

definition name_of_id :: "'r list \<Rightarrow> ('r \<Rightarrow> int) \<Rightarrow> ('r \<Rightarrow> string) \<Rightarrow> int \<Rightarrow> string" where
  "name_of_id regs val nm i =
     (case reg_of_id regs val i of Some r \<Rightarrow> nm r | None \<Rightarrow> ''NONE'')"

locale register_bank =
  fixes regs :: "'r list"
    and val :: "'r \<Rightarrow> int"
    and member :: "'r \<Rightarrow> pt_field option"
    and nm :: "'r \<Rightarrow> string"
  assumes complete: "r \<in> set regs"
    and numbered: "map val regs = [1..int (length regs)]"
    and slots_distinct: "distinct (map member regs)"
    and names_distinct: "distinct (map nm regs)"
    and names_fit: "length (nm r) < 8"
    and names_proper: "nm r \<noteq> ''NONE''"
begin

lemma val_inj: "val r = val r' \<longleftrightarrow> r = r'"
proof -
  have "distinct (map val regs)" by (simp add: numbered)
  then show ?thesis using complete by (auto simp: distinct_map inj_on_def)
qed

lemma val_range: "1 \<le> val r \<and> val r \<le> int (length regs)"
proof -
  have "val r \<in> set (map val regs)" using complete by simp
  then show ?thesis by (simp add: numbered)
qed

lemma val_onto:
  assumes "1 \<le> i" and "i \<le> int (length regs)"
  shows "\<exists>r. val r = i"
proof -
  have "i \<in> set (map val regs)" using assms by (simp add: numbered)
  then show ?thesis by auto
qed

lemma reg_of_id_Some: "reg_of_id regs val i = Some r \<longleftrightarrow> val r = i"
proof
  assume "reg_of_id regs val i = Some r"
  then show "val r = i" by (auto simp: reg_of_id_def find_Some_iff)
next
  assume v: "val r = i"
  then have "reg_of_id regs val i \<noteq> None"
    using complete by (auto simp: reg_of_id_def find_None_iff)
  then obtain r' where r': "reg_of_id regs val i = Some r'" by auto
  then have "val r' = i" by (auto simp: reg_of_id_def find_Some_iff)
  with v r' show "reg_of_id regs val i = Some r" by (auto simp: val_inj)
qed

lemma reg_of_id_None: "reg_of_id regs val i = None \<longleftrightarrow> i < 1 \<or> int (length regs) < i"
  using reg_of_id_Some val_range val_onto
  by (metis linorder_not_le not_None_eq)

lemma member_inj: "member r = member r' \<longleftrightarrow> r = r'"
  using slots_distinct complete by (auto simp: distinct_map inj_on_def)

lemma nm_inj: "nm r = nm r' \<longleftrightarrow> r = r'"
  using names_distinct complete by (auto simp: distinct_map inj_on_def)

lemma names_identify:
  assumes "1 \<le> i" "i \<le> int (length regs)" "1 \<le> j" "j \<le> int (length regs)"
  shows "(name_of_id regs val nm i = name_of_id regs val nm j \<longleftrightarrow> i = j) \<and>
    name_of_id regs val nm i \<noteq> ''NONE'' \<and> length (name_of_id regs val nm i) < 8"
proof -
  obtain r q where "val r = i" "val q = j" using assms val_onto by metis
  then have "reg_of_id regs val i = Some r" "reg_of_id regs val j = Some q" "r = q \<longleftrightarrow> i = j"
    by (auto simp: reg_of_id_Some val_inj)
  then show ?thesis by (simp add: name_of_id_def nm_inj names_proper names_fit)
qed

end

interpretation x86: register_bank x86_regs x86_id x86_member x86_name
proof (unfold_locales, goal_cases)
  case (1 r) show ?case by (cases r) (simp_all add: x86_regs_def)
next
  case 2 show ?case by (simp add: x86_regs_def upto.simps)
next
  case 3 show ?case by (simp add: x86_regs_def)
next
  case 4 show ?case by (simp add: x86_regs_def)
next
  case (5 r) show ?case by (cases r) simp_all
next
  case (6 r) show ?case by (cases r) simp_all
qed

interpretation arm64: register_bank arm64_regs arm64_id arm64_member arm64_name
proof (unfold_locales, goal_cases)
  case (1 r) show ?case by (cases r) (simp_all add: arm64_regs_def)
next
  case 2 show ?case by (simp add: arm64_regs_def upto.simps)
next
  case 3 show ?case by (simp add: arm64_regs_def)
next
  case 4 show ?case by (simp add: arm64_regs_def)
next
  case (5 r) show ?case by (cases r) simp_all
next
  case (6 r) show ?case by (cases r) simp_all
qed

interpretation riscv: register_bank riscv_regs riscv_id riscv_member riscv_name
proof (unfold_locales, goal_cases)
  case (1 r) show ?case by (cases r) (simp_all add: riscv_regs_def)
next
  case 2 show ?case by (simp add: riscv_regs_def upto.simps)
next
  case 3 show ?case by (simp add: riscv_regs_def)
next
  case 4 show ?case by (simp add: riscv_regs_def)
next
  case (5 r) show ?case by (cases r) simp_all
next
  case (6 r) show ?case by (cases r) simp_all
qed

section \<open>Facts about the register map\<close>

lemma x86_slot: "x86_member r \<noteq> None"
  by (cases r) simp_all

lemma arm64_slot: "arm64_member r \<noteq> None"
  by (cases r) simp_all

lemma riscv_slot: "riscv_member r = None \<longleftrightarrow> riscv_id r = 1"
  by (cases r) simp_all

lemma regs_length [simp]:
  "length x86_regs = 17" "length arm64_regs = 33" "length riscv_regs = 33"
  by (simp_all add: x86_regs_def arm64_regs_def riscv_regs_def)

definition mapped :: "arch \<Rightarrow> int \<Rightarrow> bool" where
  "mapped A i \<longleftrightarrow> 1 \<le> i \<and> i < reg_max A \<and> \<not> (A = CONFIG_RISCV \<and> i = 1)"

text \<open>The slot of a register, and the dispatcher as a function of it.\<close>

definition slot :: "arch \<Rightarrow> int \<Rightarrow> pt_field option" where
  "slot A i = (case A of
      CONFIG_X86 \<Rightarrow> Option.bind (reg_of_id x86_regs x86_id i) x86_member
    | CONFIG_ARM64 \<Rightarrow> Option.bind (reg_of_id arm64_regs arm64_id i) arm64_member
    | CONFIG_RISCV \<Rightarrow> Option.bind (reg_of_id riscv_regs riscv_id i) riscv_member
    | CONFIG_NONE \<Rightarrow> None)"

lemma slot_mapped: "slot A i \<noteq> None \<longleftrightarrow> mapped A i"
proof (cases A)
  case CONFIG_X86
  then show ?thesis
    using x86_slot x86.reg_of_id_None [of i]
    by (cases "reg_of_id x86_regs x86_id i") (auto simp: slot_def mapped_def reg_max_def)
next
  case CONFIG_ARM64
  then show ?thesis
    using arm64_slot arm64.reg_of_id_None [of i]
    by (cases "reg_of_id arm64_regs arm64_id i") (auto simp: slot_def mapped_def reg_max_def)
next
  case CONFIG_RISCV
  show ?thesis
  proof (cases "reg_of_id riscv_regs riscv_id i")
    case None
    with CONFIG_RISCV riscv.reg_of_id_None [of i] show ?thesis
      by (auto simp: slot_def mapped_def reg_max_def)
  next
    case (Some r)
    then have "riscv_id r = i" "1 \<le> i" "i \<le> 33"
      using riscv.reg_of_id_Some [of i r] riscv.val_range [of r] by auto
    with CONFIG_RISCV Some riscv_slot show ?thesis by (auto simp: slot_def mapped_def reg_max_def)
  qed
next
  case CONFIG_NONE
  then show ?thesis by (simp add: slot_def mapped_def reg_max_def)
qed

lemma slot_inj:
  assumes "slot A i = Some f" and "slot A j = Some f"
  shows "i = j"
proof (cases A)
  case CONFIG_X86
  with assms show ?thesis
    by (auto simp: slot_def bind_eq_Some_conv x86.reg_of_id_Some dest: x86.member_inj [THEN iffD1, OF trans [OF _ sym]])
next
  case CONFIG_ARM64
  with assms show ?thesis
    by (auto simp: slot_def bind_eq_Some_conv arm64.reg_of_id_Some dest: arm64.member_inj [THEN iffD1, OF trans [OF _ sym]])
next
  case CONFIG_RISCV
  with assms show ?thesis
    by (auto simp: slot_def bind_eq_Some_conv riscv.reg_of_id_Some dest: riscv.member_inj [THEN iffD1, OF trans [OF _ sym]])
next
  case CONFIG_NONE
  with assms show ?thesis by (simp add: slot_def)
qed

lemma fij_arch_map_slot:
  "fij_arch_map A (Some p) i out =
     (let out = (case A of CONFIG_X86 \<Rightarrow> out | CONFIG_NONE \<Rightarrow> out | _ \<Rightarrow> out\<lparr>width := 64\<rparr>)
      in case slot A i of
           None \<Rightarrow> (if A = CONFIG_NONE then - EOPNOTSUPP else - EINVAL, out)
         | Some f \<Rightarrow> (0, out\<lparr>ptr := Some (p, f)\<rparr>))"
  by (cases A) (auto simp: fij_arch_map_def fij_arch_map_x86_def fij_arch_map_arm64_def
      fij_arch_map_riscv_def riscv_width_bits_def slot_def Let_def split: option.splits bind_splits)

lemma reg_ptr_slot:
  "fij_reg_ptr_from_ptregs A v0 regs i =
     (case regs of None \<Rightarrow> None | Some p \<Rightarrow> map_option (Pair p) (slot A i))"
proof (cases regs)
  case None
  then show ?thesis
    by (simp add: fij_reg_ptr_from_ptregs_def fij_reg_ptr_from_ptregs_legacy_def fij_arch_map_def)
next
  case (Some p)
  then show ?thesis
    by (simp add: fij_reg_ptr_from_ptregs_def fij_reg_ptr_from_ptregs_legacy_def
        fij_arch_map_slot Let_def split: option.splits)
qed

section \<open>Properties\<close>

text \<open>On every architecture the register map succeeds for exactly the enumerators of
  that architecture, except the hard-wired zero register of RISC-V; every other identifier is
  refused with an error code and leaves the pointer alone.\<close>

theorem arch_map_total:
  "(fst (fij_arch_map A (Some p) i out) = 0 \<longleftrightarrow>
      1 \<le> i \<and> i < reg_max A \<and> \<not> (A = CONFIG_RISCV \<and> i = 1)) \<and>
   (fst (fij_arch_map A regs i out) \<noteq> 0 \<longrightarrow>
      fst (fij_arch_map A regs i out) \<in> {- EINVAL, - EOPNOTSUPP} \<and>
      ptr (snd (fij_arch_map A regs i out)) = ptr out)"
proof
  show "fst (fij_arch_map A (Some p) i out) = 0 \<longleftrightarrow>
      1 \<le> i \<and> i < reg_max A \<and> \<not> (A = CONFIG_RISCV \<and> i = 1)"
    using slot_mapped [of A i]
    by (auto simp: fij_arch_map_slot Let_def mapped_def split: option.splits)
  show "fst (fij_arch_map A regs i out) \<noteq> 0 \<longrightarrow>
      fst (fij_arch_map A regs i out) \<in> {- EINVAL, - EOPNOTSUPP} \<and>
      ptr (snd (fij_arch_map A regs i out)) = ptr out"
    by (cases regs; cases A)
      (auto simp: fij_arch_map_slot Let_def fij_arch_map_def [of _ None] split: option.splits)
qed

theorem arch_map_total_witness:
  "fst (fij_arch_map CONFIG_RISCV (Some 3) 1 \<lparr>ptr = None, width = 0\<rparr>) \<noteq> 0 \<and>
   ptr (snd (fij_arch_map CONFIG_RISCV (Some 3) 1 \<lparr>ptr = None, width = 0\<rparr>)) = None"
proof -
  let ?out = "\<lparr>ptr = None, width = 0\<rparr>"
  have "fst (fij_arch_map CONFIG_RISCV (Some 3) 1 ?out) \<noteq> 0"
    using arch_map_total [of CONFIG_RISCV 3 1 ?out "Some 3"] by simp
  with arch_map_total [of CONFIG_RISCV 3 1 ?out "Some 3"] show ?thesis by simp
qed

text \<open>Two register identifiers never share a slot of \<open>pt_regs\<close>: a flip of one register
  cannot hit another.\<close>

theorem reg_slots_disjoint:
  assumes "fij_reg_ptr_from_ptregs A v regs i = Some x"
    and "fij_reg_ptr_from_ptregs A v' regs j = Some x"
  shows "i = j"
  using assms by (auto simp: reg_ptr_slot split: option.splits intro: slot_inj)

theorem reg_slots_disjoint_witness:
  "fij_reg_ptr_from_ptregs CONFIG_X86 \<lparr>ptr = None, width = 0\<rparr> (Some 3) 9 =
     Some (3, Member ''ip'') \<and> (9 :: int) = 9"
proof -
  have "fij_reg_ptr_from_ptregs CONFIG_X86 \<lparr>ptr = None, width = 0\<rparr> (Some 3) 9 =
     Some (3, Member ''ip'')"
    by (simp add: reg_ptr_slot slot_def reg_of_id_def x86_regs_def)
  with reg_slots_disjoint [OF this this] show ?thesis by simp
qed

text \<open>The names of the registers of an architecture are pairwise distinct, none of them is
  the name for an unknown register, and each fits the eight bytes of
  \<open>fij_result.register_name\<close> with its terminator, so the report identifies the register.\<close>

theorem reg_names_identify:
  assumes "1 \<le> i" "i < reg_max A" "1 \<le> j" "j < reg_max A"
  shows "(fij_reg_name A i = fij_reg_name A j \<longleftrightarrow> i = j) \<and> fij_reg_name A i \<noteq> ''NONE'' \<and>
    length (fij_reg_name A i) < 8"
  using assms x86.names_identify [of i j] arm64.names_identify [of i j] riscv.names_identify [of i j]
  by (cases A) (simp_all add: fij_reg_name_def reg_max_def name_of_id_def)

theorem reg_names_identify_witness:
  "fij_reg_name CONFIG_RISCV 33 = ''pc'' \<and> fij_reg_name CONFIG_RISCV 33 \<noteq> fij_reg_name CONFIG_RISCV 1"
  using reg_names_identify [of 33 CONFIG_RISCV 1]
  by (simp add: reg_max_def) (simp add: fij_reg_name_def reg_of_id_def riscv_regs_def)

text \<open>A successful mapping reports the width of the register on ARM64 and RISC-V, but on
  x86-64 it leaves the field \<open>width\<close> of the caller's view as it found it, although the
  interface announces 32 or 64.\<close>

theorem reg_view_width:
  "width (snd (fij_arch_map CONFIG_X86 regs i out)) = width out \<and>
   width (snd (fij_arch_map CONFIG_ARM64 (Some p) i out)) = 64 \<and>
   width (snd (fij_arch_map CONFIG_RISCV (Some p) i out)) = 64"
  by (cases regs) (auto simp: fij_arch_map_slot Let_def fij_arch_map_def [of _ None] split: option.splits)

end
