(* ===== verification/Fij_Types.thy ===== *)
theory Fij_Types
  imports Fij_Regs
begin

text \<open>
  The data of the module: the structures exchanged with user space
  (\<open>include/uapi/linux/fij.h\<close>) and the per-file context \<open>struct fij_ctx\<close>
  (\<open>include/fij_internal.h\<close>), with \<open>fij_ctx_init\<close> of \<open>fij_main.c\<close>.

  A \<open>char\<close> array is the string up to its NUL. A pointer to an object of the kernel (a task,
  a page, an inode, ...) is a number, and NULL is \<open>None\<close>. A \<open>struct completion\<close> is its
  counter \<open>done\<close>. A \<open>wait_queue_head_t\<close> is a flag: has it been initialised.
\<close>

section \<open>Parameters and result\<close>

record fij_params =
  process_name :: string
  process_path :: string
  process_args :: string
  log_path :: string
  target_pc_off :: int \<comment> \<open>the field \<open>target_pc\<close>: an offset from \<open>start_code\<close>\<close>
  target_pc_present :: int
  target_reg :: int
  reg_bit :: int
  reg_bit_present :: int
  weight_mem :: int
  only_mem :: int
  min_delay_ms :: int
  max_delay_ms :: int
  thread_present :: int
  thread :: int
  all_threads :: int
  nprocess :: int
  process_present :: int
  no_injection :: int
  iteration_number :: int

record fij_result =
  res_iteration_number :: int
  exit_code :: int
  sigal :: int
  res_target_tgid :: int
  pid_idx :: int
  thread_idx :: int
  fault_injected :: int
  process_hanged :: int
  injection_time_ns :: u64
  memory_flip :: u32
  target_address :: u64
  target_before :: u64
  target_after :: u64
  register_name :: string

record fij_exec =
  params :: fij_params
  result :: fij_result

definition FIJ_MAX_ARGC :: nat where
  "FIJ_MAX_ARGC = 128"

datatype ioctl_cmd =
    IOCTL_START_FAULT
  | IOCTL_EXEC_AND_FAULT
  | IOCTL_SEND_MSG
  | IOCTL_RECEIVE_MSG
  | IOCTL_KILL_TARGET
  | IOCTL_OTHER

section \<open>The context\<close>

type_synonym task = nat
type_synonym kthread = nat
type_synonym page = nat
type_synonym inode = nat
type_synonym uprobe = nat
type_synonym mm = nat
type_synonym kfile = nat
type_synonym pidref = nat
type_synonym pid_t = int

text \<open>The functions of the module that are stored as callbacks.\<close>

datatype callback =
    Uprobe_hit | Uprobe_filter | Uprobe_disarm_workfn | Inject_workfn

record uprobe_consumer =
  handler :: "callback option"
  ret_handler :: "callback option"
  ufilter :: "callback option"

record fij_restore_info =
  rest_page :: "page option"
  rest_offset :: u64
  rest_orig_byte :: u8
  rest_active :: bool

record fij_ctx =
  target_tgid :: pid_t
  target_pc :: u64
  running :: int
  target_alive :: bool
  bitflip_thread :: "kthread option"
  pc_monitor_thread :: "kthread option"
  flip_wq :: bool
  flip_triggered :: int
  uc :: uprobe_consumer
  inj_inode :: "inode option"
  inj_uprobe :: "uprobe option"
  inj_off :: int
  uprobe_active :: bool
  uprobe_disarm_queued :: int
  uprobe_disarm_work :: "callback option"
  inject_work :: "callback option"
  inject_work_queued :: int
  monitor_done :: nat
  bitflip_done :: nat
  targets :: "pid_t list"
  ntargets :: nat
  capacity :: nat
  exec :: fij_exec
  restore :: fij_restore_info

section \<open>Initialisation\<close>

text \<open>What \<open>memset(ctx, 0, sizeof *ctx)\<close> leaves in each member.\<close>

definition zero_params :: fij_params where
  "zero_params = \<lparr>process_name = [], process_path = [], process_args = [], log_path = [],
     target_pc_off = 0, target_pc_present = 0, target_reg = 0, reg_bit = 0,
     reg_bit_present = 0, weight_mem = 0, only_mem = 0, min_delay_ms = 0, max_delay_ms = 0,
     thread_present = 0, thread = 0, all_threads = 0, nprocess = 0, process_present = 0,
     no_injection = 0, iteration_number = 0\<rparr>"

definition zero_result :: fij_result where
  "zero_result = \<lparr>res_iteration_number = 0, exit_code = 0, sigal = 0, res_target_tgid = 0,
     pid_idx = 0, thread_idx = 0, fault_injected = 0, process_hanged = 0,
     injection_time_ns = 0, memory_flip = 0, target_address = 0, target_before = 0,
     target_after = 0, register_name = []\<rparr>"

definition zero_ctx :: fij_ctx where
  "zero_ctx = \<lparr>target_tgid = 0, target_pc = 0, running = 0, target_alive = False,
     bitflip_thread = None, pc_monitor_thread = None, flip_wq = False, flip_triggered = 0,
     uc = \<lparr>handler = None, ret_handler = None, ufilter = None\<rparr>,
     inj_inode = None, inj_uprobe = None, inj_off = 0, uprobe_active = False,
     uprobe_disarm_queued = 0, uprobe_disarm_work = None, inject_work = None,
     inject_work_queued = 0, monitor_done = 0, bitflip_done = 0,
     targets = [], ntargets = 0, capacity = 0,
     exec = \<lparr>params = zero_params, result = zero_result\<rparr>,
     restore = \<lparr>rest_page = None, rest_offset = 0, rest_orig_byte = 0, rest_active = False\<rparr>\<rparr>"

definition fij_uprobe_init_work :: "fij_ctx \<Rightarrow> fij_ctx" where
  "fij_uprobe_init_work c =
     c\<lparr>uprobe_disarm_work := Some Uprobe_disarm_workfn, uprobe_disarm_queued := 0,
       inject_work := Some Inject_workfn, inject_work_queued := 0\<rparr>"

text \<open>The argument is the memory before the call; \<open>memset\<close> overwrites all of it, and the
  two \<open>INIT_WORK(..., NULL)\<close> are overwritten by \<open>fij_uprobe_init_work\<close>.\<close>

definition fij_ctx_init :: "fij_ctx \<Rightarrow> fij_ctx" where
  "fij_ctx_init c =
     (let c = zero_ctx;
          c = c\<lparr>uprobe_disarm_work := None\<rparr>;
          c = fij_uprobe_init_work c
      in c\<lparr>uprobe_disarm_queued := 0\<rparr>)"

section \<open>Updates of nested members\<close>

abbreviation upd_result :: "(fij_result \<Rightarrow> fij_result) \<Rightarrow> fij_ctx \<Rightarrow> fij_ctx" where
  "upd_result f c \<equiv> c\<lparr>exec := (exec c)\<lparr>result := f (result (exec c))\<rparr>\<rparr>"

abbreviation ctx_params :: "fij_ctx \<Rightarrow> fij_params" where
  "ctx_params c \<equiv> params (exec c)"

abbreviation ctx_result :: "fij_ctx \<Rightarrow> fij_result" where
  "ctx_result c \<equiv> result (exec c)"

text \<open>\<open>strscpy(dst, src, n)\<close> of the kernel copies at most \<open>n - 1\<close> characters.\<close>

definition strscpy :: "string \<Rightarrow> nat \<Rightarrow> string" where
  "strscpy src n = take (n - 1) src"

end
