(* ===== verification/Fij_Kernel.thy ===== *)
theory Fij_Kernel
  imports Fij_Types
begin

text \<open>
  The interface to Linux. The kernel is not part of the repository, so it is a parameter:
  a record of functions over an opaque kernel state \<open>'k\<close>, one function per kernel call
  that gives an answer. Each call may change \<open>'k\<close> in any way, so between two calls of
  the module other processes may run, exit, fork or take a lock: nothing read by one call
  is assumed to hold at the next. Calls without an answer go through \<open>k_effect\<close>.
  Where a property needs a documented law of a call, the law is a named hypothesis
  (see the end of this theory).

  The state of an operation is the kernel state, the log of the calls with an effect (most
  recent last), the context of the open file and the work items that are queued and have not
  run yet.
\<close>

section \<open>What the module reads from kernel structures\<close>

text \<open>A thread as \<open>for_each_thread\<close> shows it: \<open>t->mm\<close> is not NULL, \<open>PF_KTHREAD\<close> is set.\<close>

record thread_view =
  t_task :: task
  t_mm :: bool
  t_kthread :: bool

text \<open>A task and its \<open>children\<close> list: \<open>tgid\<close>, \<open>PF_KTHREAD\<close> set, \<open>exit_state\<close> not 0.\<close>

datatype proc = Proc (p_tgid: pid_t) (p_kthread: bool) (p_exited: bool) (p_children: "proc list")

text \<open>A memory area; \<open>VM_IO\<close> and \<open>VM_PFNMAP\<close> are bits of \<open>vm_flags\<close>.\<close>

record vma =
  vm_start :: u64
  vm_end :: u64
  vm_io :: bool
  vm_pfnmap :: bool
  vm_file :: "kfile option"
  vm_pgoff :: u64

section \<open>Calls\<close>

text \<open>Signals.\<close>

datatype sig = SIGSTOP | SIGCONT | SIGKILL

text \<open>The calls the log records.\<close>

datatype kev =
    RcuLock | RcuUnlock
  | GetTask task | PutTask task
  | GetPid pidref | PutPid pidref
  | GetMm mm | PutMm mm
  | MmapLock mm | MmapUnlock mm
  | SendSig sig task int | KillPid sig pidref int
  | RegStore regs_ptr pt_field u64
  | MemStore task u64 u8
  | GetPage page | DirtyPage page | PageStore page u64 u8 | PutPage page
  | Igrab inode | Iput inode
  | Kmalloc nat | Kfree
  | WakeUpFlip | WakeUpMon | WakeUpThread kthread
  | KthreadRun kthread | KthreadStop kthread
  | UprobeRegister uprobe | UprobeUnregister uprobe | UprobeUnregisterSync
  | ScheduleWork callback | FlushWork callback | CancelWork callback
  | HrSleep u64 | Msleep int | WaitTrigger | WaitTick | SleepTick | Schedule
  | FileOpen kfile | FilePut kfile | FdInstall int kfile
  | UmhExec string "string list"
  | CopyToUser fij_result
  | MiscRegister | MiscDeregister

record 'k kernel =
  k_effect :: "kev \<Rightarrow> 'k \<Rightarrow> 'k"
  \<comment> \<open>processes and signals\<close>
  k_pid_task :: "pid_t \<Rightarrow> 'k \<Rightarrow> task option \<times> 'k"
  k_find_get_pid :: "pid_t \<Rightarrow> 'k \<Rightarrow> pidref option \<times> 'k"
  k_pidref_task :: "pidref \<Rightarrow> 'k \<Rightarrow> task option \<times> 'k"
  k_send_sig :: "sig \<Rightarrow> task \<Rightarrow> 'k \<Rightarrow> int \<times> 'k"
  k_kill_pid :: "pidref \<Rightarrow> sig \<Rightarrow> 'k \<Rightarrow> int \<times> 'k"
  k_threads :: "task \<Rightarrow> 'k \<Rightarrow> thread_view list \<times> 'k"
  k_proc_tree :: "task \<Rightarrow> 'k \<Rightarrow> proc \<times> 'k"
  k_task_tgid :: "task \<Rightarrow> 'k \<Rightarrow> pid_t \<times> 'k"
  k_task_stopped :: "task \<Rightarrow> 'k \<Rightarrow> bool \<times> 'k"
  k_task_dead :: "task \<Rightarrow> 'k \<Rightarrow> bool \<times> 'k"
  k_task_exited :: "task \<Rightarrow> 'k \<Rightarrow> bool \<times> 'k"
  k_task_exit_code :: "task \<Rightarrow> 'k \<Rightarrow> int \<times> 'k"
  k_mm_owner_tgid :: "mm \<Rightarrow> 'k \<Rightarrow> pid_t option \<times> 'k"
  \<comment> \<open>memory\<close>
  k_get_task_mm :: "task \<Rightarrow> 'k \<Rightarrow> mm option \<times> 'k"
  k_mmap_trylock :: "mm \<Rightarrow> 'k \<Rightarrow> bool \<times> 'k"
  k_vmas :: "mm \<Rightarrow> 'k \<Rightarrow> vma list \<times> 'k"
  k_exe_file :: "mm \<Rightarrow> 'k \<Rightarrow> kfile option \<times> 'k"
  k_start_code :: "mm \<Rightarrow> 'k \<Rightarrow> u64 \<times> 'k"
  k_mem_load :: "task \<Rightarrow> u64 \<Rightarrow> 'k \<Rightarrow> (int \<times> u8) \<times> 'k"
  k_mem_store :: "task \<Rightarrow> u64 \<Rightarrow> u8 \<Rightarrow> 'k \<Rightarrow> int \<times> 'k"
  k_gup :: "mm \<Rightarrow> u64 \<Rightarrow> 'k \<Rightarrow> (int \<times> page) \<times> 'k"
  k_page_shift :: nat
  k_igrab_file :: "kfile \<Rightarrow> 'k \<Rightarrow> inode option \<times> 'k"
  k_pt_regs :: "task \<Rightarrow> 'k \<Rightarrow> regs_ptr option \<times> 'k"
  k_reg_load :: "regs_ptr \<Rightarrow> pt_field \<Rightarrow> 'k \<Rightarrow> u64 \<times> 'k"
  \<comment> \<open>random numbers\<close>
  k_random_u32 :: "'k \<Rightarrow> u32 \<times> 'k"
  k_random_u32_below :: "u32 \<Rightarrow> 'k \<Rightarrow> u32 \<times> 'k"
  \<comment> \<open>threads and time\<close>
  k_should_stop :: "'k \<Rightarrow> bool \<times> 'k"
  k_fatal_signal :: "'k \<Rightarrow> bool \<times> 'k"
  k_waitqueue_active :: "'k \<Rightarrow> bool \<times> 'k"
  k_wait_killed :: "'k \<Rightarrow> bool \<times> 'k"
  k_jiffies :: "'k \<Rightarrow> u64 \<times> 'k"
  k_msecs_to_jiffies :: "nat \<Rightarrow> int"
  k_kthread_run :: "'k \<Rightarrow> (int + kthread) \<times> 'k"
  k_hrtimeout :: "u64 \<Rightarrow> 'k \<Rightarrow> int \<times> 'k"
  k_msleep :: "int \<Rightarrow> 'k \<Rightarrow> int \<times> 'k"
  k_stack_int :: "'k \<Rightarrow> int \<times> 'k"
  k_stack_view :: "'k \<Rightarrow> fij_reg_view \<times> 'k"
  \<comment> \<open>allocation, files, user space\<close>
  k_kmalloc_array :: "nat \<Rightarrow> 'k \<Rightarrow> (nat \<Rightarrow> pid_t) option \<times> 'k"
  k_alloc_ok :: "'k \<Rightarrow> bool \<times> 'k"
  k_uprobe_register :: "inode option \<Rightarrow> int \<Rightarrow> 'k \<Rightarrow> (int + uprobe) \<times> 'k"
  k_current_tgid :: "'k \<Rightarrow> pid_t \<times> 'k"
  k_filp_open :: "string \<Rightarrow> 'k \<Rightarrow> (int + kfile) \<times> 'k"
  k_unused_fd :: "'k \<Rightarrow> int \<times> 'k"
  k_umh_run :: "string \<Rightarrow> string list \<Rightarrow> 'k \<Rightarrow> (int + task) \<times> 'k" \<comment> \<open>\<open>Inl\<close>: no child was made\<close>
  k_umh_execve :: "string \<Rightarrow> string list \<Rightarrow> 'k \<Rightarrow> int \<times> 'k"
  k_copy_from_user :: "'k \<Rightarrow> fij_params option \<times> 'k"
  k_copy_to_user :: "'k \<Rightarrow> bool \<times> 'k"
  k_wait_done :: "'k \<Rightarrow> int \<times> 'k"
  k_misc_register :: "'k \<Rightarrow> int \<times> 'k"

record 'k st =
  kern :: 'k
  klog :: "kev list"
  ctx :: fij_ctx
  work :: "callback list"

text \<open>A call with an answer, a call with an effect only, a call with both.\<close>

definition ask :: "('k \<Rightarrow> 'a \<times> 'k) \<Rightarrow> 'k st \<Rightarrow> ('a \<times> 'k st) option" where
  "ask f s = (case f (kern s) of (a, k) \<Rightarrow> Some (a, s\<lparr>kern := k\<rparr>))"

definition tell :: "'k kernel \<Rightarrow> kev \<Rightarrow> 'k st \<Rightarrow> 'k st" where
  "tell K e s = s\<lparr>kern := k_effect K e (kern s), klog := klog s @ [e]\<rparr>"

definition upd :: "(fij_ctx \<Rightarrow> fij_ctx) \<Rightarrow> 'k st \<Rightarrow> 'k st" where
  "upd f s = s\<lparr>ctx := f (ctx s)\<rparr>"

lemma ask_eq: "ask f s = Some (fst (f (kern s)), s\<lparr>kern := snd (f (kern s))\<rparr>)"
  by (simp add: ask_def split: prod.splits)

lemma ask_wlpI:
  "(\<And>a k. f (kern s) = (a, k) \<Longrightarrow> Q (a, s\<lparr>kern := k\<rparr>)) \<Longrightarrow> wlp (ask f s) Q"
  by (simp add: ask_def split: prod.splits)

lemma ask_wpI:
  "(\<And>a k. f (kern s) = (a, k) \<Longrightarrow> Q (a, s\<lparr>kern := k\<rparr>)) \<Longrightarrow> wp (ask f s) Q"
  by (simp add: ask_def split: prod.splits)

text \<open>An event whose effect the answer already carries.\<close>

definition noted :: "kev \<Rightarrow> 'k st \<Rightarrow> 'k st" where
  "noted e s = s\<lparr>klog := klog s @ [e]\<rparr>"

text \<open>\<open>send_sig\<close>: the log records the answer, 0 for a signal that was delivered.\<close>

definition send_sig :: "'k kernel \<Rightarrow> sig \<Rightarrow> task \<Rightarrow> 'k st \<Rightarrow> (int \<times> 'k st) option" where
  "send_sig K g t s = do {
     (r, s) \<leftarrow> ask (k_send_sig K g t) s;
     Some (r, noted (SendSig g t r) s)
   }"

lemma noted_simps [simp]:
  "klog (noted e s) = klog s @ [e]"
  "ctx (noted e s) = ctx s"
  "kern (noted e s) = kern s"
  by (simp_all add: noted_def)

lemma send_sig_wlpI:
  assumes "\<And>r s'. klog s' = klog s @ [SendSig g t r] \<Longrightarrow> ctx s' = ctx s \<Longrightarrow> Q (r, s')"
  shows "wlp (send_sig K g t s) Q"
  by (auto simp: send_sig_def intro!: ask_wlpI assms)

lemma send_sig_wpI:
  assumes "\<And>r s'. klog s' = klog s @ [SendSig g t r] \<Longrightarrow> ctx s' = ctx s \<Longrightarrow> Q (r, s')"
  shows "wp (send_sig K g t s) Q"
  by (auto simp: send_sig_def intro!: ask_wpI assms)

lemma tell_simps [simp]:
  "klog (tell K e s) = klog s @ [e]"
  "ctx (tell K e s) = ctx s"
  by (simp_all add: tell_def)

lemma upd_simps [simp]:
  "klog (upd f s) = klog s"
  "kern (upd f s) = kern s"
  "ctx (upd f s) = f (ctx s)"
  by (simp_all add: upd_def)

section \<open>Counting references\<close>

text \<open>What an event adds to the number of references held on a task, an \<open>mm\<close>, a pid, a
  page or an inode, and to the depth of the RCU and \<open>mmap\<close> read sections.\<close>

definition task_ref :: "task \<Rightarrow> kev \<Rightarrow> int" where
  "task_ref t e = (if e = GetTask t then 1 else if e = PutTask t then - 1 else 0)"

definition pid_ref :: "pidref \<Rightarrow> kev \<Rightarrow> int" where
  "pid_ref p e = (if e = GetPid p then 1 else if e = PutPid p then - 1 else 0)"

definition mm_ref :: "mm \<Rightarrow> kev \<Rightarrow> int" where
  "mm_ref m e = (if e = GetMm m then 1 else if e = PutMm m then - 1 else 0)"

definition mmap_depth :: "mm \<Rightarrow> kev \<Rightarrow> int" where
  "mmap_depth m e = (if e = MmapLock m then 1 else if e = MmapUnlock m then - 1 else 0)"

definition page_ref :: "page \<Rightarrow> kev \<Rightarrow> int" where
  "page_ref p e = (if e = GetPage p then 1 else if e = PutPage p then - 1 else 0)"

definition inode_ref :: "inode \<Rightarrow> kev \<Rightarrow> int" where
  "inode_ref i e = (if e = Igrab i then 1 else if e = Iput i then - 1 else 0)"

definition rcu_depth :: "kev \<Rightarrow> int" where
  "rcu_depth e = (if e = RcuLock then 1 else if e = RcuUnlock then - 1 else 0)"

text \<open>References on tasks, whichever the task.\<close>

fun any_task_ref :: "kev \<Rightarrow> int" where
  "any_task_ref (GetTask t) = 1"
| "any_task_ref (PutTask t) = - 1"
| "any_task_ref _ = 0"

text \<open>Events that only take and give back references and locks: the target does not see them.\<close>

fun quiet_ev :: "kev \<Rightarrow> bool" where
  "quiet_ev RcuLock = True"
| "quiet_ev RcuUnlock = True"
| "quiet_ev (GetTask t) = True"
| "quiet_ev (PutTask t) = True"
| "quiet_ev (GetPid p) = True"
| "quiet_ev (PutPid p) = True"
| "quiet_ev (GetMm m) = True"
| "quiet_ev (PutMm m) = True"
| "quiet_ev (MmapLock m) = True"
| "quiet_ev (MmapUnlock m) = True"
| "quiet_ev (Kmalloc n) = True"
| "quiet_ev Kfree = True"
| "quiet_ev SleepTick = True"
| "quiet_ev _ = False"

text \<open>\<open>s'\<close> extends the log of \<open>s\<close> with events that all satisfy \<open>P\<close>.\<close>

definition log_ext :: "(kev \<Rightarrow> bool) \<Rightarrow> 'k st \<Rightarrow> 'k st \<Rightarrow> bool" where
  "log_ext P s s' \<longleftrightarrow>
     take (length (klog s)) (klog s') = klog s \<and> list_all P (drop (length (klog s)) (klog s'))"

lemma log_ext_iff: "log_ext P s s' \<longleftrightarrow> (\<exists>es. klog s' = klog s @ es \<and> list_all P es)"
proof
  assume "log_ext P s s'"
  then show "\<exists>es. klog s' = klog s @ es \<and> list_all P es"
    unfolding log_ext_def by (metis append_take_drop_id)
qed (auto simp: log_ext_def)

lemma log_ext_same [simp]: "klog s' = klog s \<Longrightarrow> log_ext P s s'"
  by (simp add: log_ext_def)

lemma log_ext_append: "klog s' = klog s @ es \<Longrightarrow> log_ext P s s' \<longleftrightarrow> list_all P es"
  by (simp add: log_ext_def)

lemma log_ext_trans: "log_ext P s s' \<Longrightarrow> log_ext P s' s'' \<Longrightarrow> log_ext P s s''"
  unfolding log_ext_iff by (metis append.assoc list_all_append)

lemma log_ext_mono: "log_ext P s s' \<Longrightarrow> (\<And>e. P e \<Longrightarrow> Q e) \<Longrightarrow> log_ext Q s s'"
  unfolding log_ext_iff by (metis list.pred_mono_strong)

text \<open>\<open>s'\<close> extends the log of \<open>s\<close> with a list of events that satisfies \<open>P\<close>.\<close>

definition emits :: "(kev list \<Rightarrow> bool) \<Rightarrow> 'k st \<Rightarrow> 'k st \<Rightarrow> bool" where
  "emits P s s' \<longleftrightarrow>
     take (length (klog s)) (klog s') = klog s \<and> P (drop (length (klog s)) (klog s'))"

lemma emits_iff: "emits P s s' \<longleftrightarrow> (\<exists>es. klog s' = klog s @ es \<and> P es)"
proof
  assume "emits P s s'"
  then show "\<exists>es. klog s' = klog s @ es \<and> P es"
    unfolding emits_def by (metis append_take_drop_id)
qed (auto simp: emits_def)

lemma emits_append: "klog s' = klog s @ es \<Longrightarrow> emits P s s' \<longleftrightarrow> P es"
  by (simp add: emits_def)

lemma emits_same: "klog s' = klog s \<Longrightarrow> emits P s s' \<longleftrightarrow> P []"
  by (simp add: emits_def)

lemma emits_mono: "emits P s s' \<Longrightarrow> (\<And>es. P es \<Longrightarrow> Q es) \<Longrightarrow> emits Q s s'"
  by (auto simp: emits_def)

lemma emits_trans:
  assumes "emits P s s'" and "emits Q s' s''" and "\<And>es es'. P es \<Longrightarrow> Q es' \<Longrightarrow> R (es @ es')"
  shows "emits R s s''"
  using assms unfolding emits_iff by (metis append.assoc)

lemmas ref_defs =
  task_ref_def pid_ref_def mm_ref_def mmap_depth_def page_ref_def inode_ref_def rcu_depth_def

text \<open>An operation is balanced when it gives back everything it took: every count is as
  before, whatever the kernel answered.\<close>

definition same_refs :: "'k st \<Rightarrow> 'k st \<Rightarrow> bool" where
  "same_refs s s' \<longleftrightarrow>
     (\<forall>t. net (task_ref t) (klog s') = net (task_ref t) (klog s)) \<and>
     (\<forall>p. net (pid_ref p) (klog s') = net (pid_ref p) (klog s)) \<and>
     (\<forall>m. net (mm_ref m) (klog s') = net (mm_ref m) (klog s)) \<and>
     (\<forall>m. net (mmap_depth m) (klog s') = net (mmap_depth m) (klog s)) \<and>
     net any_task_ref (klog s') = net any_task_ref (klog s) \<and>
     net rcu_depth (klog s') = net rcu_depth (klog s)"

text \<open>The same without the task references.\<close>

definition same_locks :: "'k st \<Rightarrow> 'k st \<Rightarrow> bool" where
  "same_locks s s' \<longleftrightarrow>
     (\<forall>p. net (pid_ref p) (klog s') = net (pid_ref p) (klog s)) \<and>
     (\<forall>m. net (mm_ref m) (klog s') = net (mm_ref m) (klog s)) \<and>
     (\<forall>m. net (mmap_depth m) (klog s') = net (mmap_depth m) (klog s)) \<and>
     net rcu_depth (klog s') = net rcu_depth (klog s)"

lemma same_refs_locks: "same_refs s s' \<Longrightarrow> same_locks s s'"
  by (simp add: same_refs_def same_locks_def)

lemma same_locks_trans: "same_locks s s' \<Longrightarrow> same_locks s' s'' \<Longrightarrow> same_locks s s''"
  by (simp add: same_locks_def)

lemma same_refs_any: "same_refs s s' \<Longrightarrow> net any_task_ref (klog s') = net any_task_ref (klog s)"
  by (simp add: same_refs_def)

lemma same_refs_refl [simp]: "same_refs s s"
  by (simp add: same_refs_def)

lemma same_refs_trans: "same_refs s s' \<Longrightarrow> same_refs s' s'' \<Longrightarrow> same_refs s s''"
  by (simp add: same_refs_def)

section \<open>Laws of the kernel\<close>

text \<open>\<open>get_random_u32_below(ceil)\<close> answers below \<open>ceil\<close>.\<close>

definition random_below_law :: "'k kernel \<Rightarrow> bool" where
  "random_below_law K \<longleftrightarrow> (\<forall>c k. 0 < c \<longrightarrow> fst (k_random_u32_below K c k) < c)"

end
