(* ===== verification/Fij_Demo.thy ===== *)
theory Fij_Demo
  imports Fij_Kernel
begin

text \<open>
  A concrete kernel on which the witnesses of the properties run: process 100 is task 1 with
  two user threads and a kernel thread, one child process 101 (task 2) that has a child 102
  of its own, one file-backed and one anonymous memory area, and a random generator that
  always answers 5. It answers every question the same way, whatever its state; witnesses that
  need another answer update a field.
\<close>

definition demo_threads :: "thread_view list" where
  "demo_threads = [\<lparr>t_task = 1, t_mm = True, t_kthread = False\<rparr>,
     \<lparr>t_task = 7, t_mm = False, t_kthread = True\<rparr>,
     \<lparr>t_task = 3, t_mm = True, t_kthread = False\<rparr>]"

definition demo_tree :: proc where
  "demo_tree = Proc 100 False False
     [Proc 101 False False [Proc 102 False False []], Proc 103 False True []]"

definition demo_tree_of :: "task \<Rightarrow> proc" where
  "demo_tree_of t = (if t = 2 then Proc 101 False False [Proc 102 False False []] else demo_tree)"

definition demo_vmas :: "vma list" where
  "demo_vmas = [\<lparr>vm_start = 0x1000, vm_end = 0x3000, vm_io = False, vm_pfnmap = False,
       vm_file = Some 9, vm_pgoff = 2\<rparr>,
     \<lparr>vm_start = 0x8000, vm_end = 0x9000, vm_io = True, vm_pfnmap = False,
       vm_file = None, vm_pgoff = 0\<rparr>]"

definition demo :: "'k kernel" where
  "demo = \<lparr>
     k_effect = (\<lambda>e k. k),
     k_pid_task = (\<lambda>p k. (if p = 100 then Some 1 else if p = 101 then Some 2 else None, k)),
     k_find_get_pid = (\<lambda>p k. (if p = 100 \<or> p = 101 then Some (nat p) else None, k)),
     k_pidref_task = (\<lambda>p k. (if p = 100 then Some 1 else if p = 101 then Some 2 else None, k)),
     k_send_sig = (\<lambda>g t k. (0, k)),
     k_kill_pid = (\<lambda>p g k. (0, k)),
     k_threads = (\<lambda>t k. (if t = 1 then demo_threads else [], k)),
     k_proc_tree = (\<lambda>t k. (demo_tree_of t, k)),
     k_task_tgid = (\<lambda>t k. (if t = 2 then 101 else 100, k)),
     k_task_stopped = (\<lambda>t k. (True, k)),
     k_task_dead = (\<lambda>t k. (False, k)),
     k_task_exited = (\<lambda>t k. (False, k)),
     k_task_exit_code = (\<lambda>t k. (0, k)),
     k_mm_owner_tgid = (\<lambda>m k. (Some 100, k)),
     k_get_task_mm = (\<lambda>t k. (Some 4, k)),
     k_mmap_trylock = (\<lambda>m k. (True, k)),
     k_vmas = (\<lambda>m k. (demo_vmas, k)),
     k_exe_file = (\<lambda>m k. (Some 9, k)),
     k_start_code = (\<lambda>m k. (0x1000, k)),
     k_mem_load = (\<lambda>t a k. ((1, 0x0F), k)),
     k_mem_store = (\<lambda>t a b k. (1, k)),
     k_gup = (\<lambda>m a k. ((1, 6), k)),
     k_page_shift = 12,
     k_igrab_file = (\<lambda>f k. (Some 11, k)),
     k_pt_regs = (\<lambda>t k. (Some t, k)),
     k_reg_load = (\<lambda>r f k. (0xFF, k)),
     k_random_u32 = (\<lambda>k. (5, k)),
     k_random_u32_below = (\<lambda>c k. (0, k)),
     k_should_stop = (\<lambda>k. (False, k)),
     k_fatal_signal = (\<lambda>k. (False, k)),
     k_waitqueue_active = (\<lambda>k. (False, k)),
     k_wait_killed = (\<lambda>k. (False, k)),
     k_jiffies = (\<lambda>k. (0, k)),
     k_msecs_to_jiffies = int,
     k_kthread_run = (\<lambda>k. (Inr 21, k)),
     k_hrtimeout = (\<lambda>d k. (0, k)),
     k_msleep = (\<lambda>d k. (0, k)),
     k_stack_int = (\<lambda>k. (0, k)),
     k_stack_view = (\<lambda>k. (\<lparr>ptr = None, width = 0\<rparr>, k)),
     k_kmalloc_array = (\<lambda>n k. (Some (\<lambda>i. -1), k)),
     k_alloc_ok = (\<lambda>k. (True, k)),
     k_uprobe_register = (\<lambda>i off k. (Inr 31, k)),
     k_current_tgid = (\<lambda>k. (100, k)),
     k_filp_open = (\<lambda>p k. (Inr 41, k)),
     k_unused_fd = (\<lambda>k. (0, k)),
     k_umh_run = (\<lambda>p a k. (Inr 1, k)),
     k_umh_execve = (\<lambda>p a k. (0, k)),
     k_copy_from_user = (\<lambda>k. (Some zero_params, k)),
     k_copy_to_user = (\<lambda>k. (True, k)),
     k_wait_done = (\<lambda>k. (0, k)),
     k_misc_register = (\<lambda>k. (0, k))\<rparr>"

definition demo_st :: "unit st" where
  "demo_st = \<lparr>kern = (), klog = [], ctx = fij_ctx_init zero_ctx, work = []\<rparr>"

lemma demo_random_below_law: "random_below_law demo"
  by (simp add: random_below_law_def demo_def word_gt_0)

end
