(* ===== verification/Fij_Util.thy ===== *)
theory Fij_Util
  imports Fij_Demo
begin

text \<open>
  \<open>core/util.c\<close>: task lookup, the translation of a virtual address to an offset in the
  executable, resuming a process, the choice of the thread, the register and the bit to
  flip, and the weighted choice between registers and memory.

  Both thread pickers walk the thread list twice, once to count and once to select; the two
  walks are two reads of a list that may change in between. The pickers promise the same
  to their callers, which the locale \<open>thread_picker\<close> states.
\<close>

section \<open>Lookup and resume\<close>

definition fij_rcu_find_get_task_by_tgid ::
  "'k kernel \<Rightarrow> pid_t \<Rightarrow> 'k st \<Rightarrow> (task option \<times> 'k st) option" where
  "fij_rcu_find_get_task_by_tgid K tgid s = do {
     let s = tell K RcuLock s;
     (tsk, s) \<leftarrow> ask (k_pid_task K tgid) s;
     let s = (case tsk of None \<Rightarrow> s | Some t \<Rightarrow> tell K (GetTask t) s);
     let s = tell K RcuUnlock s;
     Some (tsk, s)
   }"

text \<open>\<open>send_sig\<close> on the NULL that \<open>pid_task\<close> gives for a task that has gone is an oops.\<close>

definition fij_send_cont :: "'k kernel \<Rightarrow> pid_t \<Rightarrow> 'k st \<Rightarrow> (int \<times> 'k st) option" where
  "fij_send_cont K tgid s = do {
     (p, s) \<leftarrow> ask (k_find_get_pid K tgid) s;
     case p of
       None \<Rightarrow> Some (- ESRCH, s)
     | Some p \<Rightarrow> do {
         let s = tell K (GetPid p) s;
         (t, s) \<leftarrow> ask (k_pidref_task K p) s;
         case t of
           None \<Rightarrow> None
         | Some t \<Rightarrow> do {
             (_, s) \<leftarrow> send_sig K SIGCONT t s;
             let s = tell K (PutPid p) s;
             Some (0, s)
           }
       }
   }"

section \<open>Virtual address to file offset\<close>

definition vma_maps_exe :: "kfile option \<Rightarrow> u64 \<Rightarrow> vma \<Rightarrow> bool" where
  "vma_maps_exe exe va v \<longleftrightarrow>
     vm_file v \<noteq> None \<and> exe \<noteq> None \<and> vm_file v = exe \<and> vm_start v \<le> va \<and> va < vm_end v"

definition vma_file_off :: "'k kernel \<Rightarrow> u64 \<Rightarrow> vma \<Rightarrow> int" where
  "vma_file_off K va v = sint ((va - vm_start v) + push_bit (k_page_shift K) (vm_pgoff v))"

text \<open>The results are the return code and the new values of \<open>*out_inode\<close> and \<open>*out_off\<close>.\<close>

definition fij_va_to_file_off ::
  "'k kernel \<Rightarrow> task \<Rightarrow> u64 \<Rightarrow> inode option \<Rightarrow> int \<Rightarrow> 'k st \<Rightarrow>
   ((int \<times> inode option \<times> int) \<times> 'k st) option" where
  "fij_va_to_file_off K t va out_inode out_off s = do {
     (m, s) \<leftarrow> ask (k_get_task_mm K t) s;
     case m of
       None \<Rightarrow> Some ((- ESRCH, out_inode, out_off), s)
     | Some m \<Rightarrow> do {
         let s = tell K (MmapLock m) (tell K (GetMm m) s);
         (vmas, s) \<leftarrow> ask (k_vmas K m) s;
         (exe, s) \<leftarrow> ask (k_exe_file K m) s;
         (r, s) \<leftarrow> (case find (vma_maps_exe exe va) vmas of
             None \<Rightarrow> Some ((- ENOENT, out_inode, out_off), s)
           | Some v \<Rightarrow> do {
               (i, s) \<leftarrow> ask (k_igrab_file K (the (vm_file v))) s;
               let s = (case i of None \<Rightarrow> s | Some n \<Rightarrow> tell K (Igrab n) s);
               Some ((0, i, vma_file_off K va v), s)
             });
         let s = tell K (PutMm m) (tell K (MmapUnlock m) s);
         Some (r, s)
       }
   }"

section \<open>Choosing a thread\<close>

definition eligible :: "thread_view \<Rightarrow> bool" where
  "eligible t \<longleftrightarrow> t_mm t \<and> \<not> t_kthread t"

definition count_eligible :: "thread_view list \<Rightarrow> nat" where
  "count_eligible ts = length (filter eligible ts)"

text \<open>The second walk: \<open>idx\<close> numbers the eligible threads seen so far.\<close>

fun pick_walk :: "nat \<Rightarrow> nat \<Rightarrow> thread_view list \<Rightarrow> task option" where
  "pick_walk idx pick [] = None"
| "pick_walk idx pick (t # ts) =
     (if eligible t then
        (if idx = pick then Some (t_task t) else pick_walk (Suc idx) pick ts)
      else pick_walk idx pick ts)"

abbreviation set_thread_idx :: "int \<Rightarrow> 'k st \<Rightarrow> 'k st" where
  "set_thread_idx i \<equiv> upd (upd_result (\<lambda>r. r\<lparr>thread_idx := i\<rparr>))"

definition fij_pick_random_user_thread ::
  "'k kernel \<Rightarrow> pid_t \<Rightarrow> 'k st \<Rightarrow> (task option \<times> 'k st) option" where
  "fij_pick_random_user_thread K tgid s = do {
     let s = tell K RcuLock s;
     (g, s) \<leftarrow> fij_rcu_find_get_task_by_tgid K tgid s;
     case g of
       None \<Rightarrow> Some (None, tell K RcuUnlock s)
     | Some g \<Rightarrow> do {
         let s = tell K (GetTask g) s;
         (ts, s) \<leftarrow> ask (k_threads K g) s;
         let n = count_eligible ts;
         if n = 0 then Some (None, tell K (PutTask g) (tell K RcuUnlock s))
         else do {
           (r, s) \<leftarrow> ask (k_random_u32 K) s;
           let pick = unat r mod n;
           (ts', s) \<leftarrow> ask (k_threads K g) s;
           let chosen = pick_walk 0 pick ts';
           let s = (case chosen of
               None \<Rightarrow> s
             | Some t \<Rightarrow> set_thread_idx (s32 (int pick)) (tell K (GetTask t) s));
           let s = tell K (PutTask g) (tell K RcuUnlock s);
           Some (chosen, s)
         }
       }
   }"

definition fij_pick_user_thread_by_index ::
  "'k kernel \<Rightarrow> pid_t \<Rightarrow> int \<Rightarrow> 'k st \<Rightarrow> (task option \<times> 'k st) option" where
  "fij_pick_user_thread_by_index K tgid n1 s =
     (if n1 \<le> 0 then fij_pick_random_user_thread K tgid s
      else do {
        let s = tell K RcuLock s;
        (g, s) \<leftarrow> fij_rcu_find_get_task_by_tgid K tgid s;
        case g of
          None \<Rightarrow> Some (None, tell K RcuUnlock s)
        | Some g \<Rightarrow> do {
            let s = tell K (GetTask g) s;
            (ts, s) \<leftarrow> ask (k_threads K g) s;
            let cnt = count_eligible ts;
            if cnt = 0 \<or> cnt \<le> nat (n1 - 1)
            then Some (None, tell K (PutTask g) (tell K RcuUnlock s))
            else do {
              let target = nat (n1 - 1);
              (ts', s) \<leftarrow> ask (k_threads K g) s;
              let chosen = pick_walk 0 target ts';
              let s = (case chosen of None \<Rightarrow> s | Some t \<Rightarrow> tell K (GetTask t) s);
              let s = set_thread_idx (s32 (int target)) s;
              let s = tell K (PutTask g) (tell K RcuUnlock s);
              Some (chosen, s)
            }
          }
      })"

section \<open>Random register and bit\<close>

text \<open>On an architecture without registers the range is 0 and \<open>%\<close> traps.\<close>

definition fij_pick_random_reg_any ::
  "arch \<Rightarrow> 'k kernel \<Rightarrow> 'k st \<Rightarrow> (int \<times> 'k st) option" where
  "fij_pick_random_reg_any A K s = do {
     let range = reg_max A - 1;
     (r, s) \<leftarrow> ask (k_random_u32 K) s;
     if range = 0 then None else Some (1 + uint r mod range, s)
   }"

definition fij_pick_random_bit64 :: "'k kernel \<Rightarrow> 'k st \<Rightarrow> (int \<times> 'k st) option" where
  "fij_pick_random_bit64 K s = do {
     (r, s) \<leftarrow> ask (k_random_u32 K) s;
     Some (uint (r AND 63), s)
   }"

section \<open>Registers or memory\<close>

definition U32_MAX :: u32 where
  "U32_MAX = 0xFFFFFFFF"

text \<open>\<open>total\<close> and \<open>limit\<close> of the code, and one draw's verdict.\<close>

definition weight_total :: "int \<Rightarrow> u32" where
  "weight_total w =
     (let wm = word_of_int w :: u32
      in if wm = U32_MAX then U32_MAX else wm + 1)"

definition draw_limit :: "u32 \<Rightarrow> u32" where
  "draw_limit tot = U32_MAX - (U32_MAX mod tot)"

definition draw_is_reg :: "u32 \<Rightarrow> u32 \<Rightarrow> bool" where
  "draw_is_reg tot r \<longleftrightarrow> r mod tot < 1"

text \<open>The \<open>do ... while (r >= limit)\<close> loop; \<open>None\<close> when no draw is ever accepted.\<close>

partial_function (option) draw_below :: "'k kernel \<Rightarrow> u32 \<Rightarrow> 'k st \<Rightarrow> (u32 \<times> 'k st) option" where
  "draw_below K limit s =
     Option.bind (ask (k_random_u32 K) s)
       (\<lambda>p. if limit \<le> fst p then draw_below K limit (snd p) else Some p)"

definition choose_register_target ::
  "'k kernel \<Rightarrow> int \<Rightarrow> int \<Rightarrow> 'k st \<Rightarrow> (bool \<times> 'k st) option" where
  "choose_register_target K w om s =
     (if om \<noteq> 0 then Some (False, s)
      else let tot = weight_total w
           in if tot = 1 then Some (True, s)
              else do {
                (r, s) \<leftarrow> draw_below K (draw_limit tot) s;
                Some (draw_is_reg tot r, s)
              })"

section \<open>Lemmas: lookup\<close>

lemma fij_rcu_find_returns: "fij_rcu_find_get_task_by_tgid K tgid s \<noteq> None"
  by (simp add: fij_rcu_find_get_task_by_tgid_def ask_eq Let_def)

lemma fij_rcu_find_Some:
  assumes "fij_rcu_find_get_task_by_tgid K tgid s = Some (r, s')"
  shows "klog s' = klog s @ RcuLock # (case r of None \<Rightarrow> [] | Some t \<Rightarrow> [GetTask t]) @ [RcuUnlock]"
    and "ctx s' = ctx s"
  using assms
  by (auto simp: fij_rcu_find_get_task_by_tgid_def ask_eq Let_def split: option.splits)

section \<open>Lemmas: the walk\<close>

lemma pick_walk_eq:
  "pick_walk idx pick ts =
     (if idx \<le> pick \<and> pick - idx < count_eligible ts
      then Some (t_task (filter eligible ts ! (pick - idx))) else None)"
  by (induction idx pick ts rule: pick_walk.induct)
    (auto simp: count_eligible_def nth_Cons' Suc_diff_le)

lemma pick_walk_0:
  "pick_walk 0 pick ts =
     (if pick < count_eligible ts then Some (t_task (filter eligible ts ! pick)) else None)"
  by (simp add: pick_walk_eq)

lemma pick_walk_eligible:
  "pick_walk 0 pick ts = Some t \<Longrightarrow> \<exists>v \<in> set ts. t_task v = t \<and> eligible v"
  by (auto simp: pick_walk_0 count_eligible_def split: if_splits
      dest!: nth_mem)

section \<open>The contract of a thread picker\<close>

text \<open>What the callers rely on: the pick only takes references, leaves the context alone but
  for \<open>result.thread_idx\<close>, and returns an eligible thread with a reference for the
  caller. The group leader found on the way is referenced twice (once inside
  \<open>fij_rcu_find_get_task_by_tgid\<close>, once by the picker) and released once, which the
  contract records as a surplus of one.\<close>

definition same_but_thread_idx :: "fij_ctx \<Rightarrow> fij_ctx \<Rightarrow> bool" where
  "same_but_thread_idx c c' \<longleftrightarrow>
     upd_result (\<lambda>r. r\<lparr>thread_idx := 0\<rparr>) c' = upd_result (\<lambda>r. r\<lparr>thread_idx := 0\<rparr>) c"

definition picker_post :: "'k kernel \<Rightarrow> 'k st \<Rightarrow> task option \<Rightarrow> 'k st \<Rightarrow> bool" where
  "picker_post K s r s' \<longleftrightarrow>
     log_ext quiet_ev s s' \<and> same_locks s s' \<and>
     same_but_thread_idx (ctx s) (ctx s') \<and>
     (\<forall>t. r = Some t \<longrightarrow>
        (\<exists>g k. \<exists>v \<in> set (fst (k_threads K g k)). t_task v = t \<and> eligible v)) \<and>
     (case r of
        None \<Rightarrow> net any_task_ref (klog s') - net any_task_ref (klog s) \<in> {0, 1}
      | Some t \<Rightarrow> net any_task_ref (klog s') = net any_task_ref (klog s) + 2)"

lemma same_but_thread_idx_refl [simp]: "same_but_thread_idx c c"
  by (simp add: same_but_thread_idx_def)

lemma same_but_thread_idx_upd [simp]:
  "same_but_thread_idx c (upd_result (\<lambda>r. r\<lparr>thread_idx := i\<rparr>) c)"
  by (simp add: same_but_thread_idx_def)

lemma same_but_thread_idxD:
  assumes "same_but_thread_idx c c'"
  shows "\<exists>i. c' = upd_result (\<lambda>r. r\<lparr>thread_idx := i\<rparr>) c"
proof -
  have "c' = upd_result (\<lambda>r. r\<lparr>thread_idx := thread_idx (ctx_result c')\<rparr>)
          (upd_result (\<lambda>r. r\<lparr>thread_idx := 0\<rparr>) c')"
    by simp
  also have "\<dots> = upd_result (\<lambda>r. r\<lparr>thread_idx := thread_idx (ctx_result c')\<rparr>) c"
    using assms by (simp add: same_but_thread_idx_def)
  finally show ?thesis by blast
qed

locale thread_picker =
  fixes K :: "'k kernel"
    and pick :: "pid_t \<Rightarrow> 'k st \<Rightarrow> (task option \<times> 'k st) option"
  assumes contract: "wp (pick tgid s) (\<lambda>(r, s'). picker_post K s r s')"
begin

lemma pick_returns: "pick tgid s \<noteq> None"
  using contract [of tgid s] by (simp add: wp_iff_wlp)

lemma pick_post: "pick tgid s = Some (r, s') \<Longrightarrow> picker_post K s r s'"
  using contract [of tgid s] by (simp add: wp_def)

lemma picked_is_user_thread:
  "pick tgid s = Some (Some t, s') \<Longrightarrow>
     \<exists>g k. \<exists>v \<in> set (fst (k_threads K g k)). t_task v = t \<and> t_mm v \<and> \<not> t_kthread v"
  by (drule pick_post) (auto simp: picker_post_def eligible_def)

lemma pick_keeps_params:
  "pick tgid s = Some (r, s') \<Longrightarrow> ctx_params (ctx s') = ctx_params (ctx s)"
  by (drule pick_post) (auto simp: picker_post_def dest!: same_but_thread_idxD)

lemma pick_wpI: "(\<And>r s'. picker_post K s r s' \<Longrightarrow> Q (r, s')) \<Longrightarrow> wp (pick tgid s) Q"
  using contract by (rule wp_mono) auto

end

lemma fij_rcu_find_wpI:
  assumes "\<And>r s'. klog s' = klog s @ RcuLock #
             (case r of None \<Rightarrow> [] | Some t \<Rightarrow> [GetTask t]) @ [RcuUnlock] \<Longrightarrow>
           ctx s' = ctx s \<Longrightarrow> Q (r, s')"
  shows "wp (fij_rcu_find_get_task_by_tgid K tgid s) Q"
  unfolding wp_iff_wlp using fij_rcu_find_returns
  by (auto simp: wlp_def dest: fij_rcu_find_Some intro!: assms)

lemma picked_from_walk:
  assumes "k_threads K g k = (ts, k')" and "pick_walk 0 n ts = Some t"
  shows "\<exists>g k. \<exists>v \<in> set (fst (k_threads K g k)). t_task v = t \<and> eligible v"
  using assms pick_walk_eligible by (metis fst_conv)

lemma pick_random_contract:
  "wp (fij_pick_random_user_thread K tgid s) (\<lambda>(r, s'). picker_post K s r s')"
  unfolding fij_pick_random_user_thread_def
  by (auto simp: Let_def picker_post_def log_ext_append same_locks_def ref_defs
      intro!: ask_wpI fij_rcu_find_wpI intro: picked_from_walk split: option.splits)

lemma pick_by_index_contract:
  "wp (fij_pick_user_thread_by_index K tgid n s) (\<lambda>(r, s'). picker_post K s r s')"
proof (cases "n \<le> 0")
  case True
  then show ?thesis
    using pick_random_contract by (simp add: fij_pick_user_thread_by_index_def)
next
  case False
  then show ?thesis
    unfolding fij_pick_user_thread_by_index_def
    by (auto simp: Let_def picker_post_def log_ext_append same_locks_def ref_defs
        intro!: ask_wpI fij_rcu_find_wpI intro: picked_from_walk split: option.splits)
qed

interpretation random_picker: thread_picker K "fij_pick_random_user_thread K" for K
  by unfold_locales (rule pick_random_contract)

interpretation index_picker:
  thread_picker K "\<lambda>tgid. fij_pick_user_thread_by_index K tgid n" for K n
  by unfold_locales (rule pick_by_index_contract)

section \<open>Lemmas: the weighted choice\<close>

declare draw_below.simps [simp del]

text \<open>The \<open>n\<close>-th number the generator gives from the kernel state \<open>k\<close> on.\<close>

definition nth_draw :: "'k kernel \<Rightarrow> 'k \<Rightarrow> nat \<Rightarrow> u32" where
  "nth_draw K k n = fst (k_random_u32 K (((\<lambda>k. snd (k_random_u32 K k)) ^^ n) k))"

lemma nth_draw_Suc: "nth_draw K k (Suc n) = nth_draw K (snd (k_random_u32 K k)) n"
  by (simp add: nth_draw_def funpow_Suc_right del: funpow.simps)

lemma draw_below_first:
  assumes "nth_draw K (kern s) n < limit" and "\<And>i. i < n \<Longrightarrow> limit \<le> nth_draw K (kern s) i"
  shows "\<exists>k. draw_below K limit s = Some (nth_draw K (kern s) n, s\<lparr>kern := k\<rparr>)"
  using assms
proof (induction n arbitrary: s)
  case 0
  then show ?case
    by (subst draw_below.simps) (auto simp: nth_draw_def ask_eq)
next
  case (Suc n)
  let ?s = "s\<lparr>kern := snd (k_random_u32 K (kern s))\<rparr>"
  have rejected: "limit \<le> fst (k_random_u32 K (kern s))"
    using Suc.prems(2) [of 0] by (simp add: nth_draw_def)
  have "\<exists>k. draw_below K limit ?s = Some (nth_draw K (kern ?s) n, ?s\<lparr>kern := k\<rparr>)"
    using Suc.prems by (intro Suc.IH) (auto simp: nth_draw_Suc [symmetric])
  with rejected show ?case
    by (subst draw_below.simps) (auto simp: ask_eq nth_draw_Suc)
qed

lemma draw_below_Some:
  assumes "draw_below K limit s = Some (r, s')"
  shows "r < limit \<and> (\<exists>k. s' = s\<lparr>kern := k\<rparr>)"
proof -
  have "fst p < limit \<and> (\<exists>k. snd p = s\<lparr>kern := k\<rparr>)" if "draw_below K limit s = Some p" for p
  proof (rule draw_below.raw_induct
      [where P = "\<lambda>K l s p. fst p < l \<and> (\<exists>k. snd p = s\<lparr>kern := k\<rparr>)", OF _ that])
    fix f K l s p
    assume IH: "\<And>K l s p. f K l s = Some p \<Longrightarrow> fst p < l \<and> (\<exists>k. snd p = s\<lparr>kern := k\<rparr>)"
      and "Option.bind (ask (k_random_u32 K) s)
             (\<lambda>p. if l \<le> fst p then f K l (snd p) else Some p) = Some p"
    then show "fst p < l \<and> (\<exists>k. snd p = s\<lparr>kern := k\<rparr>)"
      by (auto simp: ask_eq split: if_splits dest!: IH)
  qed
  from this [OF assms] show ?thesis by simp
qed

lemma weight_total_pos:
  assumes "0 < w" and "is_s32 w"
  shows "unat (weight_total w) = nat w + 1"
proof -
  have u: "unat (word_of_int w :: u32) = nat w"
    using assms by (simp add: unat_eq_nat_uint uint_word_of_int is_s32_def)
  moreover have "word_of_int w \<noteq> U32_MAX"
    using u assms by (auto simp: U32_MAX_def is_s32_def)
  moreover have "unat ((word_of_int w :: u32) + 1) = nat w + 1"
    using u assms by (simp add: unat_word_ariths is_s32_def)
  ultimately show ?thesis by (simp add: weight_total_def)
qed

lemma draw_limit_unat:
  "unat (draw_limit t) = unat U32_MAX - unat U32_MAX mod unat t"
proof -
  have "U32_MAX mod t \<le> U32_MAX"
    by (simp add: word_le_nat_alt unat_mod_distrib)
  then show ?thesis by (simp add: draw_limit_def unat_sub unat_mod_distrib)
qed

lemma draw_limit_multiple: "unat (draw_limit t) = unat t * (unat U32_MAX div unat t)"
  by (simp add: draw_limit_unat minus_mod_eq_mult_div)

lemma draw_is_reg_unat: "draw_is_reg t r \<longleftrightarrow> unat r mod unat t = 0"
proof -
  have "draw_is_reg t r \<longleftrightarrow> unat (r mod t) < 1"
    by (simp add: draw_is_reg_def word_less_nat_alt)
  then show ?thesis by (simp add: unat_mod_distrib)
qed

text \<open>C35: among the accepted draws of \<open>choose_register_target\<close>, exactly one in
  \<open>1 + weight_mem\<close> selects a register, the probability the configuration promises.\<close>

theorem choose_register_share:
  assumes "0 < w" and "is_s32 w"
  shows "(1 + nat w) * card {r. r < draw_limit (weight_total w) \<and> draw_is_reg (weight_total w) r} =
    card {r. r < draw_limit (weight_total w)}"
proof -
  let ?t = "weight_total w"
  let ?q = "unat U32_MAX div unat ?t"
  have t: "unat ?t = 1 + nat w" using weight_total_pos assms by simp
  have "card {r. r < draw_limit ?t \<and> draw_is_reg ?t r} = card {n. n < unat ?t * ?q \<and> n mod unat ?t = 0}"
    unfolding draw_is_reg_unat draw_limit_multiple [symmetric] by (rule card_words_below)
  also have "\<dots> = ?q" using t by (intro card_multiples_below) simp
  finally have regs: "card {r. r < draw_limit ?t \<and> draw_is_reg ?t r} = ?q" .
  have "card {r. r < draw_limit ?t} = card {n. n < unat (draw_limit ?t)}"
    using card_words_below [of "draw_limit ?t" "\<lambda>_. True"] by simp
  also have "\<dots> = unat ?t * ?q" by (simp add: draw_limit_multiple)
  finally show ?thesis using regs t by simp
qed

theorem choose_register_share_witness:
  "20 * card {r. r < draw_limit (weight_total 19) \<and> draw_is_reg (weight_total 19) r} =
    card {r. r < draw_limit (weight_total 19)}"
  using choose_register_share [of 19] by (simp add: is_s32_def)

lemma weight_total_neq_0: "weight_total w \<noteq> 0"
proof
  assume "weight_total w = 0"
  then have "(word_of_int w :: u32) \<noteq> U32_MAX" and "(word_of_int w :: u32) + 1 = 0"
    by (auto simp: weight_total_def Let_def U32_MAX_def split: if_splits)
  then show False by (auto simp: U32_MAX_def add_eq_0_iff2)
qed

lemma half_left: "m = 2 ^ 32 - 1 \<Longrightarrow> m = a + b \<Longrightarrow> b < a \<Longrightarrow> 2 ^ 31 \<le> m - (b :: nat)"
  by simp

lemma draw_limit_half: "2 ^ 31 \<le> unat (draw_limit (weight_total w))"
proof -
  let ?t = "unat (weight_total w)" and ?m = "unat U32_MAX"
  have m: "?m = 2 ^ 32 - 1" by (simp add: U32_MAX_def)
  have pos: "0 < ?t" using weight_total_neq_0 by (simp add: unat_gt_0)
  have "?t < 2 ^ 32" using unsigned_less [of "weight_total w"] by simp
  then have q: "1 \<le> ?m div ?t" using pos m by (simp add: div_greater_zero_iff Suc_le_eq)
  have "?m mod ?t < ?t" using pos by simp
  also have "?t \<le> ?t * (?m div ?t)" using q by simp
  finally have "?m mod ?t < ?t * (?m div ?t)" .
  moreover have "?m = ?t * (?m div ?t) + ?m mod ?t" by simp
  ultimately have "2 ^ 31 \<le> ?m - ?m mod ?t" using m by (intro half_left)
  then show ?thesis by (simp only: draw_limit_unat)
qed

lemma draw_below_wlpI:
  "(\<And>r k. r < limit \<Longrightarrow> Q (r, s\<lparr>kern := k\<rparr>)) \<Longrightarrow> wlp (draw_below K limit s) Q"
  using draw_below_Some by (fastforce simp: wlp_def)

lemma choose_wlpI:
  "(\<And>b k. Q (b, s\<lparr>kern := k\<rparr>)) \<Longrightarrow> wlp (choose_register_target K w om s) Q"
  unfolding choose_register_target_def
  by (auto simp: Let_def intro!: draw_below_wlpI) (metis st.surjective st.update_convs(1))+

text \<open>The rejection loop of \<open>choose_register_target\<close> ends at the first draw below the
  limit, and at least half of the 32-bit range is below it; the verdict depends on that
  draw alone, and neither the context nor the log changes.\<close>

theorem choose_register_returns:
  assumes "om = 0" and "weight_total w \<noteq> 1"
    and "nth_draw K (kern s) n < draw_limit (weight_total w)"
    and "\<And>i. i < n \<Longrightarrow> draw_limit (weight_total w) \<le> nth_draw K (kern s) i"
  shows "(\<exists>k. choose_register_target K w om s =
      Some (draw_is_reg (weight_total w) (nth_draw K (kern s) n), s\<lparr>kern := k\<rparr>)) \<and>
    2 ^ 31 \<le> unat (draw_limit (weight_total w))"
  using draw_below_first [OF assms(3,4)] assms(1,2) draw_limit_half [of w]
  by (auto simp: choose_register_target_def Let_def)

theorem choose_register_returns_witness:
  "\<exists>k. choose_register_target demo 3 0 demo_st =
     Some (draw_is_reg (weight_total 3) 5, demo_st\<lparr>kern := k\<rparr>)"
proof -
  have "nth_draw demo (kern demo_st) 0 = 5" by (simp add: nth_draw_def demo_def)
  then show ?thesis
    using choose_register_returns [of 0 3 demo demo_st 0]
    by (simp add: weight_total_def draw_limit_def U32_MAX_def)
qed

lemma weight_total_negative: "weight_total (- 1) = U32_MAX"
  by (simp add: weight_total_def U32_MAX_def)

lemma mod_U32_MAX: "r < U32_MAX \<Longrightarrow> r mod U32_MAX = r"
  by (simp add: word_unat_eq_iff unat_mod_distrib word_less_nat_alt)

text \<open>A negative weight is not treated as 0: the cast to \<open>u32\<close> makes it a large weight.
  The weight \<open>-1\<close> selects memory on every accepted draw but 0, where a weight of 0 always
  selects a register and draws nothing.\<close>

theorem choose_register_negative_weight:
  "choose_register_target K (- 1) 0 s =
     map_option (\<lambda>(r, s'). (r = 0, s')) (draw_below K U32_MAX s) \<and>
   choose_register_target K 0 0 s = Some (True, s)"
proof -
  have limit: "draw_limit U32_MAX = U32_MAX" by (simp add: draw_limit_def U32_MAX_def)
  have neq: "U32_MAX \<noteq> 1" by (simp add: U32_MAX_def)
  have "choose_register_target K (- 1) 0 s =
      map_option (\<lambda>(r, s'). (r = 0, s')) (draw_below K U32_MAX s)"
  proof (cases "draw_below K U32_MAX s")
    case None
    with neq show ?thesis
      by (simp add: choose_register_target_def weight_total_negative limit)
  next
    case (Some p)
    then have "fst p < U32_MAX" using draw_below_Some by (metis prod.collapse)
    with Some neq show ?thesis
      by (simp add: choose_register_target_def weight_total_negative limit draw_is_reg_def
          mod_U32_MAX split_def)
  qed
  moreover have "weight_total 0 = 1" by (simp add: weight_total_def U32_MAX_def)
  ultimately show ?thesis by (simp add: choose_register_target_def)
qed

section \<open>Properties of the pickers and the lookups\<close>

text \<open>A request for thread \<open>n\<close> (counted from 1) of a process whose thread list stands
  still gives exactly the \<open>n\<close>-th user thread in list order, skipping kernel threads and
  threads without an address space, and records \<open>n - 1\<close>; out of range it gives no thread and
  leaves the context alone.\<close>

theorem pick_by_index_exact:
  assumes "1 \<le> n" and "is_s32 n"
    and "\<And>k. fst (k_pid_task K tgid k) = Some g" and "\<And>k. fst (k_threads K g k) = ts"
    and "fij_pick_user_thread_by_index K tgid n s = Some (r, s')"
  shows "if nat n \<le> count_eligible ts
         then r = Some (t_task (filter eligible ts ! nat (n - 1))) \<and>
              thread_idx (ctx_result (ctx s')) = n - 1
         else r = None \<and> ctx s' = ctx s"
proof -
  have idx: "s32 (int (nat (n - 1))) = n - 1"
    using assms(1,2) by (simp add: s32_id is_s32_def)
  show ?thesis
    using assms(1,5) idx
    by (auto simp: fij_pick_user_thread_by_index_def fij_rcu_find_get_task_by_tgid_def
        Let_def ask_eq assms(3,4) pick_walk_0 split: if_splits)
qed

theorem pick_by_index_exact_witness:
  "\<exists>s'. fij_pick_user_thread_by_index demo 100 2 demo_st = Some (Some 3, s') \<and>
     thread_idx (ctx_result (ctx s')) = 1"
proof -
  obtain r s' where run: "fij_pick_user_thread_by_index demo 100 2 demo_st = Some (r, s')"
    using index_picker.pick_returns by (metis option.exhaust surj_pair)
  have "if nat 2 \<le> count_eligible demo_threads
        then r = Some (t_task (filter eligible demo_threads ! nat (2 - 1))) \<and>
             thread_idx (ctx_result (ctx s')) = 2 - 1
        else r = None \<and> ctx s' = ctx demo_st"
    by (rule pick_by_index_exact [OF _ _ _ _ run, where g = 1])
      (simp_all add: is_s32_def demo_def)
  then show ?thesis
    using run by (simp add: demo_threads_def count_eligible_def eligible_def)
qed

text \<open>Each successful pick leaves two task references more than before it: the one its
  caller releases, and one on the group leader that nobody releases, because
  \<open>fij_rcu_find_get_task_by_tgid\<close> already took the reference the picker takes again.\<close>

theorem pick_leaks_leader_reference:
  assumes "fij_pick_random_user_thread K tgid s = Some (Some t, s') \<or>
    fij_pick_user_thread_by_index K tgid n s = Some (Some t, s')"
  shows "net any_task_ref (klog s') = net any_task_ref (klog s) + 2"
  using assms random_picker.pick_post index_picker.pick_post
  by (fastforce simp: picker_post_def)

theorem pick_leaks_leader_reference_witness:
  "\<exists>s'. fij_pick_random_user_thread demo 100 demo_st = Some (Some 3, s') \<and>
     net any_task_ref (klog s') = net any_task_ref (klog demo_st) + 2"
proof -
  have "\<exists>s'. fij_pick_random_user_thread demo 100 demo_st = Some (Some 3, s')"
    by (simp add: fij_pick_random_user_thread_def fij_rcu_find_get_task_by_tgid_def Let_def
        ask_eq demo_def demo_threads_def count_eligible_def eligible_def
        flip: numeral_2_eq_2)
  then show ?thesis using pick_leaks_leader_reference by blast
qed

text \<open>Resuming a process returns \<open>-ESRCH\<close> when its pid is gone and 0 otherwise, gives
  back the pid reference it takes, and does not come back exactly when the pid exists but no
  longer has a task, because the NULL from \<open>pid_task\<close> goes to \<open>send_sig\<close> unchecked.\<close>

theorem send_cont_outcomes:
  "case fst (k_find_get_pid K tgid (kern s)) of
     None \<Rightarrow> \<exists>s'. fij_send_cont K tgid s = Some (- ESRCH, s') \<and> klog s' = klog s
   | Some p \<Rightarrow>
      (case fst (k_pidref_task K p (k_effect K (GetPid p) (snd (k_find_get_pid K tgid (kern s))))) of
         None \<Rightarrow> fij_send_cont K tgid s = None
       | Some t \<Rightarrow> \<exists>r s'. fij_send_cont K tgid s = Some (0, s') \<and> ctx s' = ctx s \<and>
           klog s' = klog s @ [GetPid p, SendSig SIGCONT t r, PutPid p])"
  by (auto simp: fij_send_cont_def send_sig_def ask_eq Let_def tell_def noted_def
      split: option.splits)

text \<open>A random register id lies between 1 and \<open>FIJ_REG_MAX - 1\<close>, so it is never
  \<open>FIJ_REG_NONE\<close> and always an enumerator of the architecture, and every enumerator is the
  answer to some draw; a random bit number fits a 64-bit register.\<close>

theorem random_reg_and_bit_in_range:
  assumes "A \<noteq> CONFIG_NONE"
  shows "(\<exists>i s'. fij_pick_random_reg_any A K s = Some (i, s') \<and> 1 \<le> i \<and> i < reg_max A) \<and>
    (1 \<le> j \<and> j < reg_max A \<longrightarrow>
       fij_pick_random_reg_any A (K\<lparr>k_random_u32 := \<lambda>k. (word_of_int (j - 1), k)\<rparr>) s =
         Some (j, s)) \<and>
    (\<exists>b s'. fij_pick_random_bit64 K s = Some (b, s') \<and> 0 \<le> b \<and> b \<le> 63)"
proof (intro conjI impI)
  have range: "0 < reg_max A - 1" "reg_max A - 1 \<le> 33"
    using assms by (cases A; simp add: reg_max_def)+
  let ?r = "uint (fst (k_random_u32 K (kern s)))"
  have "0 \<le> ?r mod (reg_max A - 1)" "?r mod (reg_max A - 1) < reg_max A - 1"
    using range by simp_all
  with range show "\<exists>i s'. fij_pick_random_reg_any A K s = Some (i, s') \<and> 1 \<le> i \<and> i < reg_max A"
    by (simp add: fij_pick_random_reg_any_def ask_eq Let_def)
  assume j: "1 \<le> j \<and> j < reg_max A"
  then have "uint (word_of_int (j - 1) :: u32) = j - 1"
    using range by (subst uint_word_of_int) simp
  with j range show "fij_pick_random_reg_any A (K\<lparr>k_random_u32 := \<lambda>k. (word_of_int (j - 1), k)\<rparr>) s =
      Some (j, s)"
    by (simp add: fij_pick_random_reg_any_def ask_eq Let_def)
next
  have "fst (k_random_u32 K (kern s)) AND 63 \<le> (63 :: u32)" by (rule word_and_le1)
  then have "uint (fst (k_random_u32 K (kern s)) AND 63) \<le> 63"
    by (simp add: word_le_def)
  then show "\<exists>b s'. fij_pick_random_bit64 K s = Some (b, s') \<and> 0 \<le> b \<and> b \<le> 63"
    by (simp add: fij_pick_random_bit64_def ask_eq)
qed

theorem random_reg_and_bit_in_range_witness:
  "fij_pick_random_reg_any CONFIG_X86 (demo\<lparr>k_random_u32 := \<lambda>k. (word_of_int (17 - 1), k)\<rparr>)
     demo_st = Some (17, demo_st)"
  using random_reg_and_bit_in_range [of CONFIG_X86 demo demo_st 17]
  by (simp add: reg_max_def)

lemma va_hit:
  assumes "k_vmas K m k = (vs, k1)" and "k_exe_file K m k1 = (exe, k2)"
    and "find (vma_maps_exe exe va) vs = Some v" and "k_igrab_file K (the (vm_file v)) k2 = (i, k3)"
  shows "\<exists>m k1 k2 k3 v'.
     find (vma_maps_exe (fst (k_exe_file K m k2)) va) (fst (k_vmas K m k1)) = Some v' \<and>
     vma_file_off K va v = vma_file_off K va v' \<and> i = fst (k_igrab_file K (the (vm_file v')) k3)"
  using assms by (metis fst_conv)

text \<open>Translating an address of the executable. A success means that the first area of
  the target that maps the executable at the address was found: the offset is that area's
  file offset plus the distance to its start, and the inode is the one \<open>igrab\<close> gave for its
  file. A failure leaves both results untouched. The address space and its lock are released
  either way.\<close>

theorem va_to_file_off_correct:
  assumes "fij_va_to_file_off K t va oi oo s = Some ((ret, oi', oo'), s')"
  shows "same_refs s s' \<and> ctx s' = ctx s \<and>
    (if ret = 0
     then \<exists>m k1 k2 k3 v.
            find (vma_maps_exe (fst (k_exe_file K m k2)) va) (fst (k_vmas K m k1)) = Some v \<and>
            oo' = vma_file_off K va v \<and> oi' = fst (k_igrab_file K (the (vm_file v)) k3)
     else oi' = oi \<and> oo' = oo \<and> ret \<in> {- ESRCH, - ENOENT})"
proof -
  have "wlp (fij_va_to_file_off K t va oi oo s) (\<lambda>((ret, oi', oo'), s').
     same_refs s s' \<and> ctx s' = ctx s \<and>
    (if ret = 0
     then \<exists>m k1 k2 k3 v.
            find (vma_maps_exe (fst (k_exe_file K m k2)) va) (fst (k_vmas K m k1)) = Some v \<and>
            oo' = vma_file_off K va v \<and> oi' = fst (k_igrab_file K (the (vm_file v)) k3)
     else oi' = oi \<and> oo' = oo \<and> ret \<in> {- ESRCH, - ENOENT}))"
    unfolding fij_va_to_file_off_def
    by (auto simp: Let_def same_refs_def ref_defs intro!: ask_wlpI intro: va_hit
        split: option.splits)
  with assms show ?thesis by (auto dest: wlpD)
qed

theorem va_to_file_off_correct_witness:
  "\<exists>s'. fij_va_to_file_off demo 1 0x1004 None 0 demo_st = Some ((0, Some 11, 0x2004), s') \<and>
     same_refs demo_st s'"
proof -
  have "\<exists>s'. fij_va_to_file_off demo 1 0x1004 None 0 demo_st = Some ((0, Some 11, 0x2004), s')"
    by (simp add: fij_va_to_file_off_def ask_eq Let_def demo_def demo_vmas_def
        vma_maps_exe_def vma_file_off_def)
  then show ?thesis using va_to_file_off_correct by blast
qed

lemma sum_above_min: "0 \<le> a \<Longrightarrow> 0 \<le> d \<Longrightarrow> - (2 ^ 63) \<le> a + (d :: int)"
  by simp

text \<open>Where the file offset does not overflow a \<open>loff_t\<close>, the translated offset lies in
  the part of the file the area maps.\<close>

theorem va_to_file_off_in_area:
  assumes "vma_maps_exe exe va v"
    and "uint (vm_pgoff v) * 2 ^ k_page_shift K + uint (vm_end v) - uint (vm_start v) < 2 ^ 63"
  shows "uint (vm_pgoff v) * 2 ^ k_page_shift K \<le> vma_file_off K va v \<and>
    vma_file_off K va v < uint (vm_pgoff v) * 2 ^ k_page_shift K + uint (vm_end v) - uint (vm_start v)"
proof -
  let ?n = "k_page_shift K" and ?d = "uint va - uint (vm_start v)"
  have va: "uint (vm_start v) \<le> uint va" "uint va < uint (vm_end v)"
    using assms(1) by (simp_all add: vma_maps_exe_def word_le_def word_less_def)
  have base: "0 \<le> uint (vm_pgoff v) * 2 ^ ?n" by simp
  have small: "uint (vm_pgoff v) * 2 ^ ?n + ?d < 2 ^ 63" using assms(2) va by linarith
  have ge: "- (2 ^ 63) \<le> uint (vm_pgoff v) * 2 ^ ?n + ?d"
    using base va by (intro sum_above_min) simp_all
  have lt: "uint va < 2 ^ 64" using uint_lt2p [of va] by simp
  have "0 \<le> ?d" and "?d < 2 ^ 64"
    using va(1) lt uint_ge_0 [of "vm_start v"] by linarith+
  then have d: "uint (va - vm_start v) = ?d" by (simp add: uint_word_ariths(2))
  have p: "uint (push_bit ?n (vm_pgoff v)) = uint (vm_pgoff v) * 2 ^ ?n"
    by (subst unsigned_push_bit_eq, subst push_bit_eq_mult, rule take_bit_int_eq_self)
      (use small base va in auto)
  have sum: "uint ((va - vm_start v) + push_bit ?n (vm_pgoff v)) = uint (vm_pgoff v) * 2 ^ ?n + ?d"
    using small base va by (simp add: uint_word_ariths(1) d p)
  have "vma_file_off K va v = uint (vm_pgoff v) * 2 ^ ?n + ?d"
    unfolding vma_file_off_def sint_uint sum
    by (rule signed_take_bit_int_eq_self) (use small ge in simp_all)
  with va show ?thesis by linarith
qed

theorem va_to_file_off_in_area_witness:
  "0x2000 \<le> vma_file_off (demo :: unit kernel) 0x1004 (hd demo_vmas) \<and>
   vma_file_off (demo :: unit kernel) 0x1004 (hd demo_vmas) < 0x4000"
  using va_to_file_off_in_area [of "Some 9" "0x1004" "hd demo_vmas" "demo :: unit kernel"]
  by (simp add: vma_maps_exe_def demo_vmas_def demo_def)

end
