(* ===== verification/Fij_Processes.thy ===== *)
theory Fij_Processes
  imports Fij_Util
begin

text \<open>
  \<open>core/processes.c\<close>: the table of the processes an injection may hit, the target and its
  live descendants in pre-order. The code walks the tree of \<open>children\<close> lists twice, first
  to size the table and then to fill it; between the walks the tree may change. The filling
  walk writes through a pointer into the table with a bound \<open>max\<close>, modelled as writes at
  an offset of a list: a write past the end of the list is \<open>None\<close>.

  The abstract specification is \<open>live_preorder\<close>, the list the walk enumerates; the walk is
  proved to write exactly its first \<open>max\<close> entries. The locale \<open>bounded_collector\<close> is the
  interface the injection code relies on: a filled table that fits its capacity, root first.
\<close>

section \<open>Specification\<close>

definition skipped :: "proc \<Rightarrow> bool" where
  "skipped p \<longleftrightarrow> p_kthread p \<or> p_exited p"

fun live_preorder :: "proc list \<Rightarrow> pid_t list" where
  "live_preorder [] = []"
| "live_preorder (Proc i kt ex cs # ps) =
     (if kt \<or> ex then [] else i # live_preorder cs) @ live_preorder ps"

section \<open>The code\<close>

text \<open>The \<open>list_for_each_entry_rcu\<close> loop over the children, with the counter \<open>n\<close>.\<close>

fun count_children :: "proc list \<Rightarrow> nat \<Rightarrow> nat" where
  "count_children [] n = n"
| "count_children (Proc i kt ex cs # ps) n =
     (if kt then count_children ps n
      else if ex then count_children ps n
      else let n = n + 1;
               n = n + count_children cs 0
           in count_children ps n)"

definition fij_count_descendants_rcu :: "proc \<Rightarrow> nat" where
  "fij_count_descendants_rcu parent = count_children (p_children parent) 0"

text \<open>\<open>out[n++] = tgid\<close> for \<open>out = buf + off\<close>.\<close>

definition put_pid_at :: "pid_t list \<Rightarrow> nat \<Rightarrow> pid_t \<Rightarrow> pid_t list option" where
  "put_pid_at buf i p = (if i < length buf then Some (buf[i := p]) else None)"

function collect_children ::
  "proc list \<Rightarrow> pid_t list \<Rightarrow> nat \<Rightarrow> nat \<Rightarrow> nat \<Rightarrow> (pid_t list \<times> nat) option" where
  "collect_children [] buf off mx n = Some (buf, n)"
| "collect_children (Proc i kt ex cs # ps) buf off mx n =
     (if kt then collect_children ps buf off mx n
      else if ex then collect_children ps buf off mx n
      else if n < mx then do {
        buf \<leftarrow> put_pid_at buf (off + n) i;
        let n = n + 1;
        if n < mx then do {
          (buf, m) \<leftarrow> collect_children cs buf (off + n) (mx - n) 0;
          collect_children ps buf off mx (n + m)
        }
        else collect_children ps buf off mx n
      }
      else Some (buf, n))"
  by pat_completeness auto
termination
  by (relation "measure (\<lambda>(ps, _). size_list size ps)") auto

definition fij_collect_descendants_preorder_rcu ::
  "proc \<Rightarrow> pid_t list \<Rightarrow> nat \<Rightarrow> nat \<Rightarrow> (pid_t list \<times> nat) option" where
  "fij_collect_descendants_preorder_rcu parent buf off mx =
     collect_children (p_children parent) buf off mx 0"

text \<open>The block that grows the table: \<open>False\<close> when the allocation failed. The contents of
  fresh memory are arbitrary.\<close>

definition ensure_capacity ::
  "'k kernel \<Rightarrow> task \<Rightarrow> nat \<Rightarrow> 'k st \<Rightarrow> (bool \<times> 'k st) option" where
  "ensure_capacity K root tot s =
     (if capacity (ctx s) < tot then do {
        (buf, s) \<leftarrow> ask (k_kmalloc_array K tot) s;
        case buf of
          None \<Rightarrow> Some (False, tell K (PutTask root) s)
        | Some f \<Rightarrow> do {
            let s = tell K Kfree (tell K (Kmalloc tot) s);
            let s = upd (\<lambda>c. c\<lparr>targets := map f [0..<tot], capacity := tot\<rparr>) s;
            Some (True, s)
          }
      } else Some (True, s))"

definition fij_collect_descendants ::
  "'k kernel \<Rightarrow> pid_t \<Rightarrow> 'k st \<Rightarrow> (int \<times> 'k st) option" where
  "fij_collect_descendants K root_tgid s = do {
     let s = tell K RcuLock s;
     (root, s) \<leftarrow> ask (k_pid_task K root_tgid) s;
     let s = (case root of None \<Rightarrow> s | Some r \<Rightarrow> tell K (GetTask r) s);
     let s = tell K RcuUnlock s;
     case root of
       None \<Rightarrow> Some (- ESRCH, s)
     | Some root \<Rightarrow> do {
         let s = tell K RcuLock s;
         (tree1, s) \<leftarrow> ask (k_proc_tree K root) s;
         let count = fij_count_descendants_rcu tree1;
         let s = tell K RcuUnlock s;
         let tot = count + 1;
         (ok, s) \<leftarrow> ensure_capacity K root tot s;
         if \<not> ok then Some (- ENOMEM, s)
         else do {
           let s = tell K RcuLock s;
           (tg, s) \<leftarrow> ask (k_task_tgid K root) s;
           buf \<leftarrow> put_pid_at (targets (ctx s)) 0 tg;
           (tree2, s) \<leftarrow> ask (k_proc_tree K root) s;
           (buf, m) \<leftarrow> fij_collect_descendants_preorder_rcu tree2 buf 1 (capacity (ctx s) - 1);
           let s = upd (\<lambda>c. c\<lparr>targets := buf\<rparr>) s;
           let s = tell K RcuUnlock s;
           let s = tell K (PutTask root) s;
           Some (0, upd (\<lambda>c. c\<lparr>ntargets := 1 + m\<rparr>) s)
         }
       }
   }"

section \<open>The walk meets its specification\<close>

lemma count_children_eq: "count_children ps n = n + length (live_preorder ps)"
proof (induction ps arbitrary: n rule: live_preorder.induct)
  case 1
  then show ?case by simp
next
  case (2 i kt ex cs ps)
  then show ?case by (cases kt; cases ex) (simp_all add: Let_def)
qed

text \<open>The table after the walk: what was in it, with \<open>xs\<close> written from \<open>i\<close> on.\<close>

definition overwrite :: "pid_t list \<Rightarrow> nat \<Rightarrow> pid_t list \<Rightarrow> pid_t list" where
  "overwrite buf i xs = take i buf @ xs @ drop (i + length xs) buf"

lemma length_overwrite: "i + length xs \<le> length buf \<Longrightarrow> length (overwrite buf i xs) = length buf"
  by (simp add: overwrite_def)

lemma overwrite_Nil [simp]: "overwrite buf i [] = buf"
  by (simp add: overwrite_def)

lemma overwrite_Cons:
  "i < length buf \<Longrightarrow> overwrite buf i (x # xs) = overwrite (buf[i := x]) (Suc i) xs"
  by (simp add: overwrite_def take_Suc_conv_app_nth drop_update_cancel)

lemma overwrite_append:
  "i + length xs \<le> length buf \<Longrightarrow>
     overwrite (overwrite buf i xs) (i + length xs) ys = overwrite buf i (xs @ ys)"
  by (simp add: overwrite_def ac_simps)

lemma collect_children_eq:
  assumes "off + mx \<le> length buf" and "n \<le> mx"
  shows "collect_children ps buf off mx n =
    (let xs = take (mx - n) (live_preorder ps)
     in Some (overwrite buf (off + n) xs, n + length xs))"
  using assms
proof (induction ps buf off mx n rule: collect_children.induct)
  case (1 buf off mx n)
  then show ?case by simp
next
  case (2 i kt ex cs ps buf off mx n)
  show ?case
  proof (cases "kt \<or> ex \<or> mx \<le> n")
    case True
    with "2.IH" "2.prems" show ?thesis by auto
  next
    case False
    let ?buf = "buf[off + n := i]" and ?n = "n + 1"
    let ?xs = "take (mx - ?n) (live_preorder cs)"
    let ?n2 = "?n + length ?xs"
    let ?buf2 = "overwrite ?buf (off + ?n) ?xs"
    have put: "put_pid_at buf (off + n) i = Some ?buf"
      using False "2.prems" by (simp add: put_pid_at_def)
    have inner: "collect_children cs ?buf (off + ?n) (mx - ?n) 0 = Some (?buf2, length ?xs)"
      if "?n < mx"
      using "2.IH"(3) [OF _ _ _ put refl that] False "2.prems" by (simp add: Let_def)
    have outer: "collect_children ps ?buf2 off mx ?n2 =
        (let ys = take (mx - ?n2) (live_preorder ps)
         in Some (overwrite ?buf2 (off + ?n2) ys, ?n2 + length ys))"
      if "?n < mx"
      using "2.IH"(4) [OF _ _ _ put refl that inner [OF that]] False "2.prems" that
      by (simp add: length_overwrite)
    let ?ys = "take (mx - ?n2) (live_preorder ps)"
    have "mx - n = Suc (mx - ?n)" using False by arith
    then have whole: "take (mx - n) (live_preorder (Proc i kt ex cs # ps)) = i # ?xs @ ?ys"
      using False by (simp add: min_def)
    have fits: "off + n < length buf" "off + ?n + length ?xs \<le> length ?buf"
      using False "2.prems" by (auto simp: min_def)
    have "overwrite buf (off + n) (i # ?xs @ ?ys) = overwrite ?buf (off + ?n) (?xs @ ?ys)"
      using overwrite_Cons [OF fits(1)] by simp
    also have "\<dots> = overwrite ?buf2 (off + ?n2) ?ys"
      using overwrite_append [OF fits(2)] by (simp only: add.assoc)
    finally have written:
      "overwrite ?buf2 (off + ?n2) ?ys = overwrite buf (off + n) (i # ?xs @ ?ys)" ..
    show ?thesis
    proof (cases "?n < mx")
      case True
      then have step: "collect_children (Proc i kt ex cs # ps) buf off mx n =
          collect_children ps ?buf2 off mx ?n2"
        using False put inner by simp
      show ?thesis
        by (simp only: step outer [OF True] whole Let_def written) simp
    next
      case full: False
      then have step: "collect_children (Proc i kt ex cs # ps) buf off mx n =
          collect_children ps ?buf off mx ?n"
        using False put by simp
      have stop: "collect_children ps ?buf off mx ?n = Some (?buf, ?n)"
        using "2.IH"(5) [OF _ _ _ put refl full] False "2.prems" full by simp
      have z: "mx - Suc n = 0" "\<And>k. mx - Suc (n + k) = 0" using full by simp_all
      show ?thesis
        by (simp only: step stop whole Let_def written [symmetric]) (simp add: z)
    qed
  qed
qed

lemma collect_preorder_eq:
  assumes "off + mx \<le> length buf"
  shows "fij_collect_descendants_preorder_rcu p buf off mx =
    (let xs = take mx (live_preorder (p_children p)) in Some (overwrite buf off xs, length xs))"
  using collect_children_eq [OF assms, of 0 "p_children p"]
  by (simp add: fij_collect_descendants_preorder_rcu_def Let_def)

lemma count_descendants_eq:
  "fij_count_descendants_rcu p = length (live_preorder (p_children p))"
  by (simp add: fij_count_descendants_rcu_def count_children_eq)

section \<open>The table in the context\<close>

definition targets_wf :: "fij_ctx \<Rightarrow> bool" where
  "targets_wf c \<longleftrightarrow> length (targets c) = capacity c \<and> ntargets c \<le> capacity c"

definition target_table :: "fij_ctx \<Rightarrow> pid_t list" where
  "target_table c = take (ntargets c) (targets c)"

definition same_but_targets :: "fij_ctx \<Rightarrow> fij_ctx \<Rightarrow> bool" where
  "same_but_targets c c' \<longleftrightarrow>
     c'\<lparr>targets := [], ntargets := 0, capacity := 0\<rparr> = c\<lparr>targets := [], ntargets := 0, capacity := 0\<rparr>"

text \<open>The table a call fills: the root and its descendants, cut at the capacity, where the
  capacity is enough for the tree of the first walk (\<open>k1\<close>), if not for that of the second
  (\<open>k2\<close>).\<close>

definition collected_table :: "'k kernel \<Rightarrow> pid_t \<Rightarrow> nat \<Rightarrow> pid_t list \<Rightarrow> bool" where
  "collected_table K tgid cap tbl \<longleftrightarrow> (\<exists>root k0 k k1 k2.
     fst (k_pid_task K tgid k0) = Some root \<and>
     length (live_preorder (p_children (fst (k_proc_tree K root k1)))) < cap \<and>
     tbl = take cap (fst (k_task_tgid K root k) #
             live_preorder (p_children (fst (k_proc_tree K root k2)))))"

definition collected :: "'k kernel \<Rightarrow> pid_t \<Rightarrow> 'k st \<Rightarrow> int \<Rightarrow> 'k st \<Rightarrow> bool" where
  "collected K tgid s ret s' \<longleftrightarrow>
     targets_wf (ctx s') \<and> same_refs s s' \<and> log_ext quiet_ev s s' \<and>
     same_but_targets (ctx s) (ctx s') \<and>
     (if ret = 0 then collected_table K tgid (capacity (ctx s')) (target_table (ctx s'))
      else (ret = - ESRCH \<or> ret = - ENOMEM) \<and> ctx s' = ctx s)"

lemma filled_table:
  assumes "xs = take (cap - 1) ys" and "0 < cap" and "length buf = cap"
  shows "take (Suc (length xs)) (overwrite (buf[0 := x]) 1 xs) = take cap (x # ys)"
    and "length (overwrite (buf[0 := x]) 1 xs) = cap"
    and "Suc (length xs) \<le> cap"
proof -
  obtain b bs where buf: "buf = b # bs" using assms by (cases buf) auto
  obtain c where cap: "cap = Suc c" using assms by (cases cap) auto
  have xs: "xs = take c ys" using assms(1) cap by simp
  show "take (Suc (length xs)) (overwrite (buf[0 := x]) 1 xs) = take cap (x # ys)"
    by (simp add: buf cap overwrite_def) (rule xs)
  show "length (overwrite (buf[0 := x]) 1 xs) = cap" "Suc (length xs) \<le> cap"
    using assms by (simp_all add: buf cap overwrite_def)
qed

lemma collect_success:
  assumes "k_pid_task K tgid k0 = (Some root, k0')" and "k_proc_tree K root k1 = (t1, k1')" and "k_task_tgid K root k = (tg, k')"
    and "k_proc_tree K root k2 = (t2, k2')"
    and "fij_count_descendants_rcu t1 < cap" and "length buf = cap"
    and "\<And>buf' m. length buf' = cap \<Longrightarrow> Suc m \<le> cap \<Longrightarrow>
           collected_table K tgid cap (take (Suc m) buf') \<Longrightarrow> Q (buf', m)"
  shows "wp (fij_collect_descendants_preorder_rcu t2 (buf[0 := tg]) (Suc 0) (cap - Suc 0)) Q"
proof -
  let ?xs = "take (cap - 1) (live_preorder (p_children t2))"
  have run: "fij_collect_descendants_preorder_rcu t2 (buf[0 := tg]) 1 (cap - 1) =
      Some (overwrite (buf[0 := tg]) 1 ?xs, length ?xs)"
    using assms(5,6) by (subst collect_preorder_eq) (auto simp: Let_def)
  have "collected_table K tgid cap (take (Suc (length ?xs)) (overwrite (buf[0 := tg]) 1 ?xs))"
    unfolding collected_table_def
    using assms(1-6) filled_table(1) [OF refl _ assms(6)]
    by (intro exI [of _ root] exI [of _ k0] exI [of _ k] exI [of _ k1] exI [of _ k2])
      (simp add: count_descendants_eq)
  with filled_table(2,3) [OF refl _ assms(6)] assms(5)
  have "Q (overwrite (buf[0 := tg]) 1 ?xs, length ?xs)"
    by (intro assms(7)) simp_all
  with run show ?thesis by simp
qed

lemma ensure_capacity_wpI:
  assumes "targets_wf (ctx s)"
    and "\<And>s'. klog s' = klog s @ [PutTask root] \<Longrightarrow> ctx s' = ctx s \<Longrightarrow> Q (False, s')"
    and "\<And>s' es. klog s' = klog s @ es \<Longrightarrow> es \<in> {[], [Kmalloc tot, Kfree]} \<Longrightarrow>
           same_but_targets (ctx s) (ctx s') \<Longrightarrow> length (targets (ctx s')) = capacity (ctx s') \<Longrightarrow>
           tot \<le> capacity (ctx s') \<Longrightarrow> Q (True, s')"
  shows "wp (ensure_capacity K root tot s) Q"
  using assms(1)
  by (auto simp: ensure_capacity_def Let_def same_but_targets_def targets_wf_def
      intro!: ask_wpI assms(2) assms(3) split: option.splits)

lemma collect_descendants_wp:
  assumes "targets_wf (ctx s)"
  shows "wp (fij_collect_descendants K tgid s) (\<lambda>(ret, s'). collected K tgid s ret s')"
  unfolding fij_collect_descendants_def
  using assms
  by (auto simp: Let_def collected_def same_refs_def ref_defs log_ext_append put_pid_at_def
      same_but_targets_def target_table_def targets_wf_def
      intro!: ask_wpI ensure_capacity_wpI collect_success split: option.splits)

section \<open>The interface to the injection code\<close>

text \<open>A collector fills the table of the context without overrunning it, and leaves the rest
  of the context alone. An index below \<open>ntargets\<close> then names a process of the table.\<close>

locale bounded_collector =
  fixes collect :: "'k st \<Rightarrow> (int \<times> 'k st) option"
    and first_ok :: "pid_t list \<Rightarrow> bool"
  assumes fills: "targets_wf (ctx s) \<Longrightarrow> wp (collect s) (\<lambda>(ret, s').
      targets_wf (ctx s') \<and> same_refs s s' \<and> log_ext quiet_ev s s' \<and>
      same_but_targets (ctx s) (ctx s') \<and>
      (ret = 0 \<longrightarrow> target_table (ctx s') \<noteq> [] \<and> first_ok (target_table (ctx s'))))"
begin

lemma collect_returns: "targets_wf (ctx s) \<Longrightarrow> collect s \<noteq> None"
  using fills [of s] by (simp add: wp_iff_wlp)

lemma index_in_table:
  assumes "targets_wf (ctx s)" and "collect s = Some (0, s')" and "i < ntargets (ctx s')"
  shows "i < length (targets (ctx s')) \<and> targets (ctx s') ! i = target_table (ctx s') ! i"
  using fills [OF assms(1)] assms(2,3) by (auto simp: wp_def targets_wf_def target_table_def)

lemma some_target:
  assumes "targets_wf (ctx s)" and "collect s = Some (0, s')"
  shows "0 < ntargets (ctx s')"
  using fills [OF assms(1)] assms(2) by (auto simp: wp_def target_table_def)

end

lemma collected_table_nonempty: "collected_table K tgid cap tbl \<Longrightarrow> tbl \<noteq> []"
  by (auto simp: collected_table_def)

interpretation descendants:
  bounded_collector "fij_collect_descendants K tgid" "\<lambda>tbl. \<exists>cap. collected_table K tgid cap tbl" for K tgid
proof (unfold_locales, goal_cases)
  case (1 s)
  then have "wp (fij_collect_descendants K tgid s) (\<lambda>(ret, s'). collected K tgid s ret s')"
    by (rule collect_descendants_wp)
  then show ?case
    by (rule wp_mono) (auto simp: collected_def dest: collected_table_nonempty)
qed

section \<open>Properties\<close>

text \<open>C33: the pre-order walk writes exactly the first \<open>max\<close> live descendants, in pre-order,
  from the position it is given, leaves the rest of the buffer alone and reports how many it
  wrote; it never writes outside \<open>max\<close> entries.\<close>

theorem preorder_walk_exact:
  assumes "off + mx \<le> length buf"
  shows "fij_collect_descendants_preorder_rcu p buf off mx =
    Some (take off buf @ take mx (live_preorder (p_children p)) @
            drop (off + min mx (length (live_preorder (p_children p)))) buf,
          min mx (length (live_preorder (p_children p))))"
  using collect_preorder_eq [OF assms, of p] by (simp add: Let_def overwrite_def min.commute)

theorem preorder_walk_exact_witness:
  "fij_collect_descendants_preorder_rcu demo_tree [100, 0, 0, 0] 1 2 =
     Some ([100, 101, 102, 0], 2)"
proof -
  have "1 + 2 \<le> length [100, 0, 0, 0 :: pid_t]" by simp
  from preorder_walk_exact [OF this, of demo_tree] show ?thesis by (simp add: demo_tree_def)
qed

text \<open>The counting walk counts what the filling walk enumerates, so a table sized by the
  first and filled from an unchanged tree holds every live descendant.\<close>

theorem count_matches_preorder:
  "fij_count_descendants_rcu p = length (live_preorder (p_children p)) \<and>
   fij_collect_descendants_preorder_rcu p (replicate (fij_count_descendants_rcu p) 0) 0
     (fij_count_descendants_rcu p) =
     Some (live_preorder (p_children p), fij_count_descendants_rcu p)"
  using preorder_walk_exact [of 0 "fij_count_descendants_rcu p" "replicate (fij_count_descendants_rcu p) 0" p]
  by (simp add: count_descendants_eq)

lemma demo_targets_wf: "targets_wf (ctx demo_st)"
  by (simp add: demo_st_def targets_wf_def fij_ctx_init_def fij_uprobe_init_work_def
      zero_ctx_def Let_def)

text \<open>C21: collecting the targets always returns, whatever happens to the process tree in the
  meantime. It keeps the table inside its allocation, gives back the reference on the root,
  and either fills the table with the root and its live descendants in pre-order, cut at a
  capacity that was enough for the tree when it was counted, or fails with \<open>-ESRCH\<close> or
  \<open>-ENOMEM\<close> and leaves the context as it was.\<close>

theorem collect_descendants_correct:
  assumes "targets_wf (ctx s)"
  shows "\<exists>ret s'. fij_collect_descendants K tgid s = Some (ret, s') \<and>
    targets_wf (ctx s') \<and> same_refs s s' \<and> log_ext quiet_ev s s' \<and>
    same_but_targets (ctx s) (ctx s') \<and>
    (if ret = 0 then collected_table K tgid (capacity (ctx s')) (target_table (ctx s'))
     else (ret = - ESRCH \<or> ret = - ENOMEM) \<and> ctx s' = ctx s)"
  using collect_descendants_wp [OF assms, of K tgid] by (auto simp: wp_def collected_def)

theorem collect_descendants_correct_witness:
  "\<exists>ret s'. fij_collect_descendants demo 100 demo_st = Some (ret, s') \<and>
     targets_wf (ctx s') \<and> same_refs demo_st s'"
  using collect_descendants_correct [OF demo_targets_wf, of demo 100] by blast

text \<open>C22: when the process tree does not change between the two walks, no target is missed:
  the table is the root followed by all live descendants in pre-order.\<close>

theorem collect_descendants_complete:
  assumes "targets_wf (ctx s)" and "\<And>k. fst (k_pid_task K tgid k) = Some root"
    and "\<And>k. fst (k_proc_tree K root k) = tree"
    and "\<And>k. fst (k_task_tgid K root k) = p_tgid tree"
    and "fij_collect_descendants K tgid s = Some (0, s')"
  shows "target_table (ctx s') = p_tgid tree # live_preorder (p_children tree)"
proof -
  from collect_descendants_wp [OF assms(1), of K tgid] assms(5)
  have "collected_table K tgid (capacity (ctx s')) (target_table (ctx s'))"
    by (auto simp: wp_def collected_def)
  then show ?thesis
    by (auto simp: collected_table_def assms(2-4))
qed

theorem collect_descendants_complete_witness:
  "\<exists>s'. fij_collect_descendants demo 100 demo_st = Some (0, s') \<and>
     target_table (ctx s') = [100, 101, 102]"
proof -
  have run: "\<exists>s'. fij_collect_descendants demo 100 demo_st = Some (0, s')"
    by (simp add: fij_collect_descendants_def ensure_capacity_def ask_eq Let_def demo_def
        demo_tree_def demo_tree_of_def demo_st_def fij_ctx_init_def fij_uprobe_init_work_def
        zero_ctx_def fij_count_descendants_rcu_def put_pid_at_def
        fij_collect_descendants_preorder_rcu_def)
  then obtain s' where s': "fij_collect_descendants demo 100 demo_st = Some (0, s')" by blast
  have "target_table (ctx s') = p_tgid demo_tree # live_preorder (p_children demo_tree)"
    by (rule collect_descendants_complete [OF demo_targets_wf _ _ _ s', where root = 1])
      (simp_all add: demo_def demo_tree_of_def demo_tree_def)
  with s' show ?thesis by (simp add: demo_tree_def)
qed

end
