(* ===== verification/Fij_Wait.thy ===== *)
theory Fij_Wait
  imports Fij_Util
begin

text \<open>
  \<open>fij_wait_task_stopped\<close> of \<open>core/monitor.c\<close>: the loop with which an injection waits for
  the thread it stopped. Each pass reads the state of the thread afresh, so the loop is a
  \<open>partial_function\<close> whose \<open>None\<close> is "never returns"; \<open>wait_returns_by\<close> says when it does
  return.
\<close>

text \<open>\<open>time_after(a, b)\<close>, which survives the wrap of \<open>jiffies\<close>.\<close>

definition time_after :: "u64 \<Rightarrow> u64 \<Rightarrow> bool" where
  "time_after a b \<longleftrightarrow> sint (b - a) < 0"

text \<open>One pass of the \<open>while (true)\<close> body: the return code if it returns, with the sleep at
  its end if it does not.\<close>

definition wait_pass :: "'k kernel \<Rightarrow> task \<Rightarrow> u64 \<Rightarrow> 'k st \<Rightarrow> (int option \<times> 'k st) option" where
  "wait_pass K t deadline s = do {
     (stopped, s) \<leftarrow> ask (k_task_stopped K t) s;
     (dead, s) \<leftarrow> ask (k_task_dead K t) s;
     if stopped then Some (Some 0, s)
     else if dead then Some (Some (- ESRCH), s)
     else do {
       (stop, s) \<leftarrow> ask (k_should_stop K) s;
       if stop then Some (Some (- EINTR), s)
       else do {
         (fatal, s) \<leftarrow> ask (k_fatal_signal K) s;
         if fatal then Some (Some (- EINTR), s)
         else do {
           (now, s) \<leftarrow> ask (k_jiffies K) s;
           if time_after now deadline then Some (Some (- ETIMEDOUT), s)
           else Some (None, tell K SleepTick s)
         }
       }
     }
   }"

partial_function (option) wait_loop ::
  "'k kernel \<Rightarrow> task \<Rightarrow> u64 \<Rightarrow> 'k st \<Rightarrow> (int \<times> 'k st) option" where
  "wait_loop K t deadline s =
     Option.bind (wait_pass K t deadline s)
       (\<lambda>p. case fst p of
          Some c \<Rightarrow> Some (c, snd p)
        | None \<Rightarrow> wait_loop K t deadline (snd p))"

definition fij_wait_task_stopped ::
  "'k kernel \<Rightarrow> task \<Rightarrow> int \<Rightarrow> 'k st \<Rightarrow> (int \<times> 'k st) option" where
  "fij_wait_task_stopped K t timeout_jiffies s = do {
     (now, s) \<leftarrow> ask (k_jiffies K) s;
     wait_loop K t (now + word_of_int timeout_jiffies) s
   }"

declare wait_loop.simps [simp del]

section \<open>What a pass does\<close>

definition wait_code :: "int \<Rightarrow> bool" where
  "wait_code c \<longleftrightarrow> c = 0 \<or> c = - ESRCH \<or> c = - EINTR \<or> c = - ETIMEDOUT"

fun is_sleep :: "kev \<Rightarrow> bool" where
  "is_sleep SleepTick = True"
| "is_sleep _ = False"

lemma seen_stopped:
  "k_task_stopped K t k = (True, k') \<Longrightarrow> \<exists>k. fst (k_task_stopped K t k)"
  by (metis fst_conv)

lemma wait_pass_wp:
  "wp (wait_pass K t d s) (\<lambda>(r, s'). ctx s' = ctx s \<and>
     (case r of
        None \<Rightarrow> klog s' = klog s @ [SleepTick]
      | Some c \<Rightarrow> klog s' = klog s \<and> wait_code c \<and>
          (c = 0 \<longrightarrow> (\<exists>k. fst (k_task_stopped K t k)))))"
  unfolding wait_pass_def
  by (auto simp: wait_code_def intro!: ask_wpI intro: seen_stopped)

section \<open>The loop\<close>

definition waited :: "'k kernel \<Rightarrow> task \<Rightarrow> 'k st \<Rightarrow> int \<Rightarrow> 'k st \<Rightarrow> bool" where
  "waited K t s c s' \<longleftrightarrow> ctx s' = ctx s \<and> log_ext is_sleep s s' \<and> wait_code c \<and>
     (c = 0 \<longrightarrow> (\<exists>k. fst (k_task_stopped K t k)))"

lemma wait_loop_waited:
  assumes "wait_loop K t d s = Some (c, s')"
  shows "waited K t s c s'"
proof -
  have "waited K t s (fst p) (snd p)" if "wait_loop K t d s = Some p" for p
  proof (rule wait_loop.raw_induct
      [where P = "\<lambda>K t d s p. waited K t s (fst p) (snd p)", OF _ that])
    fix f K t d s p
    assume IH: "\<And>K t d s p. f K t d s = Some p \<Longrightarrow> waited K t s (fst p) (snd p)"
      and run: "Option.bind (wait_pass K t d s)
         (\<lambda>p. case fst p of Some c \<Rightarrow> Some (c, snd p) | None \<Rightarrow> f K t d (snd p)) = Some p"
    obtain r s1 where pass: "wait_pass K t d s = Some (r, s1)" and keeps: "ctx s1 = ctx s"
      and code: "case r of None \<Rightarrow> klog s1 = klog s @ [SleepTick]
        | Some c \<Rightarrow> klog s1 = klog s \<and> wait_code c \<and>
            (c = 0 \<longrightarrow> (\<exists>k. fst (k_task_stopped K t k)))"
      using wait_pass_wp [of K t d s] by (auto simp: wp_def)
    show "waited K t s (fst p) (snd p)"
    proof (cases r)
      case None
      with run pass have "waited K t s1 (fst p) (snd p)" by (auto intro: IH)
      moreover have "log_ext is_sleep s s1" using code None by (simp add: log_ext_append)
      ultimately show ?thesis using keeps by (auto simp: waited_def intro: log_ext_trans)
    next
      case (Some c)
      with run pass code keeps show ?thesis by (auto simp: waited_def)
    qed
  qed
  from this [OF assms] show ?thesis by simp
qed

lemma wait_loop_wlpI:
  "(\<And>c s'. waited K t s c s' \<Longrightarrow> Q (c, s')) \<Longrightarrow> wlp (wait_loop K t d s) Q"
  by (auto simp: wlp_def dest: wait_loop_waited)

lemma wait_waited:
  "wlp (fij_wait_task_stopped K t n s) (\<lambda>(c, s'). waited K t s c s')"
  unfolding fij_wait_task_stopped_def
  by (auto intro!: ask_wlpI wait_loop_wlpI simp: waited_def log_ext_def)

section \<open>The loop ends\<close>

text \<open>The law of the clock: \<open>jiffies\<close> is the count \<open>m\<close> of ticks since boot, kept in 64 bits;
  a call takes some ticks, fewer than \<open>2 ^ 58\<close>; a sleep of one tick takes at least one.\<close>

definition takes_ticks :: "('k \<Rightarrow> nat) \<Rightarrow> 'k \<Rightarrow> 'k \<Rightarrow> bool" where
  "takes_ticks m k k' \<longleftrightarrow> m k \<le> m k' \<and> m k' < m k + 2 ^ 58"

definition clock_law :: "'k kernel \<Rightarrow> ('k \<Rightarrow> nat) \<Rightarrow> bool" where
  "clock_law K m \<longleftrightarrow>
     (\<forall>k. fst (k_jiffies K k) = word_of_nat (m k) \<and> takes_ticks m k (snd (k_jiffies K k))) \<and>
     (\<forall>t k. takes_ticks m k (snd (k_task_stopped K t k))) \<and>
     (\<forall>t k. takes_ticks m k (snd (k_task_dead K t k))) \<and>
     (\<forall>k. takes_ticks m k (snd (k_should_stop K k))) \<and>
     (\<forall>k. takes_ticks m k (snd (k_fatal_signal K k))) \<and>
     (\<forall>k. takes_ticks m k (k_effect K SleepTick k) \<and> m k < m (k_effect K SleepTick k))"

lemma time_after_nat:
  assumes "d < c" and "c < d + 2 ^ 63"
  shows "time_after (word_of_nat c) (word_of_nat d)"
proof -
  have "(word_of_nat d - word_of_nat c :: u64) = word_of_int (int d - int c)" by simp
  moreover have "signed_take_bit 63 (int d - int c) = int d - int c"
    using assms by (intro signed_take_bit_int_eq_self) auto
  ultimately have "sint (word_of_nat d - word_of_nat c :: u64) = int d - int c"
    by (simp only: sint_sbintrunc') simp
  with assms(1) show ?thesis by (simp add: time_after_def)
qed

text \<open>One pass with a clock: it returns, or it read a clock not past the deadline and slept.\<close>

lemma wait_pass_clock:
  assumes law: "clock_law K m" and near: "m (kern s) \<le> d + 2 ^ 61"
  shows "\<exists>r s'. wait_pass K t (word_of_nat d) s = Some (r, s') \<and>
    (r = None \<longrightarrow> m (kern s) \<le> d \<and> m (kern s) < m (kern s') \<and> m (kern s') \<le> d + 2 ^ 61)"
proof -
  have step: "\<And>k k'. takes_ticks m k k' \<Longrightarrow> m k \<le> m k' \<and> m k' < m k + 2 ^ 58"
    by (simp add: takes_ticks_def)
  let ?k1 = "snd (k_task_stopped K t (kern s))"
  let ?k2 = "snd (k_task_dead K t ?k1)"
  let ?k3 = "snd (k_should_stop K ?k2)"
  let ?k4 = "snd (k_fatal_signal K ?k3)"
  let ?k5 = "snd (k_jiffies K ?k4)"
  let ?k6 = "k_effect K SleepTick ?k5"
  have ticks: "takes_ticks m (kern s) ?k1" "takes_ticks m ?k1 ?k2" "takes_ticks m ?k2 ?k3"
    "takes_ticks m ?k3 ?k4" "takes_ticks m ?k4 ?k5" "takes_ticks m ?k5 ?k6" "m ?k5 < m ?k6"
    and now: "fst (k_jiffies K ?k4) = word_of_nat (m ?k4)"
    using law by (simp_all add: clock_law_def)
  note bounds = ticks(1-6) [THEN step]
  have late: "time_after (word_of_nat (m ?k4)) (word_of_nat d)" if "d < m ?k4"
    using that near bounds by (intro time_after_nat) auto
  show ?thesis
  proof (cases "d < m ?k4")
    case True
    with late now show ?thesis by (auto simp: wait_pass_def ask_eq tell_def)
  next
    case False
    then have "m (kern s) \<le> d \<and> m (kern s) < m ?k6 \<and> m ?k6 \<le> d + 2 ^ 61"
      using bounds ticks(7) by auto
    then show ?thesis by (auto simp: wait_pass_def ask_eq tell_def)
  qed
qed

lemma wait_loop_ends:
  assumes "clock_law K m" and "m (kern s) \<le> d + 2 ^ 61"
  shows "wait_loop K t (word_of_nat d) s \<noteq> None"
  using assms(2)
proof (induction "d + 1 - m (kern s)" arbitrary: s rule: less_induct)
  case less
  obtain r s' where pass: "wait_pass K t (word_of_nat d) s = Some (r, s')"
    and slept: "r = None \<Longrightarrow>
      m (kern s) \<le> d \<and> m (kern s) < m (kern s') \<and> m (kern s') \<le> d + 2 ^ 61"
    using wait_pass_clock [OF assms(1) less.prems] by blast
  show ?case
  proof (cases r)
    case None
    with slept have "wait_loop K t (word_of_nat d) s' \<noteq> None"
      by (intro less.hyps) auto
    with pass None show ?thesis by (subst wait_loop.simps) simp
  next
    case (Some c)
    with pass show ?thesis by (subst wait_loop.simps) simp
  qed
qed

section \<open>Properties\<close>

text \<open>Waiting for a stopped thread never reports success without having seen the thread
  stopped; every other return is \<open>-ESRCH\<close>, \<open>-EINTR\<close> or \<open>-ETIMEDOUT\<close>. While it waits it only
  sleeps, and it changes nothing in the context.\<close>

theorem wait_task_stopped_sound:
  assumes "fij_wait_task_stopped K t n s = Some (c, s')"
  shows "(c = 0 \<or> c = - ESRCH \<or> c = - EINTR \<or> c = - ETIMEDOUT) \<and>
    (c = 0 \<longrightarrow> (\<exists>k. fst (k_task_stopped K t k))) \<and>
    ctx s' = ctx s \<and> log_ext is_sleep s s'"
  using wait_waited [of K t n s] assms by (auto simp: waited_def wait_code_def dest: wlpD)

theorem wait_task_stopped_sound_witness:
  "fij_wait_task_stopped demo 1 100 demo_st = Some (0, demo_st) \<and>
   (\<exists>k. fst (k_task_stopped (demo :: unit kernel) 1 k))"
proof -
  have run: "fij_wait_task_stopped demo 1 100 demo_st = Some (0, demo_st)"
    by (simp add: fij_wait_task_stopped_def ask_eq wait_loop.simps wait_pass_def demo_def)
  with wait_task_stopped_sound [OF run] show ?thesis by blast
qed

text \<open>C34: under the law of the clock the wait ends, whatever the thread does: a timeout of
  fewer than \<open>2 ^ 60\<close> ticks is never waited for in vain, also when \<open>jiffies\<close> wraps.\<close>

theorem wait_task_stopped_terminates:
  assumes "clock_law K m" and "0 \<le> n" and "n < 2 ^ 60"
  shows "\<exists>c s'. fij_wait_task_stopped K t n s = Some (c, s')"
proof -
  let ?k = "snd (k_jiffies K (kern s))"
  have now: "fst (k_jiffies K (kern s)) = word_of_nat (m (kern s))"
    and ticks: "m ?k < m (kern s) + 2 ^ 58"
    using assms(1) by (simp_all add: clock_law_def takes_ticks_def)
  have deadline: "(word_of_nat (m (kern s)) :: u64) + word_of_int n = word_of_nat (m (kern s) + nat n)"
    using assms(2) by simp
  have "wait_loop K t (word_of_nat (m (kern s) + nat n)) (s\<lparr>kern := ?k\<rparr>) \<noteq> None"
    using ticks by (intro wait_loop_ends [OF assms(1)]) simp
  then show ?thesis
    unfolding deadline [symmetric] by (auto simp: fij_wait_task_stopped_def ask_eq now)
qed

theorem wait_task_stopped_terminates_witness:
  "\<exists>c s'. fij_wait_task_stopped
     (demo\<lparr>k_effect := \<lambda>e k. k + 1, k_jiffies := \<lambda>k. (word_of_nat k, k),
           k_task_stopped := \<lambda>t k. (False, k)\<rparr>) 1 100
     \<lparr>kern = (0 :: nat), klog = [], ctx = zero_ctx, work = []\<rparr> = Some (c, s')"
  by (rule wait_task_stopped_terminates [where m = "\<lambda>k. k"])
    (simp_all add: clock_law_def takes_ticks_def demo_def)

end
