(* ===== verification/Fij_Flip.thy ===== *)
theory Fij_Flip
  imports Fij_Processes Fij_Wait
begin

text \<open>
  The primitives of \<open>core/bitflip_ops.c\<close>: stopping a thread group and flipping one bit of
  a saved register or of a byte of memory.

  The two flips meet one contract, the locale \<open>injector\<close>: a flip that reports success has
  written once, its result record holds the value before and after, and the two differ in
  exactly one bit; a flip that reports an error has written nothing and left the context alone.
  Both give back the references and locks they took and send no signal.
\<close>

section \<open>Stopping a group\<close>

definition fij_group_stop :: "'k kernel \<Rightarrow> pid_t \<Rightarrow> 'k st \<Rightarrow> (int \<times> 'k st) option" where
  "fij_group_stop K tgid s = do {
     let s = tell K RcuLock s;
     (t, s) \<leftarrow> ask (k_pid_task K tgid) s;
     (ret, s) \<leftarrow> (case t of
         None \<Rightarrow> Some (- ESRCH, s)
       | Some t \<Rightarrow> send_sig K SIGSTOP t s);
     let s = tell K RcuUnlock s;
     Some (ret, s)
   }"

section \<open>Flipping a register bit\<close>

text \<open>The register and the bit: as requested, or random.\<close>

definition choose_reg :: "arch \<Rightarrow> 'k kernel \<Rightarrow> 'k st \<Rightarrow> (int \<times> 'k st) option" where
  "choose_reg A K s =
     (if target_reg (ctx_params (ctx s)) = 0 then fij_pick_random_reg_any A K s
      else Some (target_reg (ctx_params (ctx s)), s))"

definition choose_bit :: "'k kernel \<Rightarrow> 'k st \<Rightarrow> (int \<times> 'k st) option" where
  "choose_bit K s =
     (if reg_bit_present (ctx_params (ctx s)) \<noteq> 0 then Some (reg_bit (ctx_params (ctx s)), s)
      else fij_pick_random_bit64 K s)"

definition fij_flip_register_from_ptregs ::
  "arch \<Rightarrow> 'k kernel \<Rightarrow> regs_ptr option \<Rightarrow> 'k st \<Rightarrow> (int \<times> 'k st) option" where
  "fij_flip_register_from_ptregs A K regs s = do {
     (reg, s) \<leftarrow> choose_reg A K s;
     (bit, s) \<leftarrow> choose_bit K s;
     (v0, s) \<leftarrow> ask (k_stack_view K) s;
     case fij_reg_ptr_from_ptregs A v0 regs reg of
       None \<Rightarrow> Some (- EINVAL, s)
     | Some (r, f) \<Rightarrow>
         if bit < 0 \<or> bit > 63 then Some (- EINVAL, s)
         else do {
           (before, s) \<leftarrow> ask (k_reg_load K r f) s;
           let mask = push_bit (nat bit) (1 :: u64);
           let after = before XOR mask;
           let s = tell K (RegStore r f after) s;
           let s = upd (upd_result (\<lambda>x. x\<lparr>register_name := strscpy (fij_reg_name A reg) 8,
                     memory_flip := 0, target_before := before, target_after := after\<rparr>)) s;
           Some (0, s)
         }
   }"

section \<open>Flipping a memory bit\<close>

definition flippable :: "vma \<Rightarrow> bool" where
  "flippable v \<longleftrightarrow> \<not> vm_io v \<and> \<not> vm_pfnmap v"

text \<open>The second \<open>for_each_vma\<close>, which breaks at the selected area; \<open>None\<close> is the NULL
  that the iterator ends with.\<close>

fun vma_walk :: "nat \<Rightarrow> nat \<Rightarrow> vma list \<Rightarrow> vma option" where
  "vma_walk count target_idx [] = None"
| "vma_walk count target_idx (v # vs) =
     (if flippable v then
        (if count = target_idx then Some v else vma_walk (Suc count) target_idx vs)
      else vma_walk count target_idx vs)"

text \<open>The block under the lock: an error code, or the address and whether it is file-backed.
  \<open>%\<close> by the size of an empty area would trap.\<close>

definition mem_pick_target ::
  "'k kernel \<Rightarrow> mm \<Rightarrow> 'k st \<Rightarrow> ((int + u64 \<times> bool) \<times> 'k st) option" where
  "mem_pick_target K m s = do {
     (vs, s) \<leftarrow> ask (k_vmas K m) s;
     let count = length (filter flippable vs);
     if count = 0 then Some (Inl (- ENOENT), tell K (MmapUnlock m) s)
     else do {
       (r, s) \<leftarrow> ask (k_random_u32 K) s;
       let target_idx = unat r mod count;
       (vs', s) \<leftarrow> ask (k_vmas K m) s;
       case vma_walk 0 target_idx vs' of
         None \<Rightarrow> Some (Inl (- ENOENT), tell K (MmapUnlock m) s)
       | Some v \<Rightarrow> do {
           let is_file_backed = (vm_file v \<noteq> None);
           let vma_size = vm_end v - vm_start v;
           (r, s) \<leftarrow> ask (k_random_u32 K) s;
           if vma_size = 0 then None
           else do {
             let offset = ucast r mod vma_size;
             Some (Inr (vm_start v + offset, is_file_backed), tell K (MmapUnlock m) s)
           }
         }
     }
   }"

text \<open>Step 6: pin the modified page for the restoration.\<close>

definition mem_capture_page ::
  "'k kernel \<Rightarrow> mm \<Rightarrow> u64 \<Rightarrow> u8 \<Rightarrow> 'k st \<Rightarrow> (unit \<times> 'k st) option" where
  "mem_capture_page K m target_addr orig_byte s = do {
     (locked, s) \<leftarrow> ask (k_mmap_trylock K m) s;
     if locked then do {
       let s = noted (MmapLock m) s;
       ((gup_ret, pinned_page), s) \<leftarrow> ask (k_gup K m target_addr) s;
       let s = (if gup_ret = 1 then noted (GetPage pinned_page) s else s);
       let s = tell K (MmapUnlock m) s;
       if gup_ret = 1 then do {
         let s = tell K (DirtyPage pinned_page) s;
         Some ((), upd (\<lambda>c. c\<lparr>restore := \<lparr>rest_page = Some pinned_page,
             rest_offset = target_addr AND mask (k_page_shift K),
             rest_orig_byte = orig_byte, rest_active = True\<rparr>\<rparr>) s)
       }
       else Some ((), s)
     }
     else Some ((), s)
   }"

text \<open>From the check for cancellation to the label \<open>out_put_mm\<close>.\<close>

definition mem_flip_at ::
  "'k kernel \<Rightarrow> task \<Rightarrow> mm \<Rightarrow> u64 \<Rightarrow> bool \<Rightarrow> 'k st \<Rightarrow> (int \<times> 'k st) option" where
  "mem_flip_at K t m target_addr is_file_backed s = do {
     (stop, s) \<leftarrow> ask (k_should_stop K) s;
     if stop \<or> \<not> target_alive (ctx s) then Some (- ECANCELED, s)
     else do {
       ((n, orig_byte), s) \<leftarrow> ask (k_mem_load K t target_addr) s;
       if n \<noteq> 1 then Some (- EFAULT, s)
       else do {
         (r, s) \<leftarrow> ask (k_random_u32 K) s;
         let bit_to_flip = unat r mod 8;
         let flipped_byte = orig_byte XOR push_bit bit_to_flip 1;
         (n, s) \<leftarrow> ask (k_mem_store K t target_addr flipped_byte) s;
         if n \<noteq> 1 then Some (- EFAULT, s)
         else do {
           let s = noted (MemStore t target_addr flipped_byte) s;
           (_, s) \<leftarrow> (if is_file_backed then mem_capture_page K m target_addr orig_byte s
                      else Some ((), s));
           let s = upd (upd_result (\<lambda>x. x\<lparr>memory_flip := 1, target_address := target_addr,
                     target_before := ucast orig_byte, target_after := ucast flipped_byte,
                     register_name := strscpy ''none'' 5\<rparr>)) s;
           Some (0, s)
         }
       }
     }
   }"

definition fij_perform_mem_bitflip ::
  "'k kernel \<Rightarrow> pid_t \<Rightarrow> 'k st \<Rightarrow> (int \<times> 'k st) option" where
  "fij_perform_mem_bitflip K tgid s = do {
     let s = tell K RcuLock s;
     (t, s) \<leftarrow> ask (k_pid_task K tgid) s;
     case t of
       None \<Rightarrow> Some (- ESRCH, tell K RcuUnlock s)
     | Some t \<Rightarrow> do {
         let s = tell K RcuUnlock (tell K (GetTask t) s);
         (m, s) \<leftarrow> ask (k_get_task_mm K t) s;
         case m of
           None \<Rightarrow> Some (- EINVAL, tell K (PutTask t) s)
         | Some m \<Rightarrow> do {
             let s = noted (GetMm m) s;
             (locked, s) \<leftarrow> ask (k_mmap_trylock K m) s;
             (ret, s) \<leftarrow> (if \<not> locked then Some (- EBUSY, s)
                else do {
                  (x, s) \<leftarrow> mem_pick_target K m (noted (MmapLock m) s);
                  case x of
                    Inl e \<Rightarrow> Some (e, s)
                  | Inr (a, fb) \<Rightarrow> mem_flip_at K t m a fb s
                });
             let s = tell K (PutTask t) (tell K (PutMm m) s);
             Some (ret, s)
           }
       }
   }"

section \<open>Restoring a file-backed page\<close>

definition fij_revert_file_backed_bitflip :: "'k kernel \<Rightarrow> 'k st \<Rightarrow> 'k st" where
  "fij_revert_file_backed_bitflip K s =
     (let r = restore (ctx s) in
      if \<not> rest_active r \<or> rest_page r = None then s
      else let p = the (rest_page r);
               s = tell K (PageStore p (rest_offset r) (rest_orig_byte r)) s;
               s = tell K (PutPage p) s
           in upd (\<lambda>c. c\<lparr>restore := (restore c)\<lparr>rest_page := None, rest_active := False\<rparr>\<rparr>) s)"

section \<open>The contract of a flip\<close>

text \<open>The value an event writes into the target.\<close>

fun stored :: "kev \<Rightarrow> u64 option" where
  "stored (RegStore r f v) = Some v"
| "stored (MemStore t a b) = Some (ucast b)"
| "stored _ = None"

definition stores :: "kev list \<Rightarrow> u64 list" where
  "stores l = List.map_filter stored l"

lemma stores_simps [simp]:
  "stores [] = []"
  "stores (e # l) = (case stored e of None \<Rightarrow> stores l | Some v \<Rightarrow> v # stores l)"
  "stores (l @ l') = stores l @ stores l'"
  by (auto simp: stores_def List.map_filter_def split: option.splits)

text \<open>Events of a flip: references, stores, and the pinning of a page.\<close>

fun flip_ev :: "kev \<Rightarrow> bool" where
  "flip_ev (RegStore r f v) = True"
| "flip_ev (MemStore t a b) = True"
| "flip_ev (GetPage p) = True"
| "flip_ev (DirtyPage p) = True"
| "flip_ev e = quiet_ev e"

definition flip_errors :: "int set" where
  "flip_errors = {- ESRCH, - EINVAL, - EBUSY, - ENOENT, - ECANCELED, - EFAULT}"

text \<open>A flip touches the flip's own fields of the result and the restore record.\<close>

definition clear_flip :: "fij_ctx \<Rightarrow> fij_ctx" where
  "clear_flip c = (upd_result (\<lambda>r. r\<lparr>register_name := [], memory_flip := 0,
     target_address := 0, target_before := 0, target_after := 0\<rparr>) c)\<lparr>restore := restore zero_ctx\<rparr>"

definition same_but_flip :: "fij_ctx \<Rightarrow> fij_ctx \<Rightarrow> bool" where
  "same_but_flip c c' \<longleftrightarrow> clear_flip c' = clear_flip c"

lemma same_but_flip_refl [simp]: "same_but_flip c c"
  by (simp add: same_but_flip_def)

lemma same_but_flip_trans: "same_but_flip c c' \<Longrightarrow> same_but_flip c' c'' \<Longrightarrow> same_but_flip c c''"
  by (simp add: same_but_flip_def)

lemma clear_flip_keeps:
  "ctx_params (clear_flip c) = ctx_params c" "target_tgid (clear_flip c) = target_tgid c"
  "fault_injected (ctx_result (clear_flip c)) = fault_injected (ctx_result c)"
  "targets (clear_flip c) = targets c" "ntargets (clear_flip c) = ntargets c"
  "capacity (clear_flip c) = capacity c" "target_alive (clear_flip c) = target_alive c"
  by (simp_all add: clear_flip_def)

lemma same_but_flipD:
  assumes "same_but_flip c c'"
  shows "ctx_params c' = ctx_params c" "target_tgid c' = target_tgid c"
    "fault_injected (ctx_result c') = fault_injected (ctx_result c)"
    "targets c' = targets c" "ntargets c' = ntargets c" "capacity c' = capacity c"
    "target_alive c' = target_alive c"
  using assms clear_flip_keeps by (metis same_but_flip_def)+

definition flip_post :: "'k st \<Rightarrow> int \<Rightarrow> 'k st \<Rightarrow> bool" where
  "flip_post s ret s' \<longleftrightarrow>
     same_refs s s' \<and> same_but_flip (ctx s) (ctx s') \<and>
     (if ret = 0 then
        emits (\<lambda>es. list_all flip_ev es \<and> stores es = [target_after (ctx_result (ctx s'))]) s s' \<and>
        (\<exists>b. one_bit_apart b (target_before (ctx_result (ctx s'))) (target_after (ctx_result (ctx s'))))
      else
        emits (\<lambda>es. list_all flip_ev es \<and> stores es = []) s s' \<and>
        ctx s' = ctx s \<and> ret \<in> flip_errors)"

locale injector =
  fixes inject :: "'k st \<Rightarrow> (int \<times> 'k st) option"
  assumes flips: "wlp (inject s) (\<lambda>(ret, s'). flip_post s ret s')"
begin

lemma inject_post: "inject s = Some (ret, s') \<Longrightarrow> flip_post s ret s'"
  using flips [of s] by (simp add: wlp_def)

lemma inject_writes_once:
  "inject s = Some (0, s') \<Longrightarrow> emits (\<lambda>es. stores es = [target_after (ctx_result (ctx s'))]) s s'"
  by (drule inject_post) (auto simp: flip_post_def elim: emits_mono)

lemma inject_fails_clean:
  "inject s = Some (ret, s') \<Longrightarrow> ret \<noteq> 0 \<Longrightarrow> ctx s' = ctx s \<and> emits (\<lambda>es. stores es = []) s s'"
  by (drule inject_post) (auto simp: flip_post_def elim: emits_mono)

lemma inject_balanced: "inject s = Some (ret, s') \<Longrightarrow> same_refs s s'"
  by (drule inject_post) (simp add: flip_post_def)

lemma inject_wlpI: "(\<And>ret s'. flip_post s ret s' \<Longrightarrow> Q (ret, s')) \<Longrightarrow> wlp (inject s) Q"
  using flips by (rule wlp_mono) auto

end

section \<open>Both flips meet it\<close>

lemma one_bit_apart_xor: "b < LENGTH('a) \<Longrightarrow> one_bit_apart b x (x XOR 2 ^ b :: 'a::len word)"
  by (simp add: one_bit_apart_def)

lemma one_bit_apart_ucast:
  assumes "b < 8"
  shows "one_bit_apart b (ucast (x :: u8) :: u64) (ucast (x XOR push_bit b 1))"
proof -
  have "(ucast (x XOR push_bit b 1) :: u64) = ucast x XOR push_bit b 1"
    using assms by (auto intro!: bit_word_eqI simp: bit_simps)
  with assms show ?thesis by (simp add: one_bit_apart_def)
qed

text \<open>The register an injection may use: the requested one, or any of the enum.\<close>

definition reg_choice :: "arch \<Rightarrow> fij_params \<Rightarrow> int \<Rightarrow> bool" where
  "reg_choice A prm reg \<longleftrightarrow>
     (if target_reg prm = 0 then 1 \<le> reg \<and> reg < reg_max A else reg = target_reg prm)"

definition bit_choice :: "fij_params \<Rightarrow> int \<Rightarrow> bool" where
  "bit_choice prm b \<longleftrightarrow> (if reg_bit_present prm = 0 then 0 \<le> b \<and> b \<le> 63 else b = reg_bit prm)"

lemma choose_reg_wlpI:
  assumes "\<And>i s'. klog s' = klog s \<Longrightarrow> ctx s' = ctx s \<Longrightarrow> reg_choice A (ctx_params (ctx s)) i \<Longrightarrow>
     Q (i, s')"
  shows "wlp (choose_reg A K s) Q"
proof (cases "A = CONFIG_NONE \<and> target_reg (ctx_params (ctx s)) = 0")
  case True
  then show ?thesis
    by (simp add: choose_reg_def fij_pick_random_reg_any_def ask_eq Let_def reg_max_def)
next
  case False
  have "1 \<le> 1 + n mod (reg_max A - 1) \<and> 1 + n mod (reg_max A - 1) < reg_max A"
    if "A \<noteq> CONFIG_NONE" for n
  proof -
    have pos: "0 < reg_max A - 1" using that by (cases A) (simp_all add: reg_max_def)
    then have "0 \<le> n mod (reg_max A - 1)" "n mod (reg_max A - 1) < reg_max A - 1" by simp_all
    then show ?thesis by linarith
  qed
  with False show ?thesis
    unfolding choose_reg_def fij_pick_random_reg_any_def
    by (auto simp: Let_def reg_choice_def intro!: ask_wlpI assms)
qed

lemma choose_bit_wlpI:
  assumes "\<And>i s'. klog s' = klog s \<Longrightarrow> ctx s' = ctx s \<Longrightarrow> bit_choice (ctx_params (ctx s)) i \<Longrightarrow>
     Q (i, s')"
  shows "wlp (choose_bit K s) Q"
proof -
  have "uint (r AND 63) \<le> 63" for r :: u32
    using word_and_le1 [of r 63] by (simp add: word_le_def)
  then show ?thesis
    unfolding choose_bit_def fij_pick_random_bit64_def
    by (auto simp: bit_choice_def intro!: ask_wlpI assms)
qed

lemma flip_register_post:
  "wlp (fij_flip_register_from_ptregs A K regs s) (\<lambda>(ret, s'). flip_post s ret s')"
  unfolding fij_flip_register_from_ptregs_def
  by (auto simp: Let_def flip_post_def same_refs_def ref_defs emits_append emits_same
      same_but_flip_def clear_flip_def flip_errors_def
      intro!: ask_wlpI choose_reg_wlpI choose_bit_wlpI exI one_bit_apart_xor split: option.splits)

lemma one_bit_apart_byte:
  "\<exists>c. one_bit_apart c (ucast (x :: u8) :: u64) (ucast (x XOR 2 ^ (n mod 8)))"
  using one_bit_apart_ucast [of "n mod 8" x] by auto

lemma mem_pick_wlpI:
  assumes "\<And>s' x. klog s' = klog s @ [MmapUnlock m] \<Longrightarrow> ctx s' = ctx s \<Longrightarrow>
     (\<And>e. x = Inl e \<Longrightarrow> e = - ENOENT) \<Longrightarrow> Q (x, s')"
  shows "wlp (mem_pick_target K m s) Q"
  unfolding mem_pick_target_def
  by (auto simp: Let_def intro!: ask_wlpI assms split: option.splits)

definition pinned :: "'k kernel \<Rightarrow> u64 \<Rightarrow> u8 \<Rightarrow> page \<Rightarrow> fij_restore_info" where
  "pinned K a b p = \<lparr>rest_page = Some p, rest_offset = a AND mask (k_page_shift K),
     rest_orig_byte = b, rest_active = True\<rparr>"

lemma mem_capture_wlpI:
  assumes "\<And>s' es. klog s' = klog s @ es \<Longrightarrow>
     (es = [] \<or> es = [MmapLock m, MmapUnlock m]) \<and> ctx s' = ctx s \<or>
     (\<exists>p. es = [MmapLock m, GetPage p, MmapUnlock m, DirtyPage p] \<and>
        ctx s' = (ctx s)\<lparr>restore := pinned K a b p\<rparr>) \<Longrightarrow> Q ((), s')"
  shows "wlp (mem_capture_page K m a b s) Q"
  unfolding mem_capture_page_def
  by (auto simp: Let_def pinned_def intro!: ask_wlpI assms)

lemma mem_flip_at_wlpI:
  assumes "\<And>ret s'. flip_post s ret s' \<Longrightarrow> Q (ret, s')"
  shows "wlp (mem_flip_at K t m a fb s) Q"
  unfolding mem_flip_at_def
  by (auto simp: Let_def flip_post_def same_refs_def ref_defs emits_append emits_same
      same_but_flip_def clear_flip_def flip_errors_def
      intro!: ask_wlpI mem_capture_wlpI assms one_bit_apart_byte)

text \<open>A balanced operation stays balanced, and a flip stays a flip, when it runs between
  events that balance each other.\<close>

definition balanced :: "kev list \<Rightarrow> bool" where
  "balanced l \<longleftrightarrow>
     (\<forall>t. net (task_ref t) l = 0) \<and> (\<forall>p. net (pid_ref p) l = 0) \<and> (\<forall>m. net (mm_ref m) l = 0) \<and>
     (\<forall>m. net (mmap_depth m) l = 0) \<and> net any_task_ref l = 0 \<and> net rcu_depth l = 0"

lemma same_refs_wrap:
  assumes "same_refs s1 s2" and "klog s1 = klog s @ l" and "klog s3 = klog s2 @ l'"
    and "balanced (l @ l')"
  shows "same_refs s s3"
  using assms by (simp add: same_refs_def balanced_def)

lemma stores_quiet: "list_all quiet_ev l \<Longrightarrow> stores l = []"
proof (induction l)
  case (Cons e l)
  then show ?case by (cases e) auto
qed simp

lemma quiet_flip_ev: "quiet_ev e \<Longrightarrow> flip_ev e"
  by (cases e) auto

lemma flip_post_wrap:
  assumes post: "flip_post s1 ret s2" and l: "klog s1 = klog s @ l" and c: "ctx s1 = ctx s"
    and l': "klog s3 = klog s2 @ l'" and c': "ctx s3 = ctx s2"
    and quiet: "list_all quiet_ev l" "list_all quiet_ev l'" and bal: "balanced (l @ l')"
  shows "flip_post s ret s3"
proof -
  have "emits (\<lambda>es. list_all flip_ev es \<and> stores es = x) s s3"
    if "emits (\<lambda>es. list_all flip_ev es \<and> stores es = x) s1 s2" for x
  proof -
    from that obtain es where es: "klog s2 = klog s1 @ es" "list_all flip_ev es" "stores es = x"
      by (auto simp: emits_iff)
    have "list_all flip_ev (l @ l')"
      using quiet quiet_flip_ev by (auto simp: list_all_iff)
    with es l l' quiet show ?thesis
      by (auto simp: emits_iff stores_quiet)
  qed
  moreover have "same_refs s s3"
    using post l l' bal by (auto simp: flip_post_def intro: same_refs_wrap)
  ultimately show ?thesis
    using post c c' by (simp add: flip_post_def split: if_splits)
qed

lemma flip_post_error:
  assumes "klog s' = klog s @ l" and "ctx s' = ctx s" and "list_all quiet_ev l" and "balanced l"
    and "ret \<in> flip_errors"
  shows "flip_post s ret s'"
proof -
  have "ret \<noteq> 0" using assms(5) by (auto simp: flip_errors_def)
  moreover have "list_all flip_ev l" using assms(3) quiet_flip_ev by (auto simp: list_all_iff)
  ultimately show ?thesis
    using assms by (simp add: flip_post_def same_refs_def balanced_def emits_append stores_quiet)
qed

lemma flip_memory_post:
  "wlp (fij_perform_mem_bitflip K tgid s) (\<lambda>(ret, s'). flip_post s ret s')"
  unfolding fij_perform_mem_bitflip_def
  by (auto simp: Let_def balanced_def ref_defs flip_errors_def
      intro!: ask_wlpI mem_pick_wlpI mem_flip_at_wlpI intro: flip_post_error flip_post_wrap
      split: option.splits sum.splits)

interpretation register_flip: injector "fij_flip_register_from_ptregs A K regs"
  by unfold_locales (rule flip_register_post)

interpretation memory_flip: injector "fij_perform_mem_bitflip K tgid"
  by unfold_locales (rule flip_memory_post)

section \<open>What each flip does\<close>

text \<open>The result record of a register flip.\<close>

definition reg_record :: "arch \<Rightarrow> int \<Rightarrow> u64 \<Rightarrow> u64 \<Rightarrow> fij_result \<Rightarrow> fij_result" where
  "reg_record A reg before after r = r\<lparr>register_name := strscpy (fij_reg_name A reg) 8,
     memory_flip := 0, target_before := before, target_after := after\<rparr>"

definition register_flipped ::
  "arch \<Rightarrow> 'k kernel \<Rightarrow> regs_ptr \<Rightarrow> 'k st \<Rightarrow> 'k st \<Rightarrow> int \<Rightarrow> int \<Rightarrow> bool" where
  "register_flipped A K p s s' reg b \<longleftrightarrow> (\<exists>f k.
     slot A reg = Some f \<and> 0 \<le> b \<and> b \<le> 63 \<and>
     klog s' = klog s @ [RegStore p f (fst (k_reg_load K p f k) XOR push_bit (nat b) 1)] \<and>
     ctx s' = upd_result (reg_record A reg (fst (k_reg_load K p f k))
                (fst (k_reg_load K p f k) XOR push_bit (nat b) 1)) (ctx s))"

lemma register_flippedI:
  assumes "klog s1 = klog s" and "ctx s1 = ctx s" and "slot A reg = Some f" and "0 \<le> b" and "b \<le> 63"
    and "k_reg_load K p f k = (v, k')"
  shows "register_flipped A K p s (upd (upd_result (\<lambda>x. x\<lparr>register_name := strscpy (fij_reg_name A reg) 8,
     memory_flip := 0, target_before := v, target_after := v XOR 2 ^ nat b\<rparr>))
     (tell K (RegStore p f (v XOR 2 ^ nat b)) (s1\<lparr>kern := k'\<rparr>))) reg b"
  unfolding register_flipped_def using assms
  by (intro exI [of _ f] exI [of _ k]) (simp add: reg_record_def)

definition register_outcome ::
  "arch \<Rightarrow> 'k kernel \<Rightarrow> regs_ptr \<Rightarrow> 'k st \<Rightarrow> int \<Rightarrow> 'k st \<Rightarrow> bool" where
  "register_outcome A K p s ret s' \<longleftrightarrow>
     (\<exists>reg b. reg_choice A (ctx_params (ctx s)) reg \<and> bit_choice (ctx_params (ctx s)) b \<and>
       (if mapped A reg \<and> 0 \<le> b \<and> b \<le> 63
        then ret = 0 \<and> register_flipped A K p s s' reg b
        else ret = - EINVAL \<and> klog s' = klog s \<and> ctx s' = ctx s))"

lemma register_outcome_fail:
  assumes "reg_choice A (ctx_params (ctx s)) reg" "bit_choice (ctx_params (ctx s)) b"
    and "slot A reg = None \<or> b < 0 \<or> 63 < b" and "klog s' = klog s" "ctx s' = ctx s"
  shows "register_outcome A K p s (- EINVAL) s'"
  using assms slot_mapped [of A reg] unfolding register_outcome_def
  by (intro exI [of _ reg] exI [of _ b]) auto

lemma register_outcome_ok:
  assumes "reg_choice A (ctx_params (ctx s)) reg" "bit_choice (ctx_params (ctx s)) b"
    and "slot A reg = Some f" "\<not> b < 0" "\<not> 63 < b" and "klog s1 = klog s" "ctx s1 = ctx s"
    and "k_reg_load K p f k = (v, k')"
  shows "register_outcome A K p s 0
    (upd (upd_result (\<lambda>x. x\<lparr>register_name := strscpy (fij_reg_name A reg) 8,
     memory_flip := 0, target_before := v, target_after := v XOR 2 ^ nat b\<rparr>))
     (tell K (RegStore p f (v XOR 2 ^ nat b)) (s1\<lparr>kern := k'\<rparr>)))"
  using assms slot_mapped [of A reg] register_flippedI [of s1 s A reg f b K p k v k']
  unfolding register_outcome_def by (intro exI [of _ reg] exI [of _ b]) auto

lemma flip_register_outcome:
  "wlp (fij_flip_register_from_ptregs A K (Some p) s) (\<lambda>(ret, s'). register_outcome A K p s ret s')"
  unfolding fij_flip_register_from_ptregs_def reg_ptr_slot
  by (auto simp: Let_def intro!: ask_wlpI choose_reg_wlpI choose_bit_wlpI
      intro: register_outcome_fail register_outcome_ok split: option.splits)

text \<open>The address of a memory flip: inside an area that may be flipped, at a 32-bit distance.\<close>

definition mem_area :: "'k kernel \<Rightarrow> mm \<Rightarrow> u64 \<Rightarrow> bool \<Rightarrow> bool" where
  "mem_area K m a fb \<longleftrightarrow> (\<exists>k. \<exists>v \<in> set (fst (k_vmas K m k)).
     flippable v \<and> fb = (vm_file v \<noteq> None) \<and>
     a - vm_start v < vm_end v - vm_start v \<and> a - vm_start v < 2 ^ 32)"

lemma vma_walk_in: "vma_walk c i vs = Some v \<Longrightarrow> v \<in> set vs \<and> flippable v"
  by (induction c i vs rule: vma_walk.induct) (auto split: if_splits)

lemma ucast_below: "(ucast (r :: u32) :: u64) < 2 ^ 32"
proof -
  have "unat r < 2 ^ 32" using unsigned_less [of r] by simp
  then have "unat (ucast r :: u64) < unat (2 ^ 32 :: u64)"
    by (simp add: unsigned_ucast_eq take_bit_nat_eq_self)
  then show ?thesis by (simp add: word_less_nat_alt)
qed

lemma mem_areaI:
  assumes "vma_walk c i vs = Some v" and "k_vmas K m k = (vs, k')" and "vm_end v \<noteq> vm_start v"
  shows "mem_area K m (vm_start v + ucast (r :: u32) mod (vm_end v - vm_start v)) (\<exists>f. vm_file v = Some f)"
proof -
  let ?o = "ucast r mod (vm_end v - vm_start v)"
  have "?o < vm_end v - vm_start v" using assms(3) by (intro word_mod_less_divisor) (simp add: word_gt_0)
  moreover have "?o \<le> ucast r"
    by (simp add: word_le_nat_alt unat_mod_distrib)
  then have "?o < 2 ^ 32" using ucast_below order.strict_trans1 by blast
  ultimately show ?thesis
    unfolding mem_area_def using vma_walk_in [OF assms(1)] assms(2)
    by (intro exI [of _ k] bexI [of _ v]) auto
qed

lemma mem_pick_area_wlpI:
  assumes "\<And>s' e. klog s' = klog s @ [MmapUnlock m] \<Longrightarrow> ctx s' = ctx s \<Longrightarrow> e = - ENOENT \<Longrightarrow>
      Q (Inl e, s')"
    and "\<And>s' a fb. klog s' = klog s @ [MmapUnlock m] \<Longrightarrow> ctx s' = ctx s \<Longrightarrow> mem_area K m a fb \<Longrightarrow>
      Q (Inr (a, fb), s')"
  shows "wlp (mem_pick_target K m s) Q"
  unfolding mem_pick_target_def
  by (auto simp: Let_def intro!: ask_wlpI assms mem_areaI split: option.splits)

text \<open>What a successful flip at an address has done, with the capture of the page.\<close>

definition mem_record :: "u64 \<Rightarrow> u8 \<Rightarrow> u8 \<Rightarrow> fij_result \<Rightarrow> fij_result" where
  "mem_record a orig flipped r = r\<lparr>memory_flip := 1, target_address := a,
     target_before := ucast orig, target_after := ucast flipped, register_name := ''none''\<rparr>"

definition captured ::
  "'k kernel \<Rightarrow> mm \<Rightarrow> u64 \<Rightarrow> u8 \<Rightarrow> bool \<Rightarrow> fij_restore_info \<Rightarrow> kev list \<Rightarrow> fij_restore_info \<Rightarrow> bool" where
  "captured K m a orig fb R es R' \<longleftrightarrow>
     (es = [] \<or> es = [MmapLock m, MmapUnlock m]) \<and> R' = R \<or>
     fb \<and> (\<exists>p. es = [MmapLock m, GetPage p, MmapUnlock m, DirtyPage p] \<and> R' = pinned K a orig p)"

definition mem_done ::
  "'k kernel \<Rightarrow> task \<Rightarrow> mm \<Rightarrow> u64 \<Rightarrow> bool \<Rightarrow> 'k st \<Rightarrow> 'k st \<Rightarrow> bool" where
  "mem_done K t m a fb s s' \<longleftrightarrow> (\<exists>orig n k es R.
     fst (k_mem_load K t a k) = (1, orig) \<and> n < 8 \<and>
     klog s' = klog s @ MemStore t a (orig XOR push_bit n 1) # es \<and>
     captured K m a orig fb (restore (ctx s)) es R \<and>
     ctx s' = upd_result (mem_record a orig (orig XOR push_bit n 1)) ((ctx s)\<lparr>restore := R\<rparr>))"

lemma strscpy_none: "strscpy ''none'' 5 = ''none''"
  by (simp add: strscpy_def)

lemma mem_doneI:
  assumes "k_mem_load K t a k = ((1, orig), k')"
    and "klog s1 = klog s @ MemStore t a (orig XOR 2 ^ (n mod 8)) # es"
    and "captured K m a orig fb (restore (ctx s)) es R" and "ctx s1 = (ctx s)\<lparr>restore := R\<rparr>"
  shows "mem_done K t m a fb s (upd (upd_result (\<lambda>x. x\<lparr>memory_flip := 1, target_address := a,
     target_before := ucast orig, target_after := ucast (orig XOR 2 ^ (n mod 8)),
     register_name := strscpy ''none'' 5\<rparr>)) s1)"
  unfolding mem_done_def using assms
  by (intro exI [of _ orig] exI [of _ "n mod 8"] exI [of _ k] exI [of _ es] exI [of _ R])
    (simp add: mem_record_def strscpy_none)

lemma mem_doneI_anon:
  assumes "k_mem_load K t a k = ((1, orig), k')"
    and "klog s1 = klog s @ [MemStore t a (orig XOR 2 ^ (n mod 8))]" and "ctx s1 = ctx s"
  shows "mem_done K t m a fb s (upd (upd_result (\<lambda>x. x\<lparr>memory_flip := 1, target_address := a,
     target_before := ucast orig, target_after := ucast (orig XOR 2 ^ (n mod 8)),
     register_name := strscpy ''none'' 5\<rparr>)) s1)"
proof (rule mem_doneI [OF assms(1,2)])
  show "captured K m a orig fb (restore (ctx s)) [] (restore (ctx s))" by (simp add: captured_def)
  show "ctx s1 = (ctx s)\<lparr>restore := restore (ctx s)\<rparr>" using assms(3) by simp
qed

lemma mem_capture_file_wlpI:
  assumes "\<And>s' es R. klog s' = klog s @ es \<Longrightarrow> ctx s' = (ctx s)\<lparr>restore := R\<rparr> \<Longrightarrow>
     captured K m a b True (restore (ctx s)) es R \<Longrightarrow> Q ((), s')"
  shows "wlp (mem_capture_page K m a b s) Q"
proof (rule mem_capture_wlpI)
  fix s' :: "'a st" and es
  assume "klog s' = klog s @ es"
    and "(es = [] \<or> es = [MmapLock m, MmapUnlock m]) \<and> ctx s' = ctx s \<or>
     (\<exists>p. es = [MmapLock m, GetPage p, MmapUnlock m, DirtyPage p] \<and>
        ctx s' = (ctx s)\<lparr>restore := pinned K a b p\<rparr>)"
  then show "Q ((), s')"
    using assms [of s' es "restore (ctx s')"] by (auto simp: captured_def)
qed

lemma mem_flip_done_wlpI:
  assumes "\<And>ret s'. (ret = 0 \<Longrightarrow> mem_done K t m a fb s s') \<Longrightarrow> Q (ret, s')"
  shows "wlp (mem_flip_at K t m a fb s) Q"
proof (cases fb)
  case True
  then show ?thesis
    unfolding mem_flip_at_def
    by (auto simp: Let_def intro!: ask_wlpI mem_capture_file_wlpI assms
        intro!: mem_doneI)
next
  case False
  then show ?thesis
    unfolding mem_flip_at_def
    by (auto simp: Let_def intro!: ask_wlpI assms mem_doneI_anon)
qed

definition memory_flipped :: "'k kernel \<Rightarrow> 'k st \<Rightarrow> 'k st \<Rightarrow> bool" where
  "memory_flipped K s s' \<longleftrightarrow> (\<exists>t m a fb. \<exists>(s1 :: 'k st) (s2 :: 'k st).
     mem_area K m a fb \<and> mem_done K t m a fb s1 s2 \<and> ctx s1 = ctx s \<and>
     klog s1 = klog s @ [RcuLock, GetTask t, RcuUnlock, GetMm m, MmapLock m, MmapUnlock m] \<and>
     klog s' = klog s2 @ [PutMm m, PutTask t] \<and> ctx s' = ctx s2)"

lemma memory_flippedI:
  assumes "mem_area K m a fb" "mem_done K t m a fb s1 s2" "ctx s1 = ctx s"
    and "klog s1 = klog s @ [RcuLock, GetTask t, RcuUnlock, GetMm m, MmapLock m, MmapUnlock m]"
  shows "memory_flipped K s (tell K (PutTask t) (tell K (PutMm m) s2))"
  unfolding memory_flipped_def using assms
  by (intro exI [of _ t] exI [of _ m] exI [of _ a] exI [of _ fb] exI [of _ s1] exI [of _ s2]) simp

lemma flip_memory_outcome:
  "wlp (fij_perform_mem_bitflip K tgid s) (\<lambda>(ret, s'). ret = 0 \<longrightarrow> memory_flipped K s s')"
  unfolding fij_perform_mem_bitflip_def
  by (auto simp: Let_def intro!: ask_wlpI mem_pick_area_wlpI mem_flip_done_wlpI
      intro: memory_flippedI split: option.splits sum.splits)

section \<open>The flips return\<close>

text \<open>An area of an address space is never empty.\<close>

definition vma_law :: "'k kernel \<Rightarrow> bool" where
  "vma_law K \<longleftrightarrow> (\<forall>m k. \<forall>v \<in> set (fst (k_vmas K m k)). vm_start v < vm_end v)"

lemma flip_register_returns:
  "A \<noteq> CONFIG_NONE \<Longrightarrow> wp (fij_flip_register_from_ptregs A K regs s) (\<lambda>_. True)"
  unfolding fij_flip_register_from_ptregs_def choose_reg_def choose_bit_def
    fij_pick_random_bit64_def fij_pick_random_reg_any_def
  by (cases A) (auto simp: Let_def reg_max_def intro!: ask_wpI split: option.splits)

lemma walked_nonempty:
  assumes "vma_law K" and "vma_walk c i vs = Some v" and "k_vmas K m k = (vs, k')"
  shows "vm_end v \<noteq> vm_start v"
proof -
  have "v \<in> set (fst (k_vmas K m k))" using vma_walk_in [OF assms(2)] assms(3) by simp
  with assms(1) have "vm_start v < vm_end v" unfolding vma_law_def by blast
  then show ?thesis by auto
qed

lemma mem_pick_returns: "vma_law K \<Longrightarrow> wp (mem_pick_target K m s) (\<lambda>_. True)"
  unfolding mem_pick_target_def
  by (auto simp: Let_def intro!: ask_wpI split: option.splits dest: walked_nonempty)

lemma mem_flip_at_returns: "wp (mem_flip_at K t m a fb s) (\<lambda>_. True)"
  unfolding mem_flip_at_def mem_capture_page_def
  by (auto simp: Let_def intro!: ask_wpI)

lemma flip_memory_returns: "vma_law K \<Longrightarrow> wp (fij_perform_mem_bitflip K tgid s) (\<lambda>_. True)"
  unfolding fij_perform_mem_bitflip_def
  by (auto simp: Let_def intro!: ask_wpI wp_mono [OF mem_pick_returns] wp_mono [OF mem_flip_at_returns]
      split: option.splits sum.splits)

section \<open>Properties\<close>

text \<open>C4: a register flip always returns. It uses the requested register and bit, or a random
  one where none was requested; if the register exists on the architecture and the bit is one
  of 0 to 63, it writes once, to the slot of that register, the value it read with that bit
  inverted, and records name, value before and value after; otherwise it returns \<open>-EINVAL\<close>
  and has neither written nor changed the context.\<close>

theorem flip_register_exact:
  assumes "A \<noteq> CONFIG_NONE"
  shows "\<exists>ret s' reg b. fij_flip_register_from_ptregs A K (Some p) s = Some (ret, s') \<and>
    reg_choice A (ctx_params (ctx s)) reg \<and> bit_choice (ctx_params (ctx s)) b \<and>
    (if mapped A reg \<and> 0 \<le> b \<and> b \<le> 63
     then ret = 0 \<and> (\<exists>f k.
       slot A reg = Some f \<and>
       klog s' = klog s @ [RegStore p f (fst (k_reg_load K p f k) XOR push_bit (nat b) 1)] \<and>
       ctx s' = upd_result (reg_record A reg (fst (k_reg_load K p f k))
                  (fst (k_reg_load K p f k) XOR push_bit (nat b) 1)) (ctx s))
     else ret = - EINVAL \<and> klog s' = klog s \<and> ctx s' = ctx s)"
proof -
  obtain ret s' where run: "fij_flip_register_from_ptregs A K (Some p) s = Some (ret, s')"
    using flip_register_returns [OF assms, of K "Some p" s] by (auto simp: wp_def)
  from wlpD [OF flip_register_outcome run] have "register_outcome A K p s ret s'" by simp
  with run show ?thesis unfolding register_outcome_def register_flipped_def by metis
qed

theorem flip_register_exact_witness:
  "\<exists>ret s'. fij_flip_register_from_ptregs CONFIG_X86 demo (Some 3)
     (upd (\<lambda>c. c\<lparr>exec := (exec c)\<lparr>params := zero_params\<lparr>target_reg := 9, reg_bit := 4,
        reg_bit_present := 1\<rparr>\<rparr>\<rparr>) demo_st) = Some (ret, s') \<and> ret = 0 \<and>
     klog s' = [RegStore 3 (Member ''ip'') 0xEF]"
proof -
  let ?s = "upd (\<lambda>c. c\<lparr>exec := (exec c)\<lparr>params := zero_params\<lparr>target_reg := 9, reg_bit := 4,
        reg_bit_present := 1\<rparr>\<rparr>\<rparr>) demo_st"
  have "slot CONFIG_X86 9 = Some (Member ''ip'')"
    by (simp add: slot_def reg_of_id_def x86_regs_def)
  then show ?thesis
    using flip_register_exact [of CONFIG_X86 demo 3 ?s]
    by (auto simp: reg_choice_def bit_choice_def mapped_def reg_max_def zero_params_def demo_def
        demo_st_def)
qed

text \<open>C5: a memory flip that reports success has found an area of the target that is neither
  I/O nor a raw page-frame mapping, picked an address in it (never further than 4 GiB from its
  start, because the offset is a 32-bit random number), read a byte there, and written it back
  with one of its eight bits inverted; the result record holds the address and both bytes.\<close>

theorem flip_memory_exact:
  assumes "fij_perform_mem_bitflip K tgid s = Some (0, s')"
  shows "\<exists>t m k v k' orig n.
    v \<in> set (fst (k_vmas K m k)) \<and> \<not> vm_io v \<and> \<not> vm_pfnmap v \<and>
    target_address (ctx_result (ctx s')) - vm_start v < vm_end v - vm_start v \<and>
    target_address (ctx_result (ctx s')) - vm_start v < 2 ^ 32 \<and>
    fst (k_mem_load K t (target_address (ctx_result (ctx s'))) k') = (1, orig) \<and> n < 8 \<and>
    target_before (ctx_result (ctx s')) = ucast orig \<and>
    target_after (ctx_result (ctx s')) = ucast (orig XOR push_bit n 1) \<and>
    memory_flip (ctx_result (ctx s')) = 1 \<and> register_name (ctx_result (ctx s')) = ''none'' \<and>
    MemStore t (target_address (ctx_result (ctx s'))) (orig XOR push_bit n 1)
      \<in> set (drop (length (klog s)) (klog s'))"
proof -
  from assms flip_memory_outcome [of K tgid s] obtain t m a fb and s1 s2 :: "'a st" where
    area: "mem_area K m a fb" and dn: "mem_done K t m a fb s1 s2" and
    l1: "klog s1 = klog s @ [RcuLock, GetTask t, RcuUnlock, GetMm m, MmapLock m, MmapUnlock m]" and
    l2: "klog s' = klog s2 @ [PutMm m, PutTask t]" and c2: "ctx s' = ctx s2"
    by (auto simp: memory_flipped_def wlp_def)
  from area obtain k v where v: "v \<in> set (fst (k_vmas K m k))" "flippable v"
    "a - vm_start v < vm_end v - vm_start v" "a - vm_start v < 2 ^ 32"
    by (auto simp: mem_area_def)
  from dn obtain orig n k' es R where d: "fst (k_mem_load K t a k') = (1, orig)" "n < 8"
    "klog s2 = klog s1 @ MemStore t a (orig XOR push_bit n 1) # es"
    "ctx s2 = upd_result (mem_record a orig (orig XOR push_bit n 1)) ((ctx s1)\<lparr>restore := R\<rparr>)"
    by (auto simp: mem_done_def)
  have "target_address (ctx_result (ctx s')) = a" "target_before (ctx_result (ctx s')) = ucast orig"
    "target_after (ctx_result (ctx s')) = ucast (orig XOR push_bit n 1)"
    "memory_flip (ctx_result (ctx s')) = 1" "register_name (ctx_result (ctx s')) = ''none''"
    unfolding c2 d(4) by (simp_all add: mem_record_def)
  moreover have "MemStore t a (orig XOR push_bit n 1) \<in> set (drop (length (klog s)) (klog s'))"
    using l1 l2 d(3) by simp
  ultimately show ?thesis using v d(1,2) unfolding flippable_def by metis
qed

definition demo_alive :: "unit st" where
  "demo_alive = upd (\<lambda>c. c\<lparr>target_alive := True\<rparr>) demo_st"

lemma demo_memory_flip:
  "\<exists>s'. fij_perform_mem_bitflip demo 100 demo_alive = Some (0, s') \<and>
     target_address (ctx_result (ctx s')) = 0x1005 \<and> rest_active (restore (ctx s')) \<and>
     target_before (ctx_result (ctx s')) = 0x0F \<and> target_after (ctx_result (ctx s')) = 0x2F"
  by (simp add: fij_perform_mem_bitflip_def mem_pick_target_def mem_flip_at_def mem_capture_page_def
      ask_eq Let_def demo_def demo_vmas_def flippable_def demo_alive_def)

theorem flip_memory_exact_witness:
  "\<exists>s' n. fij_perform_mem_bitflip demo 100 demo_alive = Some (0, s') \<and> n < 8 \<and>
     target_after (ctx_result (ctx s')) = ucast ((0x0F :: u8) XOR push_bit n 1)"
proof -
  obtain s' where run: "fij_perform_mem_bitflip demo 100 demo_alive = Some (0, s')"
    using demo_memory_flip by blast
  have load: "fst (k_mem_load demo t a k) = (1, 0x0F)" for t a and k :: unit
    by (simp add: demo_def)
  show ?thesis using run flip_memory_exact [OF run] by (auto simp: load)
qed

text \<open>C36: a flip that fails is a no-op for the target and for the report: nothing is stored,
  the context is as before, every reference and lock taken on the way has been given back
  and the code is one of the documented errors. This holds for the register flip and for the
  memory flip, whichever of its exits it takes.\<close>

theorem flip_failure_clean:
  assumes "fij_flip_register_from_ptregs A K regs s = Some (ret, s') \<or>
    fij_perform_mem_bitflip K tgid s = Some (ret, s')"
    and "ret \<noteq> 0"
  shows "stores (drop (length (klog s)) (klog s')) = [] \<and> ctx s' = ctx s \<and> same_refs s s' \<and>
    ret \<in> {- ESRCH, - EINVAL, - EBUSY, - ENOENT, - ECANCELED, - EFAULT}"
proof -
  have "flip_post s ret s'"
    using assms(1) register_flip.inject_post memory_flip.inject_post by blast
  with assms(2) show ?thesis by (simp add: flip_post_def emits_def flip_errors_def)
qed

theorem flip_failure_clean_witness:
  "\<exists>s'. fij_perform_mem_bitflip demo 100 demo_st = Some (- ECANCELED, s') \<and> ctx s' = ctx demo_st"
proof -
  have "\<exists>s'. fij_perform_mem_bitflip demo 100 demo_st = Some (- ECANCELED, s')"
    by (simp add: fij_perform_mem_bitflip_def mem_pick_target_def mem_flip_at_def ask_eq Let_def
        demo_def demo_vmas_def flippable_def demo_st_def fij_ctx_init_def fij_uprobe_init_work_def
        zero_ctx_def)
  then show ?thesis using flip_failure_clean by fastforce
qed

text \<open>The memory flip always returns, and gives back every reference and lock it took,
  except the page it may pin for the restoration.\<close>

theorem flip_memory_total:
  assumes "vma_law K"
  shows "\<exists>ret s'. fij_perform_mem_bitflip K tgid s = Some (ret, s') \<and> same_refs s s' \<and>
    (ret \<noteq> 0 \<longrightarrow> restore (ctx s') = restore (ctx s))"
proof -
  obtain ret s' where run: "fij_perform_mem_bitflip K tgid s = Some (ret, s')"
    using flip_memory_returns [OF assms, of tgid s] by (auto simp: wp_def)
  with memory_flip.inject_post [OF run] show ?thesis by (auto simp: flip_post_def)
qed

theorem flip_memory_total_witness:
  "\<exists>ret s'. fij_perform_mem_bitflip demo 100 demo_alive = Some (ret, s') \<and> same_refs demo_alive s'"
proof -
  have "vma_law (demo :: unit kernel)" by (simp add: vma_law_def demo_def demo_vmas_def)
  from flip_memory_total [OF this, of 100 demo_alive] show ?thesis by blast
qed

text \<open>C23: a file-backed page that a memory flip modified and pinned is restored by the
  revert: it writes the byte the flip found, at the offset of the flipped address in the page,
  releases the page, and disarms itself, so a second revert does nothing. Over flip and
  revert every page reference is balanced.\<close>

theorem revert_undoes_memory_flip:
  assumes "fij_perform_mem_bitflip K tgid s = Some (0, s')" and "\<not> rest_active (restore (ctx s))"
    and "s'' = fij_revert_file_backed_bitflip K s'"
  shows "\<not> rest_active (restore (ctx s'')) \<and> fij_revert_file_backed_bitflip K s'' = s'' \<and>
    net (page_ref p) (klog s'') = net (page_ref p) (klog s) \<and>
    (rest_active (restore (ctx s')) \<longrightarrow> (\<exists>q b. target_before (ctx_result (ctx s')) = ucast b \<and>
       klog s'' = klog s' @ [PageStore q (target_address (ctx_result (ctx s')) AND mask (k_page_shift K)) b,
         PutPage q]))"
proof -
  from assms(1) flip_memory_outcome [of K tgid s] obtain t m a fb and s1 s2 :: "'a st" where
    dn: "mem_done K t m a fb s1 s2" and c1: "ctx s1 = ctx s" and
    l1: "klog s1 = klog s @ [RcuLock, GetTask t, RcuUnlock, GetMm m, MmapLock m, MmapUnlock m]" and
    l2: "klog s' = klog s2 @ [PutMm m, PutTask t]" and c2: "ctx s' = ctx s2"
    by (auto simp: memory_flipped_def wlp_def)
  from dn obtain orig n es R where
    l3: "klog s2 = klog s1 @ MemStore t a (orig XOR push_bit n 1) # es" and
    cap: "captured K m a orig fb (restore (ctx s1)) es R" and
    c3: "ctx s2 = upd_result (mem_record a orig (orig XOR push_bit n 1)) ((ctx s1)\<lparr>restore := R\<rparr>)"
    by (auto simp: mem_done_def)
  have res: "target_address (ctx_result (ctx s')) = a" "target_before (ctx_result (ctx s')) = ucast orig"
    "restore (ctx s') = R"
    unfolding c2 c3 by (simp_all add: mem_record_def)
  have log: "klog s' = klog s @ [RcuLock, GetTask t, RcuUnlock, GetMm m, MmapLock m, MmapUnlock m,
      MemStore t a (orig XOR push_bit n 1)] @ es @ [PutMm m, PutTask t]"
    using l1 l2 l3 by simp
  show ?thesis
  proof (cases "rest_active R")
    case False
    with cap c1 have "es = [] \<or> es = [MmapLock m, MmapUnlock m]"
      by (auto simp: captured_def pinned_def)
    moreover have "s'' = s'" using False assms(3) res(3)
      by (simp add: fij_revert_file_backed_bitflip_def)
    ultimately show ?thesis
      using False res(3) log assms(3) by (auto simp: page_ref_def)
  next
    case True
    with cap c1 assms(2) obtain q where q: "R = pinned K a orig q"
      "es = [MmapLock m, GetPage q, MmapUnlock m, DirtyPage q]"
      by (auto simp: captured_def)
    then have s'': "klog s'' = klog s' @ [PageStore q (a AND mask (k_page_shift K)) orig, PutPage q]"
      "\<not> rest_active (restore (ctx s''))"
      using assms(3) res(3) by (auto simp: fij_revert_file_backed_bitflip_def pinned_def Let_def)
    then have "fij_revert_file_backed_bitflip K s'' = s''"
      by (simp add: fij_revert_file_backed_bitflip_def)
    moreover have "net (page_ref p) (klog s'') = net (page_ref p) (klog s)"
      unfolding s'' log q(2) by (simp add: page_ref_def)
    ultimately show ?thesis using s'' res by blast
  qed
qed

lemma ucast_u8_u64: "(ucast (ucast (b :: u8) :: u64) :: u8) = b"
  by (rule bit_word_eqI) (auto simp: bit_simps)

theorem revert_undoes_memory_flip_witness:
  "\<exists>s' q. fij_perform_mem_bitflip demo 100 demo_alive = Some (0, s') \<and>
     klog (fij_revert_file_backed_bitflip demo s') = klog s' @ [PageStore q 5 0x0F, PutPage q]"
proof -
  obtain s' where run: "fij_perform_mem_bitflip demo 100 demo_alive = Some (0, s')"
    and a: "target_address (ctx_result (ctx s')) = 0x1005" "rest_active (restore (ctx s'))"
      "target_before (ctx_result (ctx s')) = 0x0F"
    using demo_memory_flip by blast
  have "\<not> rest_active (restore (ctx demo_alive))"
    by (simp add: demo_alive_def demo_st_def fij_ctx_init_def fij_uprobe_init_work_def zero_ctx_def)
  from revert_undoes_memory_flip [OF run this refl, where p = 0] a obtain q and b :: u8 where
    b: "(0x0F :: u64) = ucast b" and l: "klog (fij_revert_file_backed_bitflip demo s') =
      klog s' @ [PageStore q (0x1005 AND mask (k_page_shift (demo :: unit kernel))) b, PutPage q]"
    by auto
  have "b = ucast (0x0F :: u64)" using ucast_u8_u64 [of b] b by simp
  then have "b = 0x0F" by simp
  moreover have "(0x1005 :: u64) AND mask (k_page_shift (demo :: unit kernel)) = 5"
    by (simp add: demo_def mask_eq_exp_minus_1)
  ultimately show ?thesis using run l by auto
qed

end
