(* ===== verification/Fij_Inject.thy ===== *)
theory Fij_Inject
  imports Fij_Flip
begin

text \<open>
  The injections of \<open>core/bitflip_ops.c\<close>: into one random thread of the target or of one of
  its descendants, or into all threads of that process, and the restoration of a
  file-backed page after a run.

  The discipline of an injection is stated on the log: the target is written only while the
  last signal it got is a \<open>SIGSTOP\<close>, and it is resumed before the injection returns, whatever
  failed on the way.
\<close>

section \<open>The injection\<close>

definition fij_flip_for_task ::
  "arch \<Rightarrow> 'k kernel \<Rightarrow> task \<Rightarrow> pid_t \<Rightarrow> 'k st \<Rightarrow> (int \<times> 'k st) option" where
  "fij_flip_for_task A K t tgid s = do {
     (regs, s) \<leftarrow> ask (k_pt_regs K t) s;
     (reg, s) \<leftarrow> choose_register_target K (weight_mem (ctx_params (ctx s)))
                  (only_mem (ctx_params (ctx s))) s;
     if reg \<or> target_reg (ctx_params (ctx s)) \<noteq> 0 then
       (if regs = None then Some (- EINVAL, s) else fij_flip_register_from_ptregs A K regs s)
     else fij_perform_mem_bitflip K tgid s
   }"

text \<open>The body of \<open>for_each_thread\<close> in \<open>fij_stop_flip_resume_all_threads\<close> after the thread
  has stopped: the return code of the flip and the new \<open>did_mem\<close>.\<close>

definition flip_stopped_thread ::
  "arch \<Rightarrow> 'k kernel \<Rightarrow> pid_t \<Rightarrow> task \<Rightarrow> bool \<Rightarrow> 'k st \<Rightarrow> ((int \<times> bool) \<times> 'k st) option" where
  "flip_stopped_thread A K tgid t did_mem s = do {
     (reg, s) \<leftarrow> choose_register_target K (weight_mem (ctx_params (ctx s)))
                  (only_mem (ctx_params (ctx s))) s;
     if reg \<or> target_reg (ctx_params (ctx s)) \<noteq> 0 then do {
       (regs, s) \<leftarrow> ask (k_pt_regs K t) s;
       (r, s) \<leftarrow> (if regs = None then Some (- EINVAL, s)
                  else fij_flip_register_from_ptregs A K regs s);
       Some ((r, did_mem), s)
     }
     else if \<not> did_mem then do {
       (r, s) \<leftarrow> fij_perform_mem_bitflip K tgid s;
       Some ((r, r = 0), s)
     }
     else Some ((0, did_mem), s)
   }"

text \<open>The loop over the threads, with \<open>first_err\<close> and \<open>did_mem\<close>.\<close>

fun flip_threads ::
  "arch \<Rightarrow> 'k kernel \<Rightarrow> pid_t \<Rightarrow> thread_view list \<Rightarrow> int \<Rightarrow> bool \<Rightarrow> 'k st \<Rightarrow> (int \<times> 'k st) option"
where
  "flip_threads A K tgid [] first_err did_mem s = Some (first_err, s)"
| "flip_threads A K tgid (v # vs) first_err did_mem s =
     (if t_kthread v then flip_threads A K tgid vs first_err did_mem s
      else do {
        let t = t_task v;
        let s = tell K (GetTask t) s;
        (this_ret, s) \<leftarrow> fij_wait_task_stopped K t (k_msecs_to_jiffies K 100) s;
        if this_ret \<noteq> 0 then
          flip_threads A K tgid vs (if first_err = 0 then this_ret else first_err) did_mem
            (tell K (PutTask t) s)
        else do {
          ((this_ret, did_mem), s) \<leftarrow> flip_stopped_thread A K tgid t did_mem s;
          flip_threads A K tgid vs
            (if this_ret \<noteq> 0 \<and> first_err = 0 then this_ret else first_err) did_mem
            (tell K (PutTask t) s)
        }
      })"

text \<open>\<open>for_each_thread\<close> of a NULL leader is an oops.\<close>

definition fij_stop_flip_resume_all_threads ::
  "arch \<Rightarrow> 'k kernel \<Rightarrow> pid_t \<Rightarrow> 'k st \<Rightarrow> (int \<times> 'k st) option" where
  "fij_stop_flip_resume_all_threads A K tgid s = do {
     (ret, s) \<leftarrow> fij_group_stop K tgid s;
     if ret \<noteq> 0 then Some (ret, s)
     else do {
       let s = tell K RcuLock s;
       (g, s) \<leftarrow> fij_rcu_find_get_task_by_tgid K tgid s;
       let s = (case g of None \<Rightarrow> s | Some g \<Rightarrow> tell K (GetTask g) s);
       let s = tell K RcuUnlock s;
       case g of
         None \<Rightarrow> None
       | Some g \<Rightarrow> do {
           (vs, s) \<leftarrow> ask (k_threads K g) s;
           (first_err, s) \<leftarrow> flip_threads A K tgid vs 0 False s;
           (_, s) \<leftarrow> fij_send_cont K tgid s;
           let s = tell K (PutTask g) s;
           Some (first_err, s)
         }
     }
   }"

text \<open>The index of the process to hit, lines 309 to 318.\<close>

definition choose_process_index :: "'k kernel \<Rightarrow> 'k st \<Rightarrow> (int \<times> 'k st) option" where
  "choose_process_index K s = do {
     let prm = ctx_params (ctx s);
     let n = int (ntargets (ctx s));
     if process_present prm \<noteq> 0 then do {
       let idx = nprocess prm;
       if idx > n \<or> idx < 0 then do {
         (r, s) \<leftarrow> ask (k_random_u32_below K (word_of_int n)) s;
         Some (sint r, s)
       }
       else Some (idx, s)
     }
     else do {
       (r, s) \<leftarrow> ask (k_random_u32_below K (word_of_int n)) s;
       Some (sint r, s)
     }
   }"

text \<open>\<open>ctx->targets[idx]\<close>.\<close>

definition target_at :: "fij_ctx \<Rightarrow> int \<Rightarrow> pid_t option" where
  "target_at c idx =
     (if 0 \<le> idx \<and> nat idx < length (targets c) then Some (targets c ! nat idx) else None)"

text \<open>Lines 340 to 356: the group has been stopped.\<close>

definition wait_flip_resume ::
  "arch \<Rightarrow> 'k kernel \<Rightarrow> task \<Rightarrow> pid_t \<Rightarrow> 'k st \<Rightarrow> (int \<times> 'k st) option" where
  "wait_flip_resume A K t tgid s = do {
     (ret, s) \<leftarrow> fij_wait_task_stopped K t (k_msecs_to_jiffies K 100) s;
     (ret, s) \<leftarrow> (if ret = 0 then fij_flip_for_task A K t tgid s else Some (ret, s));
     let s = (if ret = 0 then upd (upd_result (\<lambda>r. r\<lparr>fault_injected := 1\<rparr>)) s else s);
     (_, s) \<leftarrow> fij_send_cont K tgid s;
     Some (ret, s)
   }"

text \<open>Lines 326 to 359: one thread of the process \<open>tgid\<close>.\<close>

definition stop_flip_resume_thread ::
  "arch \<Rightarrow> 'k kernel \<Rightarrow> pid_t \<Rightarrow> 'k st \<Rightarrow> (int \<times> 'k st) option" where
  "stop_flip_resume_thread A K tgid s = do {
     let prm = ctx_params (ctx s);
     (t, s) \<leftarrow> (if thread_present prm \<noteq> 0
                then fij_pick_user_thread_by_index K tgid (thread prm) s
                else fij_pick_random_user_thread K tgid s);
     case t of
       None \<Rightarrow> Some (- ESRCH, s)
     | Some t \<Rightarrow> do {
         (ret, s) \<leftarrow> fij_group_stop K tgid s;
         if ret \<noteq> 0 then Some (ret, tell K (PutTask t) s)
         else do {
           (ret, s) \<leftarrow> wait_flip_resume A K t tgid s;
           Some (ret, tell K (PutTask t) s)
         }
       }
   }"

text \<open>Lines 323 to 331, which select the mode; then lines 309 to 321, which select the process.\<close>

definition inject_process ::
  "arch \<Rightarrow> 'k kernel \<Rightarrow> pid_t \<Rightarrow> 'k st \<Rightarrow> (int \<times> 'k st) option" where
  "inject_process A K tgid s =
     (if all_threads (ctx_params (ctx s)) \<noteq> 0
      then fij_stop_flip_resume_all_threads A K tgid s
      else stop_flip_resume_thread A K tgid s)"

definition inject_collected :: "arch \<Rightarrow> 'k kernel \<Rightarrow> 'k st \<Rightarrow> (int \<times> 'k st) option" where
  "inject_collected A K s = do {
     (idx, s) \<leftarrow> choose_process_index K s;
     let s = upd (upd_result (\<lambda>r. r\<lparr>pid_idx := idx\<rparr>)) s;
     tgid \<leftarrow> target_at (ctx s) idx;
     let s = upd (upd_result (\<lambda>r. r\<lparr>res_target_tgid := tgid\<rparr>)) s;
     inject_process A K tgid s
   }"

definition fij_stop_flip_resume_one_random ::
  "arch \<Rightarrow> 'k kernel \<Rightarrow> 'k st \<Rightarrow> (int \<times> 'k st) option" where
  "fij_stop_flip_resume_one_random A K s = do {
     (ret, s) \<leftarrow> fij_collect_descendants K (target_tgid (ctx s)) s;
     if ret \<noteq> 0 then Some (ret, s)
     else if ntargets (ctx s) = 0 then Some (- ESRCH, s)
     else inject_collected A K s
   }"

lemma flip_post_regs:
  "flip_post s1 ret s2 \<Longrightarrow> klog s1 = klog s \<Longrightarrow> ctx s1 = ctx s \<Longrightarrow> flip_post s ret s2"
  using flip_post_wrap [of s1 ret s2 s "[]" s2 "[]"] by (simp add: balanced_def)

lemma flip_post_einval: "klog s' = klog s \<Longrightarrow> ctx s' = ctx s \<Longrightarrow> flip_post s (- EINVAL) s'"
  by (simp add: flip_post_def same_refs_def emits_same flip_errors_def)

lemma flip_for_task_post:
  "wlp (fij_flip_for_task A K t tgid s) (\<lambda>(ret, s'). flip_post s ret s')"
  unfolding fij_flip_for_task_def
  by (auto simp: Let_def intro!: ask_wlpI choose_wlpI register_flip.inject_wlpI
      memory_flip.inject_wlpI flip_post_einval intro: flip_post_regs)

interpretation task_flip: injector "fij_flip_for_task A K t tgid"
  by unfold_locales (rule flip_for_task_post)

section \<open>The target is stopped while it is written\<close>

text \<open>The signals and stores of a log as a two-state machine: \<open>stopped\<close> is set by a
  \<open>SIGSTOP\<close> that was delivered and cleared by a \<open>SIGCONT\<close>; a store while not stopped is the
  error \<open>None\<close>.\<close>

fun sig_step :: "bool \<Rightarrow> kev \<Rightarrow> bool option" where
  "sig_step stopped (SendSig SIGSTOP t r) = Some (stopped \<or> r = 0)"
| "sig_step stopped (SendSig SIGCONT t r) = Some False"
| "sig_step stopped (RegStore r f v) = (if stopped then Some True else None)"
| "sig_step stopped (MemStore t a b) = (if stopped then Some True else None)"
| "sig_step stopped e = Some stopped"

fun sig_run :: "bool \<Rightarrow> kev list \<Rightarrow> bool option" where
  "sig_run stopped [] = Some stopped"
| "sig_run stopped (e # es) = Option.bind (sig_step stopped e) (\<lambda>st. sig_run st es)"

lemma sig_run_append:
  "sig_run st (es @ es') = Option.bind (sig_run st es) (\<lambda>st'. sig_run st' es')"
proof (induction es arbitrary: st)
  case (Cons e es)
  then show ?case by (cases "sig_step st e") simp_all
qed simp

lemma sig_run_quiet: "list_all quiet_ev es \<Longrightarrow> sig_run st es = Some st"
proof (induction es)
  case (Cons e es)
  then show ?case by (cases e) auto
qed simp

lemma sig_run_flip: "list_all flip_ev es \<Longrightarrow> sig_run True es = Some True"
proof (induction es)
  case (Cons e es)
  then show ?case by (cases e) auto
qed simp

lemma is_sleep_iff: "is_sleep e \<longleftrightarrow> e = SleepTick"
  by (cases e) auto

lemma sig_run_sleep: "list_all is_sleep es \<Longrightarrow> sig_run st es = Some st"
  by (rule sig_run_quiet) (auto simp: list_all_iff is_sleep_iff)

text \<open>The events of an injection.\<close>

fun inject_ev :: "kev \<Rightarrow> bool" where
  "inject_ev (SendSig g t r) = (g \<noteq> SIGKILL)"
| "inject_ev e = flip_ev e"

lemma flip_inject_ev: "list_all flip_ev es \<Longrightarrow> list_all inject_ev es"
proof (induction es)
  case (Cons e es)
  then show ?case by (cases e) auto
qed simp

lemma quiet_inject_ev: "list_all quiet_ev es \<Longrightarrow> list_all inject_ev es"
  by (rule flip_inject_ev) (auto simp: list_all_iff quiet_flip_ev)

text \<open>\<open>s'\<close> is reached from \<open>s\<close> by events that take the machine from \<open>st\<close> to \<open>st'\<close>, with
  the stores \<open>vs\<close>.\<close>

definition drives :: "bool \<Rightarrow> u64 list \<Rightarrow> bool \<Rightarrow> 'k st \<Rightarrow> 'k st \<Rightarrow> bool" where
  "drives st vs st' s s' \<longleftrightarrow> emits (\<lambda>es. sig_run st es = Some st' \<and> stores es = vs \<and> list_all inject_ev es) s s'"

lemma drives_trans:
  "drives st vs st' s s' \<Longrightarrow> drives st' vs' st'' s' s'' \<Longrightarrow> drives st (vs @ vs') st'' s s''"
  unfolding drives_def by (erule emits_trans, assumption) (auto simp: sig_run_append)

lemma drives_quiet: "log_ext quiet_ev s s' \<Longrightarrow> drives st [] st s s'"
  unfolding drives_def emits_iff log_ext_iff using sig_run_quiet stores_quiet quiet_inject_ev by metis

lemma drives_append:
  "klog s' = klog s @ es \<Longrightarrow> drives st vs st' s s' \<longleftrightarrow>
     sig_run st es = Some st' \<and> stores es = vs \<and> list_all inject_ev es"
  by (simp add: drives_def emits_append)

lemma drives_same: "klog s' = klog s \<Longrightarrow> drives st vs st' s s' \<longleftrightarrow> vs = [] \<and> st' = st"
  by (auto simp: drives_def emits_same)

text \<open>The values a flip stores: one on success, none otherwise.\<close>

definition flip_stores :: "int \<Rightarrow> 'k st \<Rightarrow> u64 list" where
  "flip_stores ret s' = (if ret = 0 then [target_after (ctx_result (ctx s'))] else [])"

lemma flip_post_drives: "flip_post s ret s' \<Longrightarrow> drives True (flip_stores ret s') True s s'"
  unfolding flip_post_def flip_stores_def drives_def
  by (auto split: if_splits elim!: emits_mono simp: sig_run_flip flip_inject_ev)

section \<open>Stop, wait and resume as their callers see them\<close>

definition stop_events :: "int \<Rightarrow> kev list \<Rightarrow> bool" where
  "stop_events ret es \<longleftrightarrow>
     (\<exists>t. es = [RcuLock, SendSig SIGSTOP t ret, RcuUnlock]) \<or>
     ret = - ESRCH \<and> es = [RcuLock, RcuUnlock]"

definition pid_gone :: "'k kernel \<Rightarrow> pid_t \<Rightarrow> bool" where
  "pid_gone K tgid \<longleftrightarrow> (\<exists>k. fst (k_find_get_pid K tgid k) = None)"

lemma pid_goneI: "k_find_get_pid K tgid k = (None, k') \<Longrightarrow> pid_gone K tgid"
  unfolding pid_gone_def by (metis fst_conv)

lemma group_stop_wpI:
  assumes "\<And>ret s' es. klog s' = klog s @ es \<Longrightarrow> ctx s' = ctx s \<Longrightarrow> stop_events ret es \<Longrightarrow> Q (ret, s')"
  shows "wp (fij_group_stop K tgid s) Q"
  unfolding fij_group_stop_def
  by (auto simp: Let_def stop_events_def intro!: ask_wpI send_sig_wpI assms split: option.splits)

definition cont_events :: "'k kernel \<Rightarrow> pid_t \<Rightarrow> kev list \<Rightarrow> bool" where
  "cont_events K tgid es \<longleftrightarrow>
     (\<exists>p t r. es = [GetPid p, SendSig SIGCONT t r, PutPid p]) \<or> es = [] \<and> pid_gone K tgid"

lemma send_cont_wlpI:
  assumes "\<And>ret s' es. klog s' = klog s @ es \<Longrightarrow> ctx s' = ctx s \<Longrightarrow> cont_events K tgid es \<Longrightarrow>
     Q (ret, s')"
  shows "wlp (fij_send_cont K tgid s) Q"
  unfolding fij_send_cont_def
  by (auto simp: Let_def cont_events_def intro!: ask_wlpI send_sig_wlpI assms pid_goneI
      split: option.splits)

lemma wait_stopped_wlpI:
  assumes "\<And>c s'. ctx s' = ctx s \<Longrightarrow> log_ext is_sleep s s' \<Longrightarrow> wait_code c \<Longrightarrow> Q (c, s')"
  shows "wlp (fij_wait_task_stopped K t n s) Q"
  using wait_waited by (rule wlp_mono) (auto simp: waited_def intro!: assms)

section \<open>Injection into one thread\<close>

lemma quiet_sleep: "log_ext is_sleep s s' \<Longrightarrow> log_ext quiet_ev s s'"
  by (erule log_ext_mono) (auto simp: is_sleep_iff)

lemma net_zero: "list_all P es \<Longrightarrow> (\<And>e. P e \<Longrightarrow> f e = 0) \<Longrightarrow> net f es = 0"
  by (induction es) simp_all

lemma sleep_refs: "log_ext is_sleep s s' \<Longrightarrow> same_refs s s'"
  unfolding log_ext_iff same_refs_def
  by (auto intro!: net_zero [where P = is_sleep] simp: is_sleep_iff ref_defs)

text \<open>The outcome of an attempt on one thread: \<open>n\<close> surplus task references; the machine of
  signals and stores is back in the running state unless the pid is gone.\<close>

definition resumed :: "'k kernel \<Rightarrow> pid_t \<Rightarrow> bool \<Rightarrow> bool" where
  "resumed K tgid stopped \<longleftrightarrow> (stopped \<longrightarrow> pid_gone K tgid)"

definition clear_injection :: "fij_ctx \<Rightarrow> fij_ctx" where
  "clear_injection c = clear_flip (upd_result (\<lambda>r. r\<lparr>thread_idx := 0, fault_injected := 0\<rparr>) c)"

definition same_but_injection :: "fij_ctx \<Rightarrow> fij_ctx \<Rightarrow> bool" where
  "same_but_injection c c' \<longleftrightarrow> clear_injection c' = clear_injection c"

lemma same_but_injection_trans:
  "same_but_injection c c' \<Longrightarrow> same_but_injection c' c'' \<Longrightarrow> same_but_injection c c''"
  by (simp add: same_but_injection_def)

lemma same_but_injection_refl [simp]: "same_but_injection c c"
  by (simp add: same_but_injection_def)

lemma clear_injection_flip:
  "clear_injection c = upd_result (\<lambda>r. r\<lparr>thread_idx := 0, fault_injected := 0\<rparr>) (clear_flip c)"
  by (simp add: clear_injection_def clear_flip_def)

lemma same_but_flip_injection: "same_but_flip c c' \<Longrightarrow> same_but_injection c c'"
  by (simp add: same_but_injection_def same_but_flip_def clear_injection_flip)

lemma same_but_injection_marked [simp]:
  "same_but_injection c (upd_result (\<lambda>r. r\<lparr>fault_injected := i\<rparr>) c') \<longleftrightarrow> same_but_injection c c'"
  by (simp add: same_but_injection_def clear_injection_def)

lemma same_but_thread_idx_injection: "same_but_thread_idx c c' \<Longrightarrow> same_but_injection c c'"
  by (auto simp: same_but_injection_def clear_injection_def dest!: same_but_thread_idxD)

lemma clear_injection_keeps:
  "ctx_params (clear_injection c) = ctx_params c" "target_tgid (clear_injection c) = target_tgid c"
  "targets (clear_injection c) = targets c" "ntargets (clear_injection c) = ntargets c"
  "capacity (clear_injection c) = capacity c"
  "res_target_tgid (ctx_result (clear_injection c)) = res_target_tgid (ctx_result c)"
  "pid_idx (ctx_result (clear_injection c)) = pid_idx (ctx_result c)"
  by (simp_all add: clear_injection_def clear_flip_def)

lemma same_but_injectionD:
  assumes "same_but_injection c c'"
  shows "ctx_params c' = ctx_params c" "target_tgid c' = target_tgid c"
    "targets c' = targets c" "ntargets c' = ntargets c" "capacity c' = capacity c"
    "res_target_tgid (ctx_result c') = res_target_tgid (ctx_result c)"
    "pid_idx (ctx_result c') = pid_idx (ctx_result c)"
  using assms clear_injection_keeps by (metis same_but_injection_def)+

definition thread_post :: "'k kernel \<Rightarrow> pid_t \<Rightarrow> 'k st \<Rightarrow> int \<Rightarrow> 'k st \<Rightarrow> bool" where
  "thread_post K tgid s ret s' \<longleftrightarrow>
     (\<exists>st. resumed K tgid st \<and> drives False (flip_stores ret s') st s s') \<and>
     same_locks s s' \<and>
     same_but_injection (ctx s) (ctx s') \<and>
     (if ret = 0 then
        fault_injected (ctx_result (ctx s')) = 1 \<and>
        (\<exists>b. one_bit_apart b (target_before (ctx_result (ctx s'))) (target_after (ctx_result (ctx s')))) \<and>
        net any_task_ref (klog s') = net any_task_ref (klog s) + 1
      else
        same_but_thread_idx (ctx s) (ctx s') \<and>
        net any_task_ref (klog s') - net any_task_ref (klog s) \<in> {0, 1})"

text \<open>From the moment the group is stopped, for a thread \<open>t\<close> the picker referenced.\<close>

definition stopped_post :: "'k kernel \<Rightarrow> pid_t \<Rightarrow> 'k st \<Rightarrow> int \<Rightarrow> 'k st \<Rightarrow> bool" where
  "stopped_post K tgid s ret s' \<longleftrightarrow>
     (\<exists>st. resumed K tgid st \<and> drives True (flip_stores ret s') st s s') \<and>
     same_locks s s' \<and>
     net any_task_ref (klog s') = net any_task_ref (klog s) \<and>
     same_but_injection (ctx s) (ctx s') \<and>
     (if ret = 0 then
        fault_injected (ctx_result (ctx s')) = 1 \<and>
        (\<exists>b. one_bit_apart b (target_before (ctx_result (ctx s'))) (target_after (ctx_result (ctx s'))))
      else ctx s' = ctx s)"

lemma cont_drives:
  assumes "klog s' = klog s @ es"
    and "cont_events K tgid es"
  shows "\<exists>st. resumed K tgid st \<and> drives True [] st s s'"
  using assms(2) unfolding cont_events_def
proof
  assume "\<exists>p t r. es = [GetPid p, SendSig SIGCONT t r, PutPid p]"
  then obtain p t r where es: "es = [GetPid p, SendSig SIGCONT t r, PutPid p]" by blast
  have "drives True [] False s s'" unfolding drives_append [OF assms(1)] es by simp
  moreover have "resumed K tgid False" by (simp add: resumed_def)
  ultimately show ?thesis by (intro exI [of _ False] conjI)
next
  assume gone: "es = [] \<and> pid_gone K tgid"
  then have "drives True [] True s s'" using assms(1) by (simp add: drives_same)
  moreover have "resumed K tgid True" using gone by (simp add: resumed_def)
  ultimately show ?thesis by (intro exI [of _ True] conjI)
qed

lemma cont_locks:
  assumes "klog s' = klog s @ es"
    and "cont_events K tgid es"
  shows "same_refs s s'"
  using assms by (auto simp: cont_events_def same_refs_def ref_defs)

lemma wait_flip_resume_post:
  "wlp (wait_flip_resume A K t tgid s) (\<lambda>(ret, s'). stopped_post K tgid s ret s')"
proof -
  have main: "stopped_post K tgid s ret s3"
    if sleep: "ctx s1 = ctx s" "log_ext is_sleep s s1"
      and flip: "if ret = 0 then flip_post s1 ret s2 else flip_post s1 ret s2 \<or> s2 = s1"
      and cont: "klog s3 = klog s2 @ es" "cont_events K tgid es"
      and ctx: "ctx s3 = (if ret = 0 then upd_result (\<lambda>r. r\<lparr>fault_injected := 1\<rparr>) (ctx s2) else ctx s2)"
    for ret s1 s2 s3 es
  proof -
    have d1: "drives True [] True s s1" by (intro drives_quiet quiet_sleep sleep)
    have d2: "drives True (flip_stores ret s3) True s1 s2"
      using flip ctx flip_post_drives [of s1 ret s2] drives_same [of s1 s1 True "[]" True]
      by (auto simp: flip_stores_def split: if_splits)
    obtain st where st: "resumed K tgid st" "drives True [] st s2 s3"
      using cont_drives [OF cont] by blast
    have "drives True (flip_stores ret s3) st s s3"
      using drives_trans [OF drives_trans [OF d1 d2] st(2)] by simp
    moreover have "same_refs s1 s2" using flip by (auto simp: flip_post_def split: if_splits)
    then have "same_refs s s3"
      using sleep_refs [OF sleep(2)] cont_locks [OF cont] same_refs_trans by blast
    moreover have "same_but_injection (ctx s1) (ctx s2)"
      using flip by (auto simp: flip_post_def intro: same_but_flip_injection split: if_splits)
    ultimately show ?thesis
      using st(1) flip ctx sleep(1)
      by (auto simp: stopped_post_def same_refs_locks same_refs_any flip_post_def split: if_splits)
  qed
  show ?thesis
    unfolding wait_flip_resume_def
    by (auto simp: Let_def intro!: wait_stopped_wlpI send_cont_wlpI task_flip.inject_wlpI
        intro: main split: if_splits)
qed

lemma wait_flip_resume_wlpI:
  "(\<And>ret s'. stopped_post K tgid s ret s' \<Longrightarrow> Q (ret, s')) \<Longrightarrow> wlp (wait_flip_resume A K t tgid s) Q"
  using wait_flip_resume_post by (rule wlp_mono) auto

lemma running_resumed:
  "drives False vs False s s' \<Longrightarrow> \<exists>st. resumed K tgid st \<and> drives False vs st s s'"
  by (intro exI [of _ False] conjI) (simp_all add: resumed_def)

lemma stop_drives:
  assumes "stop_events ret es" and "klog s' = klog s @ es"
  shows "drives False [] (ret = 0) s s'"
  using assms(1) unfolding drives_append [OF assms(2)] by (auto simp: stop_events_def)

lemma stop_refs: "stop_events ret es \<Longrightarrow> klog s' = klog s @ es \<Longrightarrow> same_refs s s'"
  by (auto simp: stop_events_def same_refs_def ref_defs)

lemma drives_put: "drives st vs st' s s' \<Longrightarrow> drives st vs st' s (tell K (PutTask t) s')"
  using drives_trans [of st vs st' s s' "[]" st' "tell K (PutTask t) s'"]
  by (simp add: drives_append)

lemma locks_put [simp]: "same_locks s (tell K (PutTask t) s') \<longleftrightarrow> same_locks s s'"
  by (simp add: same_locks_def ref_defs)

lemma picked_stop_failed:
  assumes pick: "picker_post K s (Some t) s1" and stop: "stop_events ret es" "klog s2 = klog s1 @ es"
      "ctx s2 = ctx s1" and "ret \<noteq> 0"
  shows "thread_post K tgid s ret (tell K (PutTask t) s2)"
proof -
  have "drives False [] False s s1" using pick by (simp add: picker_post_def drives_quiet)
  from drives_trans [OF this stop_drives [OF stop(1,2)]] assms(5)
  have d: "drives False [] False s s2" by simp
  have r: "same_refs s1 s2" using stop(1,2) by (rule stop_refs)
  have e: "\<exists>st. resumed K tgid st \<and> drives False (flip_stores ret s2) st s (tell K (PutTask t) s2)"
    using running_resumed [OF drives_put [OF d]] assms(5) by (simp add: flip_stores_def)
  have "same_locks s (tell K (PutTask t) s2)"
    using pick same_refs_locks [OF r] by (auto simp: picker_post_def intro: same_locks_trans)
  with pick e r assms(4,5) show ?thesis
    unfolding thread_post_def
    by (auto simp: picker_post_def flip_stores_def same_refs_any intro: same_but_thread_idx_injection)
qed

lemma picked_stopped:
  assumes pick: "picker_post K s (Some t) s1" and stop: "stop_events 0 es" "klog s2 = klog s1 @ es"
      "ctx s2 = ctx s1" and post: "stopped_post K tgid s2 ret s3"
  shows "thread_post K tgid s ret (tell K (PutTask t) s3)"
proof -
  have "drives False [] False s s1" using pick by (simp add: picker_post_def drives_quiet)
  from drives_trans [OF this stop_drives [OF stop(1,2)]]
  have d: "drives False [] True s s2" by simp
  obtain st where st: "resumed K tgid st" "drives True (flip_stores ret s3) st s2 s3"
    using post by (auto simp: stopped_post_def)
  have d3: "drives False (flip_stores ret s3) st s (tell K (PutTask t) s3)"
    using drives_put [OF drives_trans [OF d st(2)]] by simp
  have "same_locks s1 s2" using stop(1,2) by (intro same_refs_locks stop_refs)
  then have l: "same_locks s (tell K (PutTask t) s3)"
    using pick post by (auto simp: picker_post_def stopped_post_def intro: same_locks_trans)
  have n: "net any_task_ref (klog (tell K (PutTask t) s3)) = net any_task_ref (klog s) + 1"
    using pick post stop_refs [OF stop(1,2)]
    by (simp add: picker_post_def stopped_post_def same_refs_any)
  have c: "same_but_thread_idx (ctx s) (ctx s2)" using pick stop(3) by (simp add: picker_post_def)
  have p: "same_but_injection (ctx s) (ctx s3)"
    using same_but_thread_idx_injection [OF c] post
    by (auto simp: stopped_post_def intro: same_but_injection_trans)
  show ?thesis
    unfolding thread_post_def
    using st(1) d3 l n c p post
    by (auto simp: stopped_post_def flip_stores_def split: if_splits)
qed

lemma no_thread:
  assumes "picker_post K s None s1"
  shows "thread_post K tgid s (- ESRCH) s1"
proof -
  have "drives False [] False s s1" using assms by (simp add: picker_post_def drives_quiet)
  from running_resumed [OF this] assms show ?thesis
    unfolding thread_post_def
    by (auto simp: picker_post_def flip_stores_def intro: same_but_thread_idx_injection)
qed

lemma stop_flip_resume_thread_post:
  "wlp (stop_flip_resume_thread A K tgid s) (\<lambda>(ret, s'). thread_post K tgid s ret s')"
  unfolding stop_flip_resume_thread_def
  by (auto simp: Let_def intro!: wp_imp_wlp [OF random_picker.pick_wpI]
      wp_imp_wlp [OF index_picker.pick_wpI] wp_imp_wlp [OF group_stop_wpI] wait_flip_resume_wlpI
      no_thread intro: picked_stop_failed picked_stopped split: option.splits)

section \<open>Injection into all threads\<close>

definition loop_post :: "'k st \<Rightarrow> 'k st \<Rightarrow> bool" where
  "loop_post s s' \<longleftrightarrow>
     (\<exists>vs. drives True vs True s s') \<and> same_refs s s' \<and> same_but_flip (ctx s) (ctx s')"

lemma loop_postI:
  "drives True vs True s s' \<Longrightarrow> same_refs s s' \<Longrightarrow> same_but_flip (ctx s) (ctx s') \<Longrightarrow> loop_post s s'"
  unfolding loop_post_def by blast

lemma loop_post_refl [simp]: "loop_post s s"
  by (rule loop_postI [where vs = "[]"]) (simp_all add: drives_same)

lemma loop_post_trans: "loop_post s s' \<Longrightarrow> loop_post s' s'' \<Longrightarrow> loop_post s s''"
  unfolding loop_post_def by (meson drives_trans same_refs_trans same_but_flip_trans)

lemma loop_post_kern: "klog s1 = klog s \<Longrightarrow> ctx s1 = ctx s \<Longrightarrow> loop_post s s1"
  by (rule loop_postI [where vs = "[]"]) (simp_all add: drives_same same_refs_def)

lemma loop_post_sleep: "log_ext is_sleep s s' \<Longrightarrow> ctx s' = ctx s \<Longrightarrow> loop_post s s'"
  by (rule loop_postI [where vs = "[]"]) (simp_all add: drives_quiet quiet_sleep sleep_refs)

lemma loop_post_flip: "flip_post s ret s' \<Longrightarrow> loop_post s s'"
  by (rule loop_postI [OF flip_post_drives], assumption) (simp_all add: flip_post_def)

lemma loop_post_ref:
  assumes "loop_post (tell K (GetTask t) s) s'"
  shows "loop_post s (tell K (PutTask t) s')"
proof -
  obtain vs where vs: "drives True vs True (tell K (GetTask t) s) s'"
    using assms by (auto simp: loop_post_def)
  have "drives True [] True s (tell K (GetTask t) s)" by (simp add: drives_append)
  from drives_trans [OF this drives_put [OF vs]]
  have "drives True vs True s (tell K (PutTask t) s')" by simp
  moreover have "same_refs s (tell K (PutTask t) s')"
    using assms by (intro same_refs_wrap [of "tell K (GetTask t) s" s' s "[GetTask t]" _ "[PutTask t]"])
      (simp_all add: loop_post_def balanced_def ref_defs)
  ultimately show ?thesis using assms by (intro loop_postI) (simp_all add: loop_post_def)
qed

lemma flip_stopped_thread_wlpI:
  assumes "\<And>r d s'. loop_post s s' \<Longrightarrow> Q ((r, d), s')"
  shows "wlp (flip_stopped_thread A K tgid t did_mem s) Q"
  unfolding flip_stopped_thread_def
  by (auto simp: Let_def intro!: ask_wlpI choose_wlpI register_flip.inject_wlpI
      memory_flip.inject_wlpI assms intro: loop_post_flip [OF flip_post_regs] loop_post_kern)

lemma loop_post_step:
  assumes "log_ext is_sleep (tell K (GetTask t) s) s1" and "ctx s1 = ctx s"
    and "loop_post s1 s2" and "loop_post (tell K (PutTask t) s2) s3"
  shows "loop_post s s3"
proof -
  have "loop_post (tell K (GetTask t) s) s1" using assms(1,2) by (simp add: loop_post_sleep)
  then have "loop_post (tell K (GetTask t) s) s2" using assms(3) by (rule loop_post_trans)
  from loop_post_ref [OF this] assms(4) show ?thesis by (rule loop_post_trans)
qed

lemmas loop_post_skip = loop_post_step [OF _ _ loop_post_refl]

lemma flip_threads_post:
  "wlp (flip_threads A K tgid vs e dm s) (\<lambda>(r, s'). loop_post s s' \<and> (e \<noteq> 0 \<longrightarrow> r = e))"
proof (induction vs arbitrary: e dm s)
  case (Cons v vs)
  show ?case
    by (auto simp: Let_def intro!: wait_stopped_wlpI flip_stopped_thread_wlpI wlp_mono [OF Cons.IH]
        intro: loop_post_step loop_post_skip)
qed simp

definition all_post :: "'k kernel \<Rightarrow> pid_t \<Rightarrow> 'k st \<Rightarrow> int \<Rightarrow> 'k st \<Rightarrow> bool" where
  "all_post K tgid s ret s' \<longleftrightarrow>
     (\<exists>st vs. resumed K tgid st \<and> drives False vs st s s') \<and>
     same_locks s s' \<and> same_but_flip (ctx s) (ctx s') \<and>
     net any_task_ref (klog s') - net any_task_ref (klog s) \<in> {0, 1}"

lemma all_threads_main:
  fixes s s1 s2 s3 s4 :: "'k st"
  assumes stop: "stop_events 0 es" "klog s1 = klog s @ es" "ctx s1 = ctx s"
    and find: "klog s2 = klog s1 @ [RcuLock, RcuLock, GetTask g, RcuUnlock, GetTask g, RcuUnlock]"
      "ctx s2 = ctx s1"
    and loop: "loop_post s2 s3"
    and cont: "klog s4 = klog s3 @ es'" "ctx s4 = ctx s3" "cont_events K tgid es'"
  shows "all_post K tgid s ret (tell K (PutTask g) s4)"
proof -
  have d1: "drives False [] True s s1" using stop_drives [OF stop(1,2)] by simp
  have d2: "drives True [] True s1 s2" unfolding drives_append [OF find(1)] by simp
  obtain vs where d3: "drives True vs True s2 s3" using loop by (auto simp: loop_post_def)
  obtain st where st: "resumed K tgid st" and d4: "drives True [] st s3 s4"
    using cont_drives [OF cont(1,3)] by blast
  have d: "drives False vs st s (tell K (PutTask g) s4)"
    using drives_put [OF drives_trans [OF drives_trans [OF drives_trans [OF d1 d2] d3] d4]] by simp
  have r1: "same_refs s s1" by (rule stop_refs [OF stop(1,2)])
  have r2: "same_locks s1 s2" "net any_task_ref (klog s2) = net any_task_ref (klog s1) + 2"
    using find(1) by (simp_all add: same_locks_def ref_defs)
  have r3: "same_refs s2 s3" using loop by (simp add: loop_post_def)
  have r4: "same_refs s3 s4" using cont_locks [OF cont(1,3)] .
  have "same_locks s (tell K (PutTask g) s4)"
    using r1 r2(1) r3 r4 by (meson locks_put same_locks_trans same_refs_locks)
  moreover have "net any_task_ref (klog (tell K (PutTask g) s4)) = net any_task_ref (klog s) + 1"
    using r1 r2(2) r3 r4 by (simp add: same_refs_any)
  moreover have "same_but_flip (ctx s) (ctx (tell K (PutTask g) s4))"
    using stop(3) find(2) loop cont(2) by (simp add: loop_post_def)
  ultimately show ?thesis using st d unfolding all_post_def by auto
qed

lemma all_threads_stop_failed:
  assumes "stop_events ret es" and "klog s' = klog s @ es" and "ctx s' = ctx s" and "ret \<noteq> 0"
  shows "all_post K tgid s ret s'"
proof -
  have "drives False [] False s s'" using stop_drives [OF assms(1,2)] assms(4) by simp
  from running_resumed [OF this, of K tgid]
  have "\<exists>st vs. resumed K tgid st \<and> drives False vs st s s'" by blast
  with stop_refs [OF assms(1,2)] assms(3) show ?thesis
    unfolding all_post_def by (simp add: same_refs_locks same_refs_any)
qed

lemma all_threads_found:
  fixes s s1 s2 s3 s4 :: "'k st"
  assumes "stop_events 0 es" and "klog s1 = klog s @ es" and "ctx s1 = ctx s"
    and "klog s2 = klog s @ es @ [RcuLock, RcuLock, GetTask g, RcuUnlock]" and "ctx s2 = ctx s"
    and "loop_post (tell K RcuUnlock (tell K (GetTask g) s2)\<lparr>kern := k\<rparr>) s3"
    and "klog s4 = klog s3 @ es'" and "ctx s4 = ctx s3" and "cont_events K tgid es'"
  shows "all_post K tgid s ret (tell K (PutTask g) s4)"
  using assms(1-5) by (intro all_threads_main [OF assms(1-3) _ _ assms(6-9)]) simp_all

lemma all_threads_post:
  "wlp (fij_stop_flip_resume_all_threads A K tgid s) (\<lambda>(ret, s'). all_post K tgid s ret s')"
  unfolding fij_stop_flip_resume_all_threads_def
  by (auto simp: Let_def intro!: wp_imp_wlp [OF group_stop_wpI] wp_imp_wlp [OF fij_rcu_find_wpI]
      ask_wlpI wlp_mono [OF flip_threads_post] send_cont_wlpI
      intro: all_threads_stop_failed all_threads_found split: option.splits)

section \<open>Injection into a random process\<close>

definition clear_run :: "fij_ctx \<Rightarrow> fij_ctx" where
  "clear_run c = (clear_injection (upd_result (\<lambda>r. r\<lparr>pid_idx := 0, res_target_tgid := 0\<rparr>) c))
     \<lparr>targets := [], ntargets := 0, capacity := 0\<rparr>"

definition same_but_run :: "fij_ctx \<Rightarrow> fij_ctx \<Rightarrow> bool" where
  "same_but_run c c' \<longleftrightarrow> clear_run c' = clear_run c"

lemma same_but_run_trans: "same_but_run c c' \<Longrightarrow> same_but_run c' c'' \<Longrightarrow> same_but_run c c''"
  by (simp add: same_but_run_def)

lemma same_but_run_idx [simp]:
  "same_but_run c (upd_result (\<lambda>r. r\<lparr>pid_idx := i\<rparr>) c') \<longleftrightarrow> same_but_run c c'"
  "same_but_run c (upd_result (\<lambda>r. r\<lparr>res_target_tgid := p\<rparr>) c') \<longleftrightarrow> same_but_run c c'"
  by (simp_all add: same_but_run_def clear_run_def clear_injection_def clear_flip_def)

lemma same_but_injection_run: "same_but_injection c c' \<Longrightarrow> same_but_run c c'"
proof -
  have "clear_run c = (upd_result (\<lambda>r. r\<lparr>pid_idx := 0, res_target_tgid := 0\<rparr>) (clear_injection c))
      \<lparr>targets := [], ntargets := 0, capacity := 0\<rparr>" for c
    by (simp add: clear_run_def clear_injection_def clear_flip_def)
  then show "same_but_injection c c' \<Longrightarrow> same_but_run c c'"
    by (simp add: same_but_run_def same_but_injection_def)
qed

lemma same_but_targets_run: "same_but_targets c c' \<Longrightarrow> same_but_run c c'"
proof -
  have "clear_run c = (\<lambda>c. clear_injection (upd_result (\<lambda>r. r\<lparr>pid_idx := 0, res_target_tgid := 0\<rparr>) c))
      (c\<lparr>targets := [], ntargets := 0, capacity := 0\<rparr>)" for c
    by (simp add: clear_run_def clear_injection_def clear_flip_def)
  note clear = this
  assume "same_but_targets c c'"
  then show "same_but_run c c'"
    unfolding same_but_run_def same_but_targets_def clear by (rule arg_cong)
qed

lemma clear_run_keeps:
  "ctx_params (clear_run c) = ctx_params c" "target_tgid (clear_run c) = target_tgid c"
  "running (clear_run c) = running c" "target_alive (clear_run c) = target_alive c"
  "bitflip_thread (clear_run c) = bitflip_thread c" "inj_inode (clear_run c) = inj_inode c"
  "pc_monitor_thread (clear_run c) = pc_monitor_thread c" "inj_uprobe (clear_run c) = inj_uprobe c"
  "uprobe_active (clear_run c) = uprobe_active c" "monitor_done (clear_run c) = monitor_done c"
  "bitflip_done (clear_run c) = bitflip_done c" "flip_triggered (clear_run c) = flip_triggered c"
  "uprobe_disarm_queued (clear_run c) = uprobe_disarm_queued c"
  by (simp_all add: clear_run_def clear_injection_def clear_flip_def)

lemma same_but_runD:
  assumes "same_but_run c c'"
  shows "ctx_params c' = ctx_params c" "target_tgid c' = target_tgid c"
    "running c' = running c" "target_alive c' = target_alive c"
    "bitflip_thread c' = bitflip_thread c" "inj_inode c' = inj_inode c"
    "pc_monitor_thread c' = pc_monitor_thread c" "inj_uprobe c' = inj_uprobe c"
    "uprobe_active c' = uprobe_active c" "monitor_done c' = monitor_done c"
    "bitflip_done c' = bitflip_done c" "flip_triggered c' = flip_triggered c"
    "uprobe_disarm_queued c' = uprobe_disarm_queued c"
  using assms clear_run_keeps by (metis same_but_run_def)+

text \<open>What an injection leaves behind, in both modes.\<close>

definition inject_post :: "'k kernel \<Rightarrow> 'k st \<Rightarrow> int \<Rightarrow> 'k st \<Rightarrow> bool" where
  "inject_post K s ret s' \<longleftrightarrow>
     targets_wf (ctx s') \<and> same_locks s s' \<and> same_but_run (ctx s) (ctx s') \<and>
     net any_task_ref (klog s') - net any_task_ref (klog s) \<in> {0, 1} \<and>
     (\<exists>st vs. resumed K (res_target_tgid (ctx_result (ctx s'))) st \<and> drives False vs st s s' \<and>
        (all_threads (ctx_params (ctx s)) = 0 \<longrightarrow> vs = flip_stores ret s')) \<and>
     (if all_threads (ctx_params (ctx s)) = 0 \<and> ret = 0 then
        fault_injected (ctx_result (ctx s')) = 1 \<and>
        (\<exists>b. one_bit_apart b (target_before (ctx_result (ctx s'))) (target_after (ctx_result (ctx s'))))
      else fault_injected (ctx_result (ctx s')) = fault_injected (ctx_result (ctx s)))"

lemma targets_wf_injection:
  assumes "same_but_injection c c'"
  shows "targets_wf c' \<longleftrightarrow> targets_wf c"
  using same_but_injectionD [OF assms] by (simp add: targets_wf_def)

text \<open>The state in which the process is chosen: the table has been filled and nothing else
  has happened that the target could see.\<close>

definition chosen :: "'k st \<Rightarrow> pid_t \<Rightarrow> 'k st \<Rightarrow> bool" where
  "chosen s tgid s' \<longleftrightarrow>
     targets_wf (ctx s') \<and> same_refs s s' \<and> log_ext quiet_ev s s' \<and>
     same_but_run (ctx s) (ctx s') \<and> res_target_tgid (ctx_result (ctx s')) = tgid \<and>
     fault_injected (ctx_result (ctx s')) = fault_injected (ctx_result (ctx s))"

lemma chosen_drives: "chosen s tgid s' \<Longrightarrow> drives False [] False s s'"
  by (simp add: chosen_def drives_quiet)

lemma inject_post_thread:
  fixes s s1 s2 :: "'k st"
  assumes "chosen s tgid s1" and "all_threads (ctx_params (ctx s1)) = 0"
    and post: "thread_post K tgid s1 ret s2"
  shows "inject_post K s ret s2"
proof -
  have inj: "same_but_injection (ctx s1) (ctx s2)" using post by (simp add: thread_post_def)
  obtain st where st: "resumed K tgid st" "drives False (flip_stores ret s2) st s1 s2"
    using post by (auto simp: thread_post_def)
  have d: "drives False (flip_stores ret s2) st s s2"
    using drives_trans [OF chosen_drives [OF assms(1)] st(2)] by simp
  have r: "same_refs s s1" "same_but_run (ctx s) (ctx s1)" using assms(1) by (simp_all add: chosen_def)
  have b: "same_but_run (ctx s) (ctx s2)"
    using r(2) same_but_injection_run [OF inj] by (rule same_but_run_trans)
  have l: "same_locks s s2"
    using same_refs_locks [OF r(1)] post by (auto simp: thread_post_def intro: same_locks_trans)
  have wf: "targets_wf (ctx s2)"
    using targets_wf_injection [OF inj] assms(1) by (simp add: chosen_def)
  have tg: "res_target_tgid (ctx_result (ctx s2)) = tgid"
    using same_but_injectionD [OF inj] assms(1) by (simp add: chosen_def)
  have all: "all_threads (ctx_params (ctx s)) = 0"
    using same_but_runD(1) [OF r(2)] assms(2) by simp
  have n: "net any_task_ref (klog s2) - net any_task_ref (klog s) \<in> {0, 1}"
    using post same_refs_any [OF r(1)] by (auto simp: thread_post_def split: if_splits)
  have f: "if ret = 0 then fault_injected (ctx_result (ctx s2)) = 1 \<and>
        (\<exists>b. one_bit_apart b (target_before (ctx_result (ctx s2))) (target_after (ctx_result (ctx s2))))
      else fault_injected (ctx_result (ctx s2)) = fault_injected (ctx_result (ctx s))"
    using post assms(1)
    by (auto simp: thread_post_def chosen_def dest!: same_but_thread_idxD split: if_splits)
  have "\<exists>st vs. resumed K tgid st \<and> drives False vs st s s2 \<and>
      (all_threads (ctx_params (ctx s)) = 0 \<longrightarrow> vs = flip_stores ret s2)"
    using st(1) d all by blast
  then show ?thesis unfolding inject_post_def tg using wf l b n f all by simp
qed

lemma inject_post_all:
  fixes s s1 s2 :: "'k st"
  assumes "chosen s tgid s1" and "all_threads (ctx_params (ctx s1)) \<noteq> 0"
    and post: "all_post K tgid s1 ret s2"
  shows "inject_post K s ret s2"
proof -
  have flip: "same_but_flip (ctx s1) (ctx s2)" using post by (simp add: all_post_def)
  note inj = same_but_flip_injection [OF flip]
  obtain st vs where st: "resumed K tgid st" "drives False vs st s1 s2"
    using post by (auto simp: all_post_def)
  have d: "drives False vs st s s2"
    using drives_trans [OF chosen_drives [OF assms(1)] st(2)] by simp
  have r: "same_refs s s1" "same_but_run (ctx s) (ctx s1)" using assms(1) by (simp_all add: chosen_def)
  have b: "same_but_run (ctx s) (ctx s2)"
    using r(2) same_but_injection_run [OF inj] by (rule same_but_run_trans)
  have l: "same_locks s s2"
    using same_refs_locks [OF r(1)] post by (auto simp: all_post_def intro: same_locks_trans)
  have wf: "targets_wf (ctx s2)"
    using targets_wf_injection [OF inj] assms(1) by (simp add: chosen_def)
  have tg: "res_target_tgid (ctx_result (ctx s2)) = tgid"
    using same_but_injectionD [OF inj] assms(1) by (simp add: chosen_def)
  have all: "all_threads (ctx_params (ctx s)) \<noteq> 0"
    using same_but_runD(1) [OF r(2)] assms(2) by simp
  have n: "net any_task_ref (klog s2) - net any_task_ref (klog s) \<in> {0, 1}"
    using post same_refs_any [OF r(1)] by (simp add: all_post_def)
  have f: "fault_injected (ctx_result (ctx s2)) = fault_injected (ctx_result (ctx s))"
    using same_but_flipD(3) [OF flip] assms(1) by (simp add: chosen_def)
  have "\<exists>st vs. resumed K tgid st \<and> drives False vs st s s2 \<and>
      (all_threads (ctx_params (ctx s)) = 0 \<longrightarrow> vs = flip_stores ret s2)"
    using st(1) d all by blast
  then show ?thesis unfolding inject_post_def tg using wf l b n f all by simp
qed

lemma same_but_targets_result:
  assumes "same_but_targets c c'"
  shows "ctx_result c' = ctx_result c"
proof -
  have "ctx_result (c'\<lparr>targets := [], ntargets := 0, capacity := 0\<rparr>) =
      ctx_result (c\<lparr>targets := [], ntargets := 0, capacity := 0\<rparr>)"
    using assms by (simp only: same_but_targets_def)
  then show ?thesis by simp
qed

lemma chosenI:
  assumes "collected K root s ret s1" and "klog s2 = klog s1" and "ctx s2 = ctx s1"
  shows "chosen s tgid (upd (upd_result (\<lambda>r. r\<lparr>res_target_tgid := tgid\<rparr>))
           (upd (upd_result (\<lambda>r. r\<lparr>pid_idx := i\<rparr>)) s2))"
proof -
  have tg: "same_but_targets (ctx s) (ctx s1)" using assms(1) by (simp add: collected_def)
  have "same_but_run (ctx s) (upd_result (\<lambda>r. r\<lparr>res_target_tgid := tgid\<rparr>)
      (upd_result (\<lambda>r. r\<lparr>pid_idx := i\<rparr>) (ctx s1)))"
    by (simp only: same_but_run_idx same_but_targets_run [OF tg])
  with same_but_targets_result [OF tg] assms show ?thesis
    by (auto simp: chosen_def collected_def targets_wf_def same_but_targets_run same_refs_def log_ext_def)
qed

lemma choose_index_wlpI:
  assumes "\<And>i s'. klog s' = klog s \<Longrightarrow> ctx s' = ctx s \<Longrightarrow> Q (i, s')"
  shows "wlp (choose_process_index K s) Q"
  unfolding choose_process_index_def by (auto simp: Let_def intro!: ask_wlpI assms)

lemma target_at_wlpI: "(\<And>p. Q p) \<Longrightarrow> wlp (target_at c i) Q"
  by (simp add: wlp_def)

lemma inject_post_none:
  assumes "collected K root s ret' s1" and "ret \<noteq> 0"
  shows "inject_post K s ret s1"
proof -
  have "same_refs s s1" "targets_wf (ctx s1)" "same_but_run (ctx s) (ctx s1)" "drives False [] False s s1"
    using assms(1) by (auto simp: collected_def drives_quiet same_but_targets_run)
  moreover have "fault_injected (ctx_result (ctx s1)) = fault_injected (ctx_result (ctx s))"
    using chosenI [OF assms(1) refl refl] by (simp add: chosen_def)
  moreover have "\<exists>st vs. resumed K t st \<and> drives False vs st s s1 \<and>
      (all_threads (ctx_params (ctx s)) = 0 \<longrightarrow> vs = flip_stores ret s1)" for t
    using running_resumed [OF calculation(4), of K t] assms(2) by (auto simp: flip_stores_def)
  ultimately show ?thesis
    using assms(2) unfolding inject_post_def by (simp add: same_refs_locks same_refs_any)
qed

lemma inject_process_wlpI:
  fixes s s1 :: "'k st"
  assumes "chosen s tgid s1" and "\<And>ret s'. inject_post K s ret s' \<Longrightarrow> Q (ret, s')"
  shows "wlp (inject_process A K tgid s1) Q"
  unfolding inject_process_def
  by (auto intro!: wlp_mono [OF all_threads_post] wlp_mono [OF stop_flip_resume_thread_post]
      assms(2) intro: inject_post_all [OF assms(1)] inject_post_thread [OF assms(1)])

lemma inject_collected_wlpI:
  fixes s s1 :: "'k st"
  assumes "collected K root s 0 s1" and "\<And>ret s'. inject_post K s ret s' \<Longrightarrow> Q (ret, s')"
  shows "wlp (inject_collected A K s1) Q"
  unfolding inject_collected_def
  by (auto simp: Let_def intro!: choose_index_wlpI target_at_wlpI
      inject_process_wlpI [OF chosenI [OF assms(1)]] assms(2))

lemma one_random_post:
  assumes "targets_wf (ctx s)"
  shows "wlp (fij_stop_flip_resume_one_random A K s) (\<lambda>(ret, s'). inject_post K s ret s')"
  unfolding fij_stop_flip_resume_one_random_def
  by (auto intro!: wp_imp_wlp [OF wp_mono [OF collect_descendants_wp [OF assms]]]
      inject_collected_wlpI intro: inject_post_none)

section \<open>The chosen process\<close>

lemma choose_index_range:
  assumes "random_below_law K" and "ntargets (ctx s) \<noteq> 0" and "int (ntargets (ctx s)) < 2 ^ 31"
    and "process_present (ctx_params (ctx s)) = 0 \<or> nprocess (ctx_params (ctx s)) \<noteq> int (ntargets (ctx s))"
  shows "wp (choose_process_index K s) (\<lambda>(i, s'). 0 \<le> i \<and> i < int (ntargets (ctx s)) \<and>
     klog s' = klog s \<and> ctx s' = ctx s)"
proof -
  let ?c = "word_of_int (int (ntargets (ctx s))) :: u32"
  have c: "uint ?c = int (ntargets (ctx s))"
    using assms(3) by (subst uint_word_of_int) simp
  then have "?c \<noteq> 0" using assms(2) by (metis of_nat_eq_0_iff unsigned_0)
  then have "0 < ?c" by (simp add: word_gt_0)
  then have r: "fst (k_random_u32_below K ?c k) < ?c" for k
    using assms(1) by (simp add: random_below_law_def)
  have range: "0 \<le> sint (fst (k_random_u32_below K ?c k)) \<and>
      sint (fst (k_random_u32_below K ?c k)) < int (ntargets (ctx s))" for k
  proof -
    let ?r = "fst (k_random_u32_below K ?c k)"
    have lt: "uint ?r < int (ntargets (ctx s))" using r [of k] c unfolding word_less_def by simp
    then have "uint ?r < 2 ^ 31" using assms(3) by linarith
    moreover have "- (2 ^ 31) \<le> uint ?r" by (rule order_trans [of _ 0]) simp_all
    ultimately have "sint ?r = uint ?r"
      unfolding sint_uint by (intro signed_take_bit_int_eq_self) simp_all
    with lt show ?thesis by simp
  qed
  show ?thesis
    using assms(4) range by (auto simp: choose_process_index_def Let_def ask_eq)
qed

section \<open>Properties\<close>

text \<open>C1: the central promise of an injection into one thread: whatever the kernel answers, a
  call that reports success has changed exactly one bit of the target, once: one value
  is stored, it is the recorded one, it differs from the recorded one before in a single bit, and
  \<open>fault_injected\<close> is set. A call that reports an error has stored nothing and has not set
  \<open>fault_injected\<close>. The parameters and the state of the run are untouched either way.\<close>

theorem injection_flips_exactly_one_bit:
  assumes "targets_wf (ctx s)" and "all_threads (ctx_params (ctx s)) = 0"
    and "fij_stop_flip_resume_one_random A K s = Some (ret, s')"
  shows "same_but_run (ctx s) (ctx s') \<and>
    (if ret = 0
     then stores (drop (length (klog s)) (klog s')) = [target_after (ctx_result (ctx s'))] \<and>
          (\<exists>b. one_bit_apart b (target_before (ctx_result (ctx s'))) (target_after (ctx_result (ctx s')))) \<and>
          fault_injected (ctx_result (ctx s')) = 1
     else stores (drop (length (klog s)) (klog s')) = [] \<and>
          fault_injected (ctx_result (ctx s')) = fault_injected (ctx_result (ctx s)))"
proof -
  from wlpD [OF one_random_post [OF assms(1)] assms(3)]
  have post: "inject_post K s ret s'" by simp
  then obtain st where "drives False (flip_stores ret s') st s s'"
    using assms(2) unfolding inject_post_def by blast
  then have "stores (drop (length (klog s)) (klog s')) = flip_stores ret s'"
    by (simp add: drives_def emits_def)
  with post assms(2) show ?thesis unfolding inject_post_def flip_stores_def by presburger
qed


text \<open>C32: an injection gives back all it takes on every path, error paths included: pids,
  address spaces, their locks and the RCU sections are balanced and the table of targets stays
  inside its allocation. The one exception is the leader reference that the pickers leak: at
  most one task reference is left over.\<close>

theorem injection_balances_locks:
  assumes "targets_wf (ctx s)" and "fij_stop_flip_resume_one_random A K s = Some (ret, s')"
  shows "(\<forall>p. net (pid_ref p) (klog s') = net (pid_ref p) (klog s)) \<and>
    (\<forall>m. net (mm_ref m) (klog s') = net (mm_ref m) (klog s)) \<and>
    (\<forall>m. net (mmap_depth m) (klog s') = net (mmap_depth m) (klog s)) \<and>
    net rcu_depth (klog s') = net rcu_depth (klog s) \<and>
    net any_task_ref (klog s') - net any_task_ref (klog s) \<in> {0, 1} \<and>
    targets_wf (ctx s')"
proof -
  from wlpD [OF one_random_post [OF assms(1)] assms(2)]
  have "inject_post K s ret s'" by simp
  then show ?thesis unfolding inject_post_def same_locks_def by blast
qed

text \<open>Injecting into all threads of a process never sets \<open>fault_injected\<close>, whatever was
  written, and the first error met is what the loop returns even if other threads were hit: an
  error once seen is never cleared by a later success.\<close>

theorem all_threads_report:
  assumes "fij_stop_flip_resume_all_threads A K tgid s = Some (ret, s')"
  shows "fault_injected (ctx_result (ctx s')) = fault_injected (ctx_result (ctx s)) \<and>
    (e \<noteq> 0 \<and> flip_threads A K tgid vs e dm s1 = Some (ret1, s1') \<longrightarrow> ret1 = e)"
proof -
  from wlpD [OF all_threads_post assms] have "same_but_flip (ctx s) (ctx s')"
    by (simp add: all_post_def)
  moreover have "e \<noteq> 0 \<and> flip_threads A K tgid vs e dm s1 = Some (ret1, s1') \<longrightarrow> ret1 = e"
    using flip_threads_post [of A K tgid vs e dm s1] by (auto simp: wlp_def)
  ultimately show ?thesis using same_but_flipD(3) by blast
qed

text \<open>The bound on the requested process index is off by one: an index equal to the
  number of targets is accepted without a draw. It names no entry of the table: the read
  leaves the allocation when the table is full, and otherwise returns what an earlier run or
  the allocator left behind the last entry.\<close>

theorem process_index_off_by_one:
  assumes "targets_wf (ctx s)" and "process_present (ctx_params (ctx s)) \<noteq> 0"
    and "nprocess (ctx_params (ctx s)) = int (ntargets (ctx s))"
  shows "choose_process_index K s = Some (int (ntargets (ctx s)), s) \<and>
    target_at (ctx s) (int (ntargets (ctx s))) =
      (if ntargets (ctx s) = capacity (ctx s) then None else Some (targets (ctx s) ! ntargets (ctx s)))"
  using assms by (auto simp: choose_process_index_def target_at_def targets_wf_def Let_def)

text \<open>With any other request, or none, the chosen process is an entry of the table the
  walk over the process tree has just filled.\<close>

theorem process_index_in_table:
  assumes "targets_wf (ctx s)" and "random_below_law K" and "ntargets (ctx s) \<noteq> 0"
    and "int (ntargets (ctx s)) < 2 ^ 31"
    and "process_present (ctx_params (ctx s)) = 0 \<or> nprocess (ctx_params (ctx s)) \<noteq> int (ntargets (ctx s))"
  shows "\<exists>i s' tgid. choose_process_index K s = Some (i, s') \<and> target_at (ctx s') i = Some tgid \<and>
    tgid \<in> set (target_table (ctx s))"
proof -
  obtain i s' where i: "choose_process_index K s = Some (i, s')" "0 \<le> i" "i < int (ntargets (ctx s))"
    "ctx s' = ctx s"
    using choose_index_range [OF assms(2-5)] by (auto simp: wp_def)
  have n: "nat i < ntargets (ctx s)" using i(2,3) by linarith
  then have "nat i < length (target_table (ctx s))" "target_table (ctx s) ! nat i = targets (ctx s) ! nat i"
    "nat i < length (targets (ctx s))"
    using assms(1) by (auto simp: target_table_def targets_wf_def)
  then have "target_at (ctx s') i = Some (target_table (ctx s) ! nat i)"
    "target_table (ctx s) ! nat i \<in> set (target_table (ctx s))"
    using i(2,4) nth_mem [of "nat i" "target_table (ctx s)"] by (simp_all add: target_at_def)
  with i(1) show ?thesis by blast
qed

section \<open>Witnesses\<close>

text \<open>A run of the demo kernel: process 100, register RIP, bit 4.\<close>

definition demo_params :: fij_params where
  "demo_params = zero_params\<lparr>target_reg := 9, reg_bit := 4, reg_bit_present := 1\<rparr>"

definition demo_run :: "fij_params \<Rightarrow> unit st" where
  "demo_run prm = upd (\<lambda>c. c\<lparr>target_tgid := 100, target_alive := True,
     exec := (exec c)\<lparr>params := prm\<rparr>\<rparr>) demo_st"

lemma demo_run_wf: "targets_wf (ctx (demo_run prm))"
  by (simp add: targets_wf_def demo_run_def demo_st_def fij_ctx_init_def fij_uprobe_init_work_def
      zero_ctx_def)

lemmas inject_code_simps =
  fij_stop_flip_resume_one_random_def inject_collected_def inject_process_def
  stop_flip_resume_thread_def wait_flip_resume_def fij_flip_for_task_def
  fij_stop_flip_resume_all_threads_def flip_stopped_thread_def choose_process_index_def
  target_at_def fij_collect_descendants_def ensure_capacity_def fij_group_stop_def send_sig_def
  fij_send_cont_def fij_wait_task_stopped_def wait_loop.simps wait_pass_def
  fij_pick_random_user_thread_def fij_rcu_find_get_task_by_tgid_def count_eligible_def eligible_def
  fij_flip_register_from_ptregs_def choose_reg_def choose_bit_def choose_register_target_def
  weight_total_def U32_MAX_def reg_ptr_slot slot_def reg_of_id_def x86_regs_def
  fij_count_descendants_rcu_def put_pid_at_def fij_collect_descendants_preorder_rcu_def

lemmas inject_run_simps =
  inject_code_simps demo_tree_of_def demo_tree_def demo_threads_def demo_def demo_st_def demo_run_def demo_params_def
  fij_ctx_init_def fij_uprobe_init_work_def zero_ctx_def zero_params_def

lemma demo_injection:
  "\<exists>s'. fij_stop_flip_resume_one_random CONFIG_X86 demo (demo_run demo_params) = Some (0, s')"
  by (simp add: inject_run_simps ask_eq Let_def flip: numeral_2_eq_2)

lemma demo_run_params [simp]: "ctx_params (ctx (demo_run prm)) = prm"
  by (simp add: demo_run_def)

lemma demo_run_result [simp]: "ctx_result (ctx (demo_run prm)) = zero_result"
  by (simp add: demo_run_def demo_st_def fij_ctx_init_def fij_uprobe_init_work_def zero_ctx_def)

theorem injection_flips_exactly_one_bit_witness:
  "\<exists>s'. fij_stop_flip_resume_one_random CONFIG_X86 demo (demo_run demo_params) = Some (0, s') \<and>
     fault_injected (ctx_result (ctx s')) = 1"
proof -
  obtain s' where run: "fij_stop_flip_resume_one_random CONFIG_X86 demo (demo_run demo_params) = Some (0, s')"
    using demo_injection by blast
  have one: "all_threads (ctx_params (ctx (demo_run demo_params))) = 0"
    by (simp add: demo_params_def zero_params_def)
  from injection_flips_exactly_one_bit [OF demo_run_wf one run] run show ?thesis by auto
qed


theorem injection_balances_locks_witness:
  "\<exists>s'. fij_stop_flip_resume_one_random CONFIG_X86 demo (demo_run demo_params) = Some (0, s') \<and>
     targets_wf (ctx s')"
  using demo_injection injection_balances_locks [OF demo_run_wf] by blast

lemma demo_all_threads:
  "\<exists>s'. fij_stop_flip_resume_all_threads CONFIG_X86 demo 100 (demo_run demo_params) = Some (0, s') \<and>
     stores (klog s') = [0xEF, 0xEF]"
  by (simp add: inject_run_simps ask_eq Let_def)

theorem all_threads_report_witness:
  "\<exists>s'. fij_stop_flip_resume_all_threads CONFIG_X86 demo 100 (demo_run demo_params) = Some (0, s') \<and>
     stores (klog s') = [0xEF, 0xEF] \<and> fault_injected (ctx_result (ctx s')) = 0"
proof -
  obtain s' where run: "fij_stop_flip_resume_all_threads CONFIG_X86 demo 100 (demo_run demo_params) = Some (0, s')"
    and st: "stores (klog s') = [0xEF, 0xEF]" using demo_all_threads by blast
  from all_threads_report [OF run] run st show ?thesis by (simp add: zero_result_def)
qed

text \<open>A table with one target, full, and a request for the process with index \<open>i\<close>.\<close>

definition demo_table :: "int \<Rightarrow> unit st" where
  "demo_table i = upd (\<lambda>c. c\<lparr>targets := [100], ntargets := 1, capacity := 1\<rparr>)
     (demo_run (zero_params\<lparr>process_present := 1, nprocess := i\<rparr>))"

theorem process_index_off_by_one_witness:
  "choose_process_index demo (demo_table 1) = Some (1, demo_table 1) \<and>
   target_at (ctx (demo_table 1)) 1 = None"
  using process_index_off_by_one [of "demo_table 1" demo]
  by (simp add: demo_table_def targets_wf_def)

theorem process_index_in_table_witness:
  "\<exists>i s' tgid. choose_process_index demo (demo_table 7) = Some (i, s') \<and>
     target_at (ctx s') i = Some tgid \<and> tgid \<in> {100}"
  using process_index_in_table [of "demo_table 7" demo] demo_random_below_law
  by (simp add: demo_table_def targets_wf_def target_table_def)

end
