(* ===== verification/Fij_Uprobe.thy ===== *)
theory Fij_Uprobe
  imports Fij_Inject
begin

text \<open>
  \<open>core/uprobe.c\<close>: the probe that triggers an injection when the target reaches a given
  program counter. It is armed at most once, fires, and is disarmed by a work item, or
  synchronously when the run ends. The invariant \<open>probe_inv\<close> ties the three pieces of state
  the code keeps about it (\<open>uprobe_active\<close>, \<open>inj_uprobe\<close>, \<open>inj_inode\<close>) to the registrations
  and inode references on the log. The locale \<open>probe_user\<close> is the interface the monitor and
  the release of the device rely on.
\<close>

section \<open>Work items\<close>

text \<open>\<open>schedule_work\<close> queues an item unless it is pending; \<open>flush_work\<close> returns when a pending item
  has run; \<open>cancel_work_sync\<close> takes it off the queue.\<close>

definition schedule_work :: "'k kernel \<Rightarrow> callback \<Rightarrow> 'k st \<Rightarrow> 'k st" where
  "schedule_work K w s = (let s = tell K (ScheduleWork w) s in
     s\<lparr>work := (if w \<in> set (work s) then work s else work s @ [w])\<rparr>)"

definition flush_work :: "'k kernel \<Rightarrow> callback \<Rightarrow> ('k st \<Rightarrow> 'k st) \<Rightarrow> 'k st \<Rightarrow> 'k st" where
  "flush_work K w run s = (let s = tell K (FlushWork w) s in
     if w \<in> set (work s) then run (s\<lparr>work := filter (\<lambda>v. v \<noteq> w) (work s)\<rparr>) else s)"

definition cancel_work_sync :: "'k kernel \<Rightarrow> callback \<Rightarrow> 'k st \<Rightarrow> 'k st" where
  "cancel_work_sync K w s = (let s = tell K (CancelWork w) s in
     s\<lparr>work := filter (\<lambda>v. v \<noteq> w) (work s)\<rparr>)"

section \<open>The code\<close>

text \<open>The block shared by the work function and the synchronous disarm (lines 10 to 20).\<close>

definition uprobe_disarm_workfn :: "'k kernel \<Rightarrow> 'k st \<Rightarrow> 'k st" where
  "uprobe_disarm_workfn K s =
     (let s = (case inj_uprobe (ctx s) of
            None \<Rightarrow> s
          | Some u \<Rightarrow>
              if uprobe_active (ctx s) then
                upd (\<lambda>c. c\<lparr>inj_uprobe := None, uprobe_active := False\<rparr>)
                  (tell K UprobeUnregisterSync (tell K (UprobeUnregister u) s))
              else s);
          s = (case inj_inode (ctx s) of
            None \<Rightarrow> s
          | Some i \<Rightarrow> upd (\<lambda>c. c\<lparr>inj_inode := None\<rparr>) (tell K (Iput i) s))
      in upd (\<lambda>c. c\<lparr>uprobe_disarm_queued := 0\<rparr>) s)"

definition fij_uprobe_schedule_disarm :: "'k kernel \<Rightarrow> 'k st \<Rightarrow> 'k st" where
  "fij_uprobe_schedule_disarm K s =
     (if uprobe_active (ctx s) \<and> inj_uprobe (ctx s) \<noteq> None then
        (let old = uprobe_disarm_queued (ctx s);
             s = upd (\<lambda>c. c\<lparr>uprobe_disarm_queued := 1\<rparr>) s
         in if old = 0 then schedule_work K Uprobe_disarm_workfn s else s)
      else s)"

definition fij_uprobe_post_actions :: "'k kernel \<Rightarrow> 'k st \<Rightarrow> 'k st" where
  "fij_uprobe_post_actions K s =
     (if uprobe_active (ctx s) \<and> inj_uprobe (ctx s) \<noteq> None then
        (let old = uprobe_disarm_queued (ctx s);
             s = upd (\<lambda>c. c\<lparr>uprobe_disarm_queued := 1\<rparr>) s
         in if old = 0 then schedule_work K Uprobe_disarm_workfn s else s)
      else s)"

definition inject_workfn :: "arch \<Rightarrow> 'k kernel \<Rightarrow> 'k st \<Rightarrow> 'k st option" where
  "inject_workfn A K s = do {
     (_, s) \<leftarrow> fij_stop_flip_resume_one_random A K s;
     let s = fij_uprobe_schedule_disarm K s;
     Some (upd (\<lambda>c. c\<lparr>inject_work_queued := 0\<rparr>) s)
   }"

definition uprobe_filter :: "'k kernel \<Rightarrow> mm \<Rightarrow> 'k st \<Rightarrow> (bool \<times> 'k st) option" where
  "uprobe_filter K m s = do {
     let want = target_tgid (ctx s);
     let s = tell K RcuLock s;
     (owner, s) \<leftarrow> ask (k_mm_owner_tgid K m) s;
     let have = (case owner of None \<Rightarrow> 0 | Some p \<Rightarrow> p);
     let s = tell K RcuUnlock s;
     Some (have = want, s)
   }"

definition uprobe_hit :: "'k kernel \<Rightarrow> 'k st \<Rightarrow> int \<times> 'k st" where
  "uprobe_hit K s =
     (let old = flip_triggered (ctx s);
          s = upd (\<lambda>c. c\<lparr>flip_triggered := 1\<rparr>) s;
          s = (if old = 0 then tell K WakeUpFlip s else s);
          s = fij_uprobe_post_actions K s
      in (0, s))"

text \<open>Lines 123 to 138: the file and the offset of the target address.\<close>

definition uprobe_resolve :: "'k kernel \<Rightarrow> u64 \<Rightarrow> 'k st \<Rightarrow> (int \<times> 'k st) option" where
  "uprobe_resolve K target_va s = do {
     let s = tell K RcuLock s;
     (p, s) \<leftarrow> ask (k_find_get_pid K (target_tgid (ctx s))) s;
     let s = (case p of None \<Rightarrow> s | Some p \<Rightarrow> tell K (GetPid p) s);
     (t, s) \<leftarrow> (case p of None \<Rightarrow> Some (None, s) | Some p \<Rightarrow> ask (k_pidref_task K p) s);
     let s = (case t of None \<Rightarrow> s | Some t \<Rightarrow> tell K (GetTask t) s);
     let s = tell K RcuUnlock s;
     let put = (\<lambda>s. case p of None \<Rightarrow> s | Some p \<Rightarrow> tell K (PutPid p) s);
     case t of
       None \<Rightarrow> Some (- ESRCH, put s)
     | Some t \<Rightarrow> do {
         ((err, i, off), s) \<leftarrow> fij_va_to_file_off K t target_va (inj_inode (ctx s)) (inj_off (ctx s)) s;
         let s = upd (\<lambda>c. c\<lparr>inj_inode := i, inj_off := off\<rparr>) s;
         let s = put (tell K (PutTask t) s);
         if err \<noteq> 0 then Some (err, upd (\<lambda>c. c\<lparr>inj_inode := None\<rparr>) s)
         else Some (0, s)
       }
   }"

definition fij_uprobe_arm :: "'k kernel \<Rightarrow> u64 \<Rightarrow> 'k st \<Rightarrow> (int \<times> 'k st) option" where
  "fij_uprobe_arm K target_va s =
     (if uprobe_active (ctx s) then Some (- EBUSY, s)
      else do {
        (err, s) \<leftarrow> uprobe_resolve K target_va s;
        if err \<noteq> 0 then Some (err, s)
        else do {
          let s = upd (\<lambda>c. c\<lparr>uc := \<lparr>handler = Some Uprobe_hit, ret_handler = None,
                               ufilter = Some Uprobe_filter\<rparr>\<rparr>) s;
          (u, s) \<leftarrow> ask (k_uprobe_register K (inj_inode (ctx s)) (inj_off (ctx s))) s;
          case u of
            Inl err \<Rightarrow> do {
              let s = (case inj_inode (ctx s) of None \<Rightarrow> s | Some i \<Rightarrow> tell K (Iput i) s);
              Some (err, upd (\<lambda>c. c\<lparr>inj_inode := None, inj_uprobe := None\<rparr>) s)
            }
          | Inr u \<Rightarrow>
              Some (0, upd (\<lambda>c. c\<lparr>inj_uprobe := Some u, uprobe_active := True\<rparr>)
                         (noted (UprobeRegister u) s))
        }
      })"

definition fij_uprobe_disarm_sync :: "'k kernel \<Rightarrow> 'k st \<Rightarrow> 'k st" where
  "fij_uprobe_disarm_sync K s =
     (let s = flush_work K Uprobe_disarm_workfn (uprobe_disarm_workfn K) s;
          s = (case inj_uprobe (ctx s) of
            None \<Rightarrow> s
          | Some u \<Rightarrow>
              if uprobe_active (ctx s) then
                upd (\<lambda>c. c\<lparr>inj_uprobe := None, uprobe_active := False\<rparr>)
                  (tell K UprobeUnregisterSync (tell K (UprobeUnregister u) s))
              else s);
          s = (case inj_inode (ctx s) of
            None \<Rightarrow> s
          | Some i \<Rightarrow> upd (\<lambda>c. c\<lparr>inj_inode := None\<rparr>) (tell K (Iput i) s))
      in upd (\<lambda>c. c\<lparr>uprobe_disarm_queued := 0\<rparr>) s)"

section \<open>The invariant of the probe\<close>

fun probe_reg :: "kev \<Rightarrow> int" where
  "probe_reg (UprobeRegister u) = 1"
| "probe_reg (UprobeUnregister u) = - 1"
| "probe_reg _ = 0"

definition probe_inv :: "'k st \<Rightarrow> bool" where
  "probe_inv s \<longleftrightarrow>
     (uprobe_active (ctx s) \<longleftrightarrow> inj_uprobe (ctx s) \<noteq> None) \<and>
     net probe_reg (klog s) = (if uprobe_active (ctx s) then 1 else 0) \<and>
     (\<not> uprobe_active (ctx s) \<longrightarrow> inj_inode (ctx s) = None) \<and>
     (\<forall>i. net (inode_ref i) (klog s) = (if inj_inode (ctx s) = Some i then 1 else 0))"

definition disarmed :: "'k st \<Rightarrow> bool" where
  "disarmed s \<longleftrightarrow> \<not> uprobe_active (ctx s) \<and> inj_uprobe (ctx s) = None \<and> inj_inode (ctx s) = None \<and>
     uprobe_disarm_queued (ctx s) = 0"

text \<open>The invariant only reads four members and two counts.\<close>

lemma probe_inv_cong:
  assumes "net probe_reg (klog s') = net probe_reg (klog s)"
    and "\<And>i. net (inode_ref i) (klog s') = net (inode_ref i) (klog s)"
    and "uprobe_active (ctx s') = uprobe_active (ctx s)" "inj_uprobe (ctx s') = inj_uprobe (ctx s)"
      "inj_inode (ctx s') = inj_inode (ctx s)"
  shows "probe_inv s' \<longleftrightarrow> probe_inv s"
  using assms by (simp add: probe_inv_def)

lemma st_work_simps [simp]:
  "klog (s\<lparr>work := w\<rparr>) = klog s" "ctx (s\<lparr>work := w\<rparr>) = ctx s"
  by simp_all

lemma workfn_disarms:
  "probe_inv s \<Longrightarrow> probe_inv (uprobe_disarm_workfn K s) \<and> disarmed (uprobe_disarm_workfn K s)"
  by (auto simp: uprobe_disarm_workfn_def probe_inv_def disarmed_def inode_ref_def Let_def
      split: option.splits)

lemma schedule_disarm_keeps:
  "probe_inv (fij_uprobe_schedule_disarm K s) \<longleftrightarrow> probe_inv s"
  by (auto simp: probe_inv_def fij_uprobe_schedule_disarm_def schedule_work_def Let_def inode_ref_def)

lemma post_actions_schedule: "fij_uprobe_post_actions K s = fij_uprobe_schedule_disarm K s"
  by (simp add: fij_uprobe_post_actions_def fij_uprobe_schedule_disarm_def)

lemma hit_keeps: "probe_inv (snd (uprobe_hit K s)) \<longleftrightarrow> probe_inv s"
  by (auto simp: uprobe_hit_def post_actions_schedule schedule_disarm_keeps Let_def)
    (auto simp: probe_inv_def inode_ref_def)

lemma disarm_sync_eq:
  "fij_uprobe_disarm_sync K s =
     uprobe_disarm_workfn K (flush_work K Uprobe_disarm_workfn (uprobe_disarm_workfn K) s)"
  by (simp add: fij_uprobe_disarm_sync_def uprobe_disarm_workfn_def Let_def)

lemma disarm_sync_disarms:
  assumes "probe_inv s"
  shows "probe_inv (fij_uprobe_disarm_sync K s) \<and> disarmed (fij_uprobe_disarm_sync K s)"
proof -
  let ?s = "tell K (FlushWork Uprobe_disarm_workfn) s"
  have "probe_inv (?s\<lparr>work := w\<rparr>)" for w
    using assms by (auto simp: probe_inv_def inode_ref_def)
  moreover have "probe_inv ?s" using assms by (auto simp: probe_inv_def inode_ref_def)
  ultimately have "probe_inv (flush_work K Uprobe_disarm_workfn (uprobe_disarm_workfn K) s)"
    by (auto simp: flush_work_def Let_def workfn_disarms)
  then show ?thesis unfolding disarm_sync_eq by (rule workfn_disarms)
qed

lemma injection_keeps_probe:
  assumes "drives st vs st' s s'" and "same_but_run (ctx s) (ctx s')"
  shows "probe_inv s' \<longleftrightarrow> probe_inv s"
proof -
  obtain es where es: "klog s' = klog s @ es" "list_all inject_ev es"
    using assms(1) by (auto simp: drives_def emits_iff)
  have "inject_ev e \<Longrightarrow> probe_reg e = 0" "inject_ev e \<Longrightarrow> inode_ref i e = 0" for e i
    by (cases e; simp add: inode_ref_def)+
  then have "net probe_reg es = 0" "net (inode_ref i) es = 0" for i
    using es(2) by (auto intro: net_zero [where P = inject_ev])
  then show ?thesis
    using es(1) same_but_runD [OF assms(2)] by (intro probe_inv_cong) simp_all
qed

section \<open>Arming\<close>

lemma va_to_file_off_wpI:
  assumes "\<And>ret i off s' es. klog s' = klog s @ es \<Longrightarrow> ctx s' = ctx s \<Longrightarrow> same_refs s s' \<Longrightarrow>
     net probe_reg es = 0 \<Longrightarrow> (ret \<noteq> 0 \<Longrightarrow> i = oi) \<Longrightarrow>
     (\<And>j. net (inode_ref j) es = (if ret = 0 \<and> i = Some j then 1 else 0)) \<Longrightarrow> Q ((ret, i, off), s')"
  shows "wp (fij_va_to_file_off K t va oi oo s) Q"
  unfolding fij_va_to_file_off_def
  by (auto simp: Let_def same_refs_def ref_defs inode_ref_def intro!: ask_wpI assms
      split: option.splits)

text \<open>Arming touches the five members of the probe only.\<close>

definition clear_probe :: "fij_ctx \<Rightarrow> fij_ctx" where
  "clear_probe c = c\<lparr>uc := uc zero_ctx, inj_inode := None, inj_uprobe := None, inj_off := 0,
     uprobe_active := False\<rparr>"

definition same_but_probe :: "fij_ctx \<Rightarrow> fij_ctx \<Rightarrow> bool" where
  "same_but_probe c c' \<longleftrightarrow> clear_probe c' = clear_probe c"

lemma clear_probe_keeps:
  "exec (clear_probe c) = exec c" "target_tgid (clear_probe c) = target_tgid c"
  "running (clear_probe c) = running c" "target_alive (clear_probe c) = target_alive c"
  "bitflip_thread (clear_probe c) = bitflip_thread c" "targets_wf (clear_probe c) = targets_wf c"
  "pc_monitor_thread (clear_probe c) = pc_monitor_thread c"
  "monitor_done (clear_probe c) = monitor_done c" "restore (clear_probe c) = restore c"
  by (simp_all add: clear_probe_def targets_wf_def)

lemma same_but_probeD:
  assumes "same_but_probe c c'"
  shows "exec c' = exec c" "target_tgid c' = target_tgid c" "running c' = running c"
    "target_alive c' = target_alive c" "bitflip_thread c' = bitflip_thread c"
    "targets_wf c' = targets_wf c" "pc_monitor_thread c' = pc_monitor_thread c"
    "monitor_done c' = monitor_done c" "restore c' = restore c"
  using assms clear_probe_keeps by (metis same_but_probe_def)+

text \<open>Between the lookup and the registration the probe is off, and the inode found holds one
  reference.\<close>

definition resolved :: "'k st \<Rightarrow> int \<Rightarrow> 'k st \<Rightarrow> bool" where
  "resolved s err s' \<longleftrightarrow>
     same_refs s s' \<and> \<not> uprobe_active (ctx s') \<and> inj_uprobe (ctx s') = None \<and>
     net probe_reg (klog s') = 0 \<and>
     (\<forall>i. net (inode_ref i) (klog s') = (if inj_inode (ctx s') = Some i then 1 else 0)) \<and>
     (err \<noteq> 0 \<longrightarrow> inj_inode (ctx s') = None) \<and> same_but_probe (ctx s) (ctx s')"

lemma resolve_post:
  assumes "probe_inv s" and "\<not> uprobe_active (ctx s)"
  shows "wp (uprobe_resolve K va s) (\<lambda>(err, s'). resolved s err s')"
  unfolding uprobe_resolve_def using assms
  by (auto simp: Let_def resolved_def probe_inv_def same_refs_def ref_defs inode_ref_def
      same_but_probe_def clear_probe_def
      intro!: ask_wpI va_to_file_off_wpI split: option.splits if_split_asm if_split)

definition armed_post :: "'k st \<Rightarrow> int \<Rightarrow> 'k st \<Rightarrow> bool" where
  "armed_post s ret s' \<longleftrightarrow>
     probe_inv s' \<and> same_refs s s' \<and> same_but_probe (ctx s) (ctx s') \<and>
     (if uprobe_active (ctx s) then ret = - EBUSY \<and> s' = s
      else (uprobe_active (ctx s') \<longrightarrow> ret = 0 \<and> uc (ctx s') = \<lparr>handler = Some Uprobe_hit, ret_handler = None,
                               ufilter = Some Uprobe_filter\<rparr>))"

lemma arm_post:
  assumes "probe_inv s"
  shows "wp (fij_uprobe_arm K va s) (\<lambda>(ret, s'). armed_post s ret s')"
proof (cases "uprobe_active (ctx s)")
  case True
  with assms show ?thesis by (simp add: fij_uprobe_arm_def armed_post_def same_but_probe_def)
next
  case False
  show ?thesis
    unfolding fij_uprobe_arm_def
    using False
    by (auto simp: Let_def armed_post_def resolved_def probe_inv_def same_refs_def ref_defs inode_ref_def
      same_but_probe_def clear_probe_def
        intro!: wp_mono [OF resolve_post [OF assms False]] ask_wpI split: option.splits sum.splits)
qed

section \<open>The interface of the probe\<close>

locale probe_user =
  fixes inv :: "'k st \<Rightarrow> bool"
    and armed :: "'k st \<Rightarrow> bool"
    and arm :: "u64 \<Rightarrow> 'k st \<Rightarrow> (int \<times> 'k st) option"
    and disarm :: "'k st \<Rightarrow> 'k st"
  assumes arm_law: "inv s \<Longrightarrow>
      wp (arm va s) (\<lambda>(r, s'). inv s' \<and> (\<not> armed s \<and> armed s' \<longrightarrow> r = 0) \<and> (armed s \<longrightarrow> s' = s))"
    and disarm_law: "inv s \<Longrightarrow> inv (disarm s) \<and> \<not> armed (disarm s)"
begin

lemma arm_returns: "inv s \<Longrightarrow> arm va s \<noteq> None"
  using arm_law [of s va] by (auto simp: wp_def)

lemma arm_inv: "inv s \<Longrightarrow> arm va s = Some (r, s') \<Longrightarrow> inv s'"
  using arm_law [of s va] by (auto simp: wp_def)

lemma failed_arm: "inv s \<Longrightarrow> \<not> armed s \<Longrightarrow> arm va s = Some (r, s') \<Longrightarrow> r \<noteq> 0 \<Longrightarrow> \<not> armed s'"
  using arm_law [of s va] by (auto simp: wp_def)

lemma arm_disarm:
  "inv s \<Longrightarrow> arm va s = Some (r, s') \<Longrightarrow> inv (disarm s') \<and> \<not> armed (disarm s')"
  by (intro disarm_law) (rule arm_inv)

end

lemma arm_contract:
  "probe_inv s \<Longrightarrow> wp (fij_uprobe_arm K va s) (\<lambda>(r, s'). probe_inv s' \<and>
     (\<not> uprobe_active (ctx s) \<and> uprobe_active (ctx s') \<longrightarrow> r = 0) \<and> (uprobe_active (ctx s) \<longrightarrow> s' = s))"
  by (rule wp_mono [OF arm_post]) (auto simp: armed_post_def split: if_splits)

interpretation probe: probe_user probe_inv "\<lambda>s. uprobe_active (ctx s)" "fij_uprobe_arm K"
  "fij_uprobe_disarm_sync K" for K
proof (unfold_locales, goal_cases)
  case (1 s va) then show ?case by (rule arm_contract)
next
  case (2 s) then show ?case using disarm_sync_disarms [of s K] by (simp add: disarmed_def)
qed

section \<open>Properties\<close>

text \<open>C24: Arming the probe always returns. It refuses with \<open>-EBUSY\<close> and no effect when a probe is
  armed already; otherwise it keeps the probe's state in step with what is registered, gives back
  every task, pid and memory reference, holds one reference on the inode exactly if the probe is on,
  and leaves the probe off whenever it reports an error.\<close>

theorem uprobe_arm_correct:
  assumes "probe_inv s"
  shows "\<exists>ret s'. fij_uprobe_arm K va s = Some (ret, s') \<and> probe_inv s' \<and> same_refs s s' \<and>
    (if uprobe_active (ctx s) then ret = - EBUSY \<and> s' = s
     else (ret \<noteq> 0 \<longrightarrow> \<not> uprobe_active (ctx s') \<and> inj_inode (ctx s') = None) \<and>
          (uprobe_active (ctx s') \<longrightarrow> handler (uc (ctx s')) = Some Uprobe_hit))"
proof -
  obtain ret s' where run: "fij_uprobe_arm K va s = Some (ret, s')"
    using probe.arm_returns [OF assms] by fast
  with arm_post [OF assms, of K va] have "armed_post s ret s'" by (auto simp: wp_def)
  then have "probe_inv s'" "same_refs s s'"
    "if uprobe_active (ctx s) then ret = - EBUSY \<and> s' = s
     else (ret \<noteq> 0 \<longrightarrow> \<not> uprobe_active (ctx s')) \<and>
          (uprobe_active (ctx s') \<longrightarrow> handler (uc (ctx s')) = Some Uprobe_hit)"
    by (auto simp: armed_post_def split: if_splits)
  moreover from this(1) have "\<not> uprobe_active (ctx s') \<longrightarrow> inj_inode (ctx s') = None"
    by (simp add: probe_inv_def)
  ultimately show ?thesis using run by (intro exI [of _ ret] exI [of _ s']) (auto split: if_splits)
qed

text \<open>The demo process, about to be armed at an address of its executable.\<close>

definition demo_target :: "unit st" where
  "demo_target = upd (\<lambda>c. c\<lparr>target_tgid := 100\<rparr>) demo_st"

lemma demo_target_inv: "probe_inv demo_target"
  by (simp add: probe_inv_def demo_target_def demo_st_def fij_ctx_init_def fij_uprobe_init_work_def
      zero_ctx_def)

lemma demo_arm:
  "\<exists>s'. fij_uprobe_arm demo 0x1004 demo_target = Some (0, s') \<and> uprobe_active (ctx s') \<and>
     inj_uprobe (ctx s') = Some 31 \<and> uprobe_disarm_queued (ctx s') = 0 \<and> flip_triggered (ctx s') = 0 \<and>
     work s' = []"
  by (simp add: fij_uprobe_arm_def uprobe_resolve_def fij_va_to_file_off_def ask_eq Let_def demo_def
      demo_vmas_def vma_maps_exe_def vma_file_off_def demo_target_def demo_st_def fij_ctx_init_def
      fij_uprobe_init_work_def zero_ctx_def tell_def noted_def upd_def)

theorem uprobe_arm_correct_witness:
  "\<exists>s'. fij_uprobe_arm demo 0x1004 demo_target = Some (0, s') \<and> probe_inv s'"
  using demo_arm uprobe_arm_correct [OF demo_target_inv, of demo "0x1004"] by auto

text \<open>However a run ends, the synchronous disarm leaves nothing behind: no probe is registered,
  no inode is referenced, the disarm request is cleared, and disarming again does nothing but flush.\<close>

theorem uprobe_disarm_releases:
  assumes "probe_inv s"
  shows "disarmed (fij_uprobe_disarm_sync K s) \<and>
    net probe_reg (klog (fij_uprobe_disarm_sync K s)) = 0 \<and>
    (\<forall>i. net (inode_ref i) (klog (fij_uprobe_disarm_sync K s)) = 0)"
  using disarm_sync_disarms [OF assms, of K] by (auto simp: probe_inv_def disarmed_def)

theorem uprobe_disarm_releases_witness:
  "\<exists>s'. fij_uprobe_arm demo 0x1004 demo_target = Some (0, s') \<and> uprobe_active (ctx s') \<and>
     disarmed (fij_uprobe_disarm_sync demo s')"
proof -
  obtain s' where run: "fij_uprobe_arm demo 0x1004 demo_target = Some (0, s')"
    and on: "uprobe_active (ctx s')" using demo_arm by blast
  have "probe_inv s'" using probe.arm_inv [OF demo_target_inv run] .
  from uprobe_disarm_releases [OF this] run on show ?thesis by blast
qed

text \<open>C25: The probe is one-shot. The first hit raises the trigger, wakes the injection thread and
  queues the disarm; every further hit before the work item has run changes nothing and adds no
  event; the work item then takes the probe off.\<close>

theorem uprobe_one_shot:
  assumes "probe_inv s" and "uprobe_active (ctx s)"
    and "flip_triggered (ctx s) = 0" and "uprobe_disarm_queued (ctx s) = 0"
    and "s1 = snd (uprobe_hit K s)"
  shows "flip_triggered (ctx s1) = 1 \<and> Uprobe_disarm_workfn \<in> set (work s1) \<and>
    klog s1 = klog s @ [WakeUpFlip, ScheduleWork Uprobe_disarm_workfn] \<and>
    snd (uprobe_hit K s1) = s1 \<and> disarmed (uprobe_disarm_workfn K s1)"
proof -
  have on: "inj_uprobe (ctx s) \<noteq> None" using assms(1,2) by (simp add: probe_inv_def)
  have s1: "klog s1 = klog s @ [WakeUpFlip, ScheduleWork Uprobe_disarm_workfn]"
    "ctx s1 = (ctx s)\<lparr>flip_triggered := 1, uprobe_disarm_queued := 1\<rparr>"
    "Uprobe_disarm_workfn \<in> set (work s1)"
    using assms on by (auto simp: uprobe_hit_def fij_uprobe_post_actions_def schedule_work_def Let_def)
  then have "upd (\<lambda>c. c\<lparr>flip_triggered := 1\<rparr>) s1 = s1" "upd (\<lambda>c. c\<lparr>uprobe_disarm_queued := 1\<rparr>) s1 = s1"
    by (simp_all add: upd_def)
  then have again: "snd (uprobe_hit K s1) = s1"
    by (simp add: uprobe_hit_def fij_uprobe_post_actions_def Let_def s1(2))
  have "probe_inv s1" unfolding assms(5) using assms(1) by (simp add: hit_keeps)
  then show ?thesis using s1 again workfn_disarms by auto
qed

theorem uprobe_one_shot_witness:
  "\<exists>s. fij_uprobe_arm demo 0x1004 demo_target = Some (0, s) \<and>
     snd (uprobe_hit demo (snd (uprobe_hit demo s))) = snd (uprobe_hit demo s)"
proof -
  obtain s where run: "fij_uprobe_arm demo 0x1004 demo_target = Some (0, s)"
    and on: "uprobe_active (ctx s)" "flip_triggered (ctx s) = 0" "uprobe_disarm_queued (ctx s) = 0"
    using demo_arm by blast
  have "probe_inv s" using probe.arm_inv [OF demo_target_inv run] .
  from uprobe_one_shot [OF this on refl] run show ?thesis by blast
qed

end
