(* ===== verification/Fij_Thread.thy ===== *)
theory Fij_Thread
  imports Fij_Uprobe
begin

text \<open>
  \<open>core/bitflip_thread.c\<close>: the kernel thread that performs the injection of a run, either when
  the probe triggers it or after a random delay. While the thread waits or sleeps the other
  threads of the module run; what they have done to the state by the time it wakes is the
  argument \<open>env\<close> of \<open>bitflip_thread_fn\<close>, any function. \<open>Fij_Session\<close> interleaves the same
  pieces step by step.
\<close>

section \<open>Delays\<close>

definition DEFAULT_MIN_DELAY_MS :: int where "DEFAULT_MIN_DELAY_MS = 0"
definition DEFAULT_MAX_DELAY_MS :: int where "DEFAULT_MAX_DELAY_MS = 1000"

definition fij_sleep_hrtimeout_interruptible_ns ::
  "'k kernel \<Rightarrow> u64 \<Rightarrow> 'k st \<Rightarrow> (int \<times> 'k st) option" where
  "fij_sleep_hrtimeout_interruptible_ns K delay_ns s =
     (if delay_ns = 0 then Some (0, s)
      else ask (k_hrtimeout K delay_ns) (tell K (HrSleep delay_ns) s))"

definition fij_sleep_hrtimeout_interruptible ::
  "'k kernel \<Rightarrow> u32 \<Rightarrow> 'k st \<Rightarrow> (int \<times> 'k st) option" where
  "fij_sleep_hrtimeout_interruptible K delay_us s =
     (if delay_us = 0 then Some (0, s)
      else ask (k_hrtimeout K (ucast delay_us * 1000)) (tell K (HrSleep (ucast delay_us * 1000)) s))"

text \<open>\<open>span\<close> is computed in \<open>unsigned int\<close> and converted; the sum of the result wraps.\<close>

definition fij_random_ms :: "'k kernel \<Rightarrow> int \<Rightarrow> int \<Rightarrow> 'k st \<Rightarrow> (int \<times> 'k st) option" where
  "fij_random_ms K mn mx s = do {
     let (lo, hi) = (if mx < mn then (mx, mn) else (mn, mx));
     let span = s32 ((hi - lo) + 1);
     (r, s) \<leftarrow> ask (k_random_u32_below K (word_of_int span)) s;
     Some (s32 (lo + sint r), s)
   }"

text \<open>Lines 101 to 136. The variable \<open>ret\<close> is uninitialised: only the short sleep assigns it,
  so on the other paths it holds what the stack held. The result is \<open>None\<close> for
  \<open>goto out\<close> and else the value of \<open>ret\<close>, with the value of \<open>duration_ns\<close>.\<close>

definition bitflip_delay ::
  "'k kernel \<Rightarrow> int \<Rightarrow> int \<Rightarrow> 'k st \<Rightarrow> ((int option \<times> u64) \<times> 'k st) option" where
  "bitflip_delay K mn mx s = do {
     (ret, s) \<leftarrow> ask (k_stack_int K) s;
     let (min_ms, max_ms) = (if mx < mn then (mx, mn) else (mn, mx));
     if max_ms \<le> 0 then Some ((Some ret, 0), s)
     else if max_ms < 500 then do {
       (delay_ms, s) \<leftarrow> fij_random_ms K min_ms (s32 (max_ms * 1000000)) s;
       if delay_ms > 0 then do {
         let duration_ns = word_of_int delay_ms;
         (ret, s) \<leftarrow> fij_sleep_hrtimeout_interruptible_ns K duration_ns s;
         Some ((if ret \<noteq> 0 then None else Some ret, duration_ns), s)
       }
       else Some ((Some ret, 0), s)
     }
     else do {
       (delay_ms, s) \<leftarrow> fij_random_ms K min_ms max_ms s;
       let duration_ns = word_of_int delay_ms * 1000000;
       if delay_ms > 0 then do {
         (left, s) \<leftarrow> ask (k_msleep K delay_ms) (tell K (Msleep delay_ms) s);
         Some ((if left \<noteq> 0 then None else Some ret, duration_ns), s)
       }
       else Some ((Some ret, duration_ns), s)
     }
   }"

section \<open>The thread\<close>

text \<open>Lines 61 to 70: the bounds of the delay, and the completion is reset.\<close>

definition bitflip_bounds :: "fij_params \<Rightarrow> int \<times> int" where
  "bitflip_bounds prm =
     (if min_delay_ms prm > 0 then min_delay_ms prm else DEFAULT_MIN_DELAY_MS,
      if max_delay_ms prm \<noteq> 0 then max_delay_ms prm else DEFAULT_MAX_DELAY_MS)"

definition bitflip_begin :: "'k st \<Rightarrow> 'k st" where
  "bitflip_begin s = upd (\<lambda>c. c\<lparr>bitflip_done := 0\<rparr>) s"

text \<open>Lines 80 to 95: after the wait for the trigger.\<close>

definition bitflip_triggered :: "arch \<Rightarrow> 'k kernel \<Rightarrow> 'k st \<Rightarrow> 'k st option" where
  "bitflip_triggered A K s = do {
     (stop, s) \<leftarrow> ask (k_should_stop K) s;
     if stop then Some s
     else if \<not> target_alive (ctx s) then Some s
     else do {
       (_, s) \<leftarrow> fij_stop_flip_resume_one_random A K s;
       Some (upd (\<lambda>c. c\<lparr>flip_triggered := 0\<rparr>) s)
     }
   }"

text \<open>Lines 138 to 142: after the sleep, with the value of \<open>ret\<close>.\<close>

definition bitflip_slept :: "arch \<Rightarrow> 'k kernel \<Rightarrow> int \<Rightarrow> 'k st \<Rightarrow> 'k st option" where
  "bitflip_slept A K ret s =
     (if ret \<noteq> 0 \<or> \<not> target_alive (ctx s) then Some s
      else do {
        (stop, s) \<leftarrow> ask (k_should_stop K) s;
        if stop then Some s
        else do {
          (_, s) \<leftarrow> fij_stop_flip_resume_one_random A K s;
          Some s
        }
      })"

text \<open>Where the thread goes on after the delay: \<open>goto out\<close> for \<open>None\<close>.\<close>

definition bitflip_wake :: "arch \<Rightarrow> 'k kernel \<Rightarrow> int option \<Rightarrow> 'k st \<Rightarrow> 'k st option" where
  "bitflip_wake A K ret s = (case ret of None \<Rightarrow> Some s | Some r \<Rightarrow> bitflip_slept A K r s)"

text \<open>Lines 146 and 147, at the label \<open>out\<close>.\<close>

definition bitflip_out :: "u64 \<Rightarrow> 'k st \<Rightarrow> 'k st" where
  "bitflip_out duration_ns s =
     upd (\<lambda>c. c\<lparr>bitflip_done := bitflip_done c + 1\<rparr>)
       (upd (upd_result (\<lambda>r. r\<lparr>injection_time_ns := duration_ns\<rparr>)) s)"

text \<open>Lines 148 to 154: the thread stays until it is told to stop.\<close>

partial_function (option) bitflip_park :: "'k kernel \<Rightarrow> 'k st \<Rightarrow> (unit \<times> 'k st) option" where
  "bitflip_park K s =
     Option.bind (ask (k_should_stop K) s) (\<lambda>p.
       if fst p then Some ((), snd p)
       else Option.bind (ask (k_should_stop K) (snd p)) (\<lambda>q.
         if fst q then Some ((), snd q)
         else bitflip_park K (tell K Schedule (snd q))))"

declare bitflip_park.simps [simp del]

text \<open>The body up to the completion, with what the other threads do while this one waits.\<close>

definition bitflip_body ::
  "arch \<Rightarrow> 'k kernel \<Rightarrow> ('k st \<Rightarrow> 'k st) \<Rightarrow> 'k st \<Rightarrow> 'k st option" where
  "bitflip_body A K env s = do {
     let (min_ms, max_ms) = bitflip_bounds (ctx_params (ctx s));
     let s = bitflip_begin s;
     if target_pc_present (ctx_params (ctx s)) \<noteq> 0 then do {
       s \<leftarrow> bitflip_triggered A K (env (tell K WaitTrigger s));
       Some (bitflip_out 0 s)
     }
     else do {
       ((ret, duration_ns), s) \<leftarrow> bitflip_delay K min_ms max_ms s;
       s \<leftarrow> bitflip_wake A K ret (env s);
       Some (bitflip_out duration_ns s)
     }
   }"

definition bitflip_thread_fn ::
  "arch \<Rightarrow> 'k kernel \<Rightarrow> ('k st \<Rightarrow> 'k st) \<Rightarrow> 'k st \<Rightarrow> (int \<times> 'k st) option" where
  "bitflip_thread_fn A K env s = do {
     s \<leftarrow> bitflip_body A K env s;
     (_, s) \<leftarrow> bitflip_park K s;
     Some (0, s)
   }"

section \<open>Starting and stopping it\<close>

definition fij_start_bitflip_thread :: "'k kernel \<Rightarrow> 'k st \<Rightarrow> (int \<times> 'k st) option" where
  "fij_start_bitflip_thread K s =
     (if bitflip_thread (ctx s) \<noteq> None then Some (- EBUSY, s)
      else do {
        (t, s) \<leftarrow> ask (k_kthread_run K) s;
        case t of
          Inl err \<Rightarrow> Some (err, upd (\<lambda>c. c\<lparr>bitflip_thread := None\<rparr>) s)
        | Inr t \<Rightarrow> Some (0, upd (\<lambda>c. c\<lparr>bitflip_thread := Some t\<rparr>) (noted (KthreadRun t) s))
      })"

definition fij_stop_bitflip_thread :: "'k kernel \<Rightarrow> 'k st \<Rightarrow> 'k st" where
  "fij_stop_bitflip_thread K s =
     (case bitflip_thread (ctx s) of
        None \<Rightarrow> s
      | Some t \<Rightarrow>
          (let s = tell K (WakeUpThread t) s;
               s = tell K WakeUpFlip s;
               s = tell K (KthreadStop t) s
           in upd (\<lambda>c. c\<lparr>bitflip_thread := None, running := 0\<rparr>) s))"

section \<open>Delays are within their window\<close>

lemma s32_small: "0 \<le> x \<Longrightarrow> x < 2 ^ 31 \<Longrightarrow> s32 x = x"
  by (rule s32_id) (simp add: is_s32_def)

lemma random_ms_range:
  assumes "random_below_law K" and "0 \<le> lo" and "lo \<le> hi" and "hi < 2 ^ 31 - 1"
  shows "\<exists>d s'. fij_random_ms K lo hi s = Some (d, s') \<and> lo \<le> d \<and> d \<le> hi \<and>
    klog s' = klog s \<and> ctx s' = ctx s \<and>
    d = lo + uint (fst (k_random_u32_below K (word_of_int (hi - lo + 1)) (kern s)))"
proof -
  have span: "s32 (hi - lo + 1) = hi - lo + 1" using assms(2-4) by (intro s32_small) simp_all
  let ?c = "word_of_int (hi - lo + 1) :: u32" and ?r = "fst (k_random_u32_below K (word_of_int (hi - lo + 1)) (kern s))"
  have c: "uint ?c = hi - lo + 1" using assms(2-4) by (subst uint_word_of_int) simp
  then have "?c \<noteq> 0" using assms(3) by (metis add_increasing2 diff_ge_0_iff_ge unsigned_0 zero_le_one zle_add1_eq_le less_irrefl)
  then have "?r < ?c" using assms(1) by (simp add: random_below_law_def word_gt_0)
  then have r: "uint ?r \<le> hi - lo" using c unfolding word_less_def by simp
  then have "uint ?r < 2 ^ 31" using assms(2,4) by linarith
  moreover have "- (2 ^ 31) \<le> uint ?r" by (rule order_trans [of _ 0]) simp_all
  ultimately have sr: "sint ?r = uint ?r" unfolding sint_uint by (intro signed_take_bit_int_eq_self) simp_all
  have "s32 (lo + uint ?r) = lo + uint ?r"
    using assms(2,4) r uint_ge_0 [of ?r] by (intro s32_small) linarith+
  with assms(3) r span sr show ?thesis
    by (simp add: fij_random_ms_def ask_eq Let_def)
qed

lemma random_ms_swap: "mx < mn \<Longrightarrow> fij_random_ms K mn mx s = fij_random_ms K mx mn s"
  by (simp add: fij_random_ms_def)

text \<open>The short window: the draw is in nanoseconds above \<open>min_ms\<close> taken as nanoseconds.\<close>

lemma delay_short:
  assumes "random_below_law K" and "0 \<le> mn" and "mn \<le> mx" and "0 < mx" and "mx < 500"
    and "bitflip_delay K mn mx s = Some ((ret, dur), s')"
  shows "mn \<le> uint dur \<and> uint dur \<le> mx * 1000000 \<and>
    (\<exists>k. uint dur = mn + uint (fst (k_random_u32_below K (word_of_int (mx * 1000000 - mn + 1)) k)))"
proof -
  have s32: "s32 (mx * 1000000) = mx * 1000000" using assms(4,5) by (intro s32_small) simp_all
  let ?s = "s\<lparr>kern := snd (k_stack_int K (kern s))\<rparr>"
  obtain d s1 where r: "fij_random_ms K mn (mx * 1000000) ?s = Some (d, s1)" "mn \<le> d" "d \<le> mx * 1000000"
    "d = mn + uint (fst (k_random_u32_below K (word_of_int (mx * 1000000 - mn + 1)) (kern ?s)))"
    using random_ms_range [of K mn "mx * 1000000" ?s] assms(1-5) by auto
  have "d < 2 ^ 64" "0 \<le> d" using r(2,3) assms(2,5) by auto
  then have d: "uint (word_of_int d :: u64) = d" by (subst uint_word_of_int) simp
  have "dur = word_of_int d"
  proof (cases "0 < d")
    case True
    with assms(3-6) r(1) s32 show ?thesis
      by (auto simp: bitflip_delay_def ask_eq Let_def bind_eq_Some_conv)
  next
    case False
    then have "d = 0" using \<open>0 \<le> d\<close> by simp
    with assms(3-6) r(1) s32 show ?thesis
      by (auto simp: bitflip_delay_def ask_eq Let_def)
  qed
  then show ?thesis using d r(2-4) by auto
qed

text \<open>The long window: whole milliseconds, and \<open>ret\<close> keeps what the stack held.\<close>

lemma delay_long:
  assumes "random_below_law K" and "0 \<le> mn" and "mn \<le> mx" and "500 \<le> mx" and "mx < 2 ^ 31 - 1"
    and "bitflip_delay K mn mx s = Some ((ret, dur), s')"
  shows "(\<exists>d. mn \<le> d \<and> d \<le> mx \<and> uint dur = d * 1000000) \<and>
    (ret = None \<or> ret = Some (fst (k_stack_int K (kern s)))) \<and> ctx s' = ctx s"
proof -
  let ?s = "s\<lparr>kern := snd (k_stack_int K (kern s))\<rparr>"
  obtain d s1 where r: "fij_random_ms K mn mx ?s = Some (d, s1)" "mn \<le> d" "d \<le> mx" "ctx s1 = ctx s"
    using random_ms_range [of K mn mx ?s] assms(1-5) by auto
  have d: "uint (word_of_int d * 1000000 :: u64) = d * 1000000"
  proof -
    have "0 \<le> d * 1000000" "d * 1000000 < 2 ^ 64" using r(2,3) assms(2,5) by auto
    moreover have "(word_of_int d * 1000000 :: u64) = word_of_int (d * 1000000)" by simp
    ultimately show ?thesis by (simp only: uint_word_of_int) simp
  qed
  have "dur = word_of_int d * 1000000 \<and> (ret = None \<or> ret = Some (fst (k_stack_int K (kern s)))) \<and>
      ctx s' = ctx s"
    using assms(3,4,6) r(1,4)
    by (auto simp: bitflip_delay_def ask_eq Let_def split: if_splits)
  then show ?thesis using d r(2,3) by auto
qed

section \<open>What the body stores\<close>

text \<open>The other threads of the module leave the parameters of the run and the log of this
  thread alone, and keep the table of targets well formed.\<close>

definition others_ok :: "('k st \<Rightarrow> 'k st) \<Rightarrow> bool" where
  "others_ok env \<longleftrightarrow> (\<forall>s. klog (env s) = klog s \<and> ctx_params (ctx (env s)) = ctx_params (ctx s) \<and>
     bitflip_done (ctx (env s)) = bitflip_done (ctx s) \<and>
     (targets_wf (ctx s) \<longrightarrow> targets_wf (ctx (env s))))"

definition disciplined :: "kev list \<Rightarrow> bool" where
  "disciplined es \<longleftrightarrow> sig_run False es \<noteq> None"

lemma disciplined_Nil [simp]: "disciplined []"
  unfolding disciplined_def by simp

definition thread_log :: "'k st \<Rightarrow> 'k st \<Rightarrow> bool" where
  "thread_log s s' \<longleftrightarrow> bitflip_done (ctx s') = bitflip_done (ctx s) \<and>
     ctx_params (ctx s') = ctx_params (ctx s) \<and>
     emits (\<lambda>es. disciplined es \<and>
       (all_threads (ctx_params (ctx s)) = 0 \<longrightarrow> length (stores es) \<le> 1)) s s'"

lemma thread_log_inject:
  assumes "inject_post K s1 ret s'" and "klog s1 = klog s" and "ctx s1 = ctx s"
  shows "thread_log s s'"
proof -
  obtain st vs where d: "drives False vs st s1 s'"
    "all_threads (ctx_params (ctx s1)) = 0 \<longrightarrow> vs = flip_stores ret s'"
    using assms(1) unfolding inject_post_def by blast
  then obtain es where es: "klog s' = klog s @ es" "sig_run False es = Some st" "stores es = vs"
    using assms(2) by (auto simp: drives_def emits_iff)
  have "same_but_run (ctx s) (ctx s')" using assms(1,3) by (simp add: inject_post_def)
  note keep = same_but_runD [OF this]
  have "length (flip_stores ret s') \<le> 1" by (simp add: flip_stores_def)
  with es d(2) assms(3) keep show ?thesis
    by (auto simp: thread_log_def emits_append disciplined_def)
qed

lemma thread_log_same: "klog s' = klog s \<Longrightarrow> ctx s' = ctx s \<Longrightarrow> thread_log s s'"
  by (simp add: thread_log_def emits_same)

lemma one_random_wlpI:
  assumes "targets_wf (ctx s)" and "\<And>ret s'. inject_post K s ret s' \<Longrightarrow> Q (ret, s')"
  shows "wlp (fij_stop_flip_resume_one_random A K s) Q"
  using one_random_post [OF assms(1)] by (rule wlp_mono) (auto intro: assms(2))

lemma thread_log_trigger:
  "thread_log s s' \<Longrightarrow> thread_log s (upd (\<lambda>c. c\<lparr>flip_triggered := i\<rparr>) s')"
  by (simp add: thread_log_def emits_def)

lemma triggered_log:
  assumes "targets_wf (ctx s)"
  shows "wlp (bitflip_triggered A K s) (\<lambda>s'. thread_log s s')"
  unfolding bitflip_triggered_def using assms
  by (auto simp: Let_def intro!: ask_wlpI one_random_wlpI thread_log_trigger
      intro: thread_log_inject thread_log_same)

lemma slept_log:
  assumes "targets_wf (ctx s)"
  shows "wlp (bitflip_slept A K ret s) (\<lambda>s'. thread_log s s')"
  unfolding bitflip_slept_def using assms
  by (auto intro!: ask_wlpI one_random_wlpI intro: thread_log_inject thread_log_same)

text \<open>Events of the delay: one sleep at most.\<close>

lemma delay_wlpI:
  assumes "\<And>ret dur s' es. klog s' = klog s @ es \<Longrightarrow> ctx s' = ctx s \<Longrightarrow>
     es = [] \<or> es = [HrSleep dur] \<or> (\<exists>d. es = [Msleep d]) \<Longrightarrow> Q ((ret, dur), s')"
  shows "wlp (bitflip_delay K mn mx s) Q"
  unfolding bitflip_delay_def fij_random_ms_def fij_sleep_hrtimeout_interruptible_ns_def
  by (auto simp: Let_def intro!: ask_wlpI assms split: if_splits)

definition sleep_only :: "kev list \<Rightarrow> bool" where
  "sleep_only es \<longleftrightarrow> stores es = [] \<and> (\<forall>st. sig_run st es = Some st)"

text \<open>The outcome of the body: the completion is signalled once and the log is one injection at
  most, under the discipline of stop, store and resume.\<close>

definition body_post :: "'k st \<Rightarrow> 'k st \<Rightarrow> bool" where
  "body_post s s' \<longleftrightarrow> bitflip_done (ctx s') = 1 \<and> ctx_params (ctx s') = ctx_params (ctx s) \<and>
     emits (\<lambda>es. disciplined es \<and>
       (all_threads (ctx_params (ctx s)) = 0 \<longrightarrow> length (stores es) \<le> 1)) s s'"

lemma body_postI:
  assumes "klog s1 = klog s @ es" "sleep_only es" "bitflip_done (ctx s1) = 0"
    "ctx_params (ctx s1) = ctx_params (ctx s)" and "thread_log s1 s2"
  shows "body_post s (bitflip_out dur s2)"
  using assms
  by (auto simp: body_post_def thread_log_def bitflip_out_def emits_iff disciplined_def sig_run_append
      sleep_only_def)

lemma body_log:
  assumes "others_ok env" and "targets_wf (ctx s)"
  shows "wlp (bitflip_body A K env s) (\<lambda>s'. body_post s s')"
proof -
  have env: "klog (env s1) = klog s @ es \<and> bitflip_done (ctx (env s1)) = 0 \<and>
      ctx_params (ctx (env s1)) = ctx_params (ctx s) \<and> targets_wf (ctx (env s1))"
    if "klog s1 = klog s @ es" "ctx s1 = ctx (bitflip_begin s)" for s1 es
    using assms that by (simp add: others_ok_def bitflip_begin_def targets_wf_def)
  have det: "wlp (bitflip_triggered A K (env (tell K WaitTrigger (bitflip_begin s))))
      (\<lambda>s'. body_post s (bitflip_out 0 s'))"
  proof -
    let ?s = "tell K WaitTrigger (bitflip_begin s)"
    have e: "klog ?s = klog s @ [WaitTrigger]" by (simp add: bitflip_begin_def)
    show ?thesis
      using env [OF e] wlp_mono [OF triggered_log]
      by (auto simp: sleep_only_def intro!: wlp_mono [OF triggered_log] body_postI [where es = "[WaitTrigger]"])
  qed
  have nondet: "wlp (bitflip_wake A K ret (env s1))
      (\<lambda>s'. body_post s (bitflip_out dur s'))"
    if s1: "klog s1 = klog s @ es" "ctx s1 = ctx (bitflip_begin s)"
      and es: "es = [] \<or> es = [HrSleep dur] \<or> (\<exists>d. es = [Msleep d])" for s1 es dur and ret :: "int option"
  proof -
    have "sleep_only es" using es by (auto simp: sleep_only_def)
    then show ?thesis
      using env [OF s1] unfolding bitflip_wake_def
      by (auto intro!: wlp_mono [OF slept_log] body_postI [where es = es] intro: thread_log_same
          split: option.splits)
  qed
  show ?thesis
    unfolding bitflip_body_def
    using det
    by (auto simp: Let_def split_beta bitflip_begin_def
        intro!: delay_wlpI nondet [unfolded bitflip_begin_def])
qed

section \<open>Properties\<close>

text \<open>A random delay lies between its bounds, whichever of the two is given first, as long as
  the bounds are those of a C \<open>int\<close> below the maximum.\<close>

theorem random_delay_in_window:
  assumes "random_below_law K" and "0 \<le> a" and "0 \<le> b" and "a < 2 ^ 31 - 1" and "b < 2 ^ 31 - 1"
  shows "\<exists>d s'. fij_random_ms K a b s = Some (d, s') \<and> min a b \<le> d \<and> d \<le> max a b \<and> ctx s' = ctx s"
proof (cases "b < a")
  case True
  with random_ms_range [of K b a s] assms random_ms_swap [OF True, of K s] show ?thesis by auto
next
  case False
  with random_ms_range [of K a b s] assms show ?thesis by auto
qed

theorem random_delay_in_window_witness:
  "\<exists>d s'. fij_random_ms demo 1000 20 demo_st = Some (d, s') \<and> 20 \<le> d \<and> d \<le> 1000"
  using random_delay_in_window [OF demo_random_below_law, of 1000 20 demo_st] by auto

text \<open>In a window shorter than half a second the two bounds are in different units. The draw
  is made between \<open>min_ms\<close> and \<open>max_ms\<close> million, and its value is slept in nanoseconds: the upper
  bound is honoured, the lower one is a number of nanoseconds, so a minimum delay of
  \<open>min_ms\<close> milliseconds is not kept.\<close>

theorem short_window_minimum_in_ns:
  assumes "random_below_law K" and "0 \<le> mn" and "mn \<le> mx" and "0 < mx" and "mx < 500"
    and "bitflip_delay K mn mx s = Some ((ret, duration_ns), s')"
  shows "mn \<le> uint duration_ns \<and> uint duration_ns \<le> mx * 1000000 \<and>
    (\<exists>k. uint duration_ns = mn + uint (fst (k_random_u32_below K (word_of_int (mx * 1000000 - mn + 1)) k)))"
  using delay_short [OF assms] .

theorem short_window_minimum_in_ns_witness:
  "\<exists>ret d s'. bitflip_delay demo 100 200 demo_st = Some ((ret, d), s') \<and> uint d = 100"
proof -
  have "\<exists>ret d s'. bitflip_delay demo 100 200 demo_st = Some ((ret, d), s')"
    by (simp add: bitflip_delay_def fij_random_ms_def fij_sleep_hrtimeout_interruptible_ns_def
        ask_eq Let_def demo_def)
  then obtain ret d s' where run: "bitflip_delay demo 100 200 demo_st = Some ((ret, d), s')" by blast
  have "fst (k_random_u32_below demo c k) = 0" for c and k :: unit by (simp add: demo_def)
  with short_window_minimum_in_ns [OF demo_random_below_law _ _ _ _ run] run show ?thesis by auto
qed

text \<open>In a window of at least half a second the delay is a whole number of milliseconds within
  the bounds and is reported in nanoseconds without overflow. The variable \<open>ret\<close> that is
  tested afterwards was never assigned on this path: it is what the stack held, and
  when that is not 0 the injection is silently skipped.\<close>

theorem long_window_uninitialised_ret:
  assumes "random_below_law K" and "0 \<le> mn" and "mn \<le> mx" and "500 \<le> mx" and "mx < 2 ^ 31 - 1"
    and "bitflip_delay K mn mx s = Some ((ret, duration_ns), s')"
  shows "(\<exists>d. mn \<le> d \<and> d \<le> mx \<and> uint duration_ns = d * 1000000) \<and>
    (ret = None \<or> ret = Some (fst (k_stack_int K (kern s)))) \<and>
    (fst (k_stack_int K (kern s)) \<noteq> 0 \<longrightarrow> bitflip_wake A K ret s1 = Some s1)"
  using delay_long [OF assms] by (auto simp: bitflip_wake_def bitflip_slept_def)

theorem long_window_uninitialised_ret_witness:
  "\<exists>ret d s'. bitflip_delay (demo\<lparr>k_stack_int := \<lambda>k. (7, k)\<rparr>) 0 1000 demo_st = Some ((ret, d), s') \<and>
     bitflip_wake CONFIG_X86 (demo\<lparr>k_stack_int := \<lambda>k. (7, k)\<rparr>) ret demo_alive = Some demo_alive"
proof -
  let ?K = "demo\<lparr>k_stack_int := \<lambda>k. (7, k)\<rparr> :: unit kernel"
  have law: "random_below_law ?K" by (simp add: random_below_law_def demo_def word_gt_0)
  have "\<exists>ret d s'. bitflip_delay ?K 0 1000 demo_st = Some ((ret, d), s')"
    by (simp add: bitflip_delay_def fij_random_ms_def ask_eq Let_def demo_def)
  then obtain ret d s' where run: "bitflip_delay ?K 0 1000 demo_st = Some ((ret, d), s')" by blast
  from long_window_uninitialised_ret [OF law _ _ _ _ run, of CONFIG_X86 demo_alive] run
  show ?thesis by auto
qed


lemma demo_body:
  "\<exists>s'. bitflip_body CONFIG_X86 demo id (demo_run demo_params) = Some s' \<and>
     stores (klog s') = [0xEF]"
  by (simp add: bitflip_body_def bitflip_wake_def bitflip_slept_def bitflip_delay_def fij_random_ms_def
      bitflip_bounds_def DEFAULT_MIN_DELAY_MS_def DEFAULT_MAX_DELAY_MS_def bitflip_begin_def
      bitflip_out_def inject_run_simps ask_eq Let_def flip: numeral_2_eq_2)


text \<open>There is at most one injection thread. Starting one while there is one is refused with
  \<open>-EBUSY\<close> and no effect; a failed start leaves none; a stop wakes and stops exactly the thread
  that was started, clears \<open>running\<close>, and a second stop does nothing.\<close>

theorem bitflip_thread_start_stop:
  "(case bitflip_thread (ctx s) of
      Some t \<Rightarrow> fij_start_bitflip_thread K s = Some (- EBUSY, s)
    | None \<Rightarrow> (\<exists>ret s'. fij_start_bitflip_thread K s = Some (ret, s') \<and>
        (case bitflip_thread (ctx s') of
           None \<Rightarrow> klog s' = klog s \<and> fij_stop_bitflip_thread K s' = s'
         | Some t \<Rightarrow> ret = 0 \<and> klog s' = klog s @ [KthreadRun t] \<and>
             klog (fij_stop_bitflip_thread K s') = klog s' @ [WakeUpThread t, WakeUpFlip, KthreadStop t]))) \<and>
   bitflip_thread (ctx (fij_stop_bitflip_thread K s)) = None \<and>
   fij_stop_bitflip_thread K (fij_stop_bitflip_thread K s) = fij_stop_bitflip_thread K s"
proof (intro conjI)
  obtain r k where run: "k_kthread_run K (kern s) = (r, k)" by fastforce
  show "case bitflip_thread (ctx s) of
      Some t \<Rightarrow> fij_start_bitflip_thread K s = Some (- EBUSY, s)
    | None \<Rightarrow> (\<exists>ret s'. fij_start_bitflip_thread K s = Some (ret, s') \<and>
        (case bitflip_thread (ctx s') of
           None \<Rightarrow> klog s' = klog s \<and> fij_stop_bitflip_thread K s' = s'
         | Some t \<Rightarrow> ret = 0 \<and> klog s' = klog s @ [KthreadRun t] \<and>
             klog (fij_stop_bitflip_thread K s') = klog s' @ [WakeUpThread t, WakeUpFlip, KthreadStop t]))"
    using run
    by (cases "bitflip_thread (ctx s)"; cases r)
      (simp_all add: fij_start_bitflip_thread_def fij_stop_bitflip_thread_def ask_eq Let_def)
qed (auto simp: fij_stop_bitflip_thread_def Let_def split: option.splits)

end
