(* ===== verification/Fij_Monitor.thy ===== *)
theory Fij_Monitor
  imports Fij_Thread
begin

text \<open>
  \<open>core/monitor.c\<close>: the kernel thread that watches the target of a run, ends the run when the
  target exits or the run is killed, and publishes the result; with the functions that start
  and stop a run. As in \<open>Fij_Thread\<close>, \<open>env\<close> is what other threads do while the monitor waits:
  between two looks at the target, and while it waits for the injection thread to stop.
\<close>

section \<open>The monitor thread\<close>

text \<open>One turn of \<open>for (;;)\<close>: \<open>None\<close> after a wait, or the values of \<open>exited\<close> and \<open>exit_code\<close>
  with which it breaks. \<open>SIGKILL\<close> is 9.\<close>

definition monitor_pass ::
  "'k kernel \<Rightarrow> task \<Rightarrow> 'k st \<Rightarrow> ((bool \<times> int) option \<times> 'k st) option" where
  "monitor_pass K leader s = do {
     (target_exited, s) \<leftarrow> ask (k_task_exited K leader) s;
     if target_exited then do {
       (code, s) \<leftarrow> ask (k_task_exit_code K leader) s;
       Some (Some (True, code), s)
     }
     else do {
       (stop, s) \<leftarrow> ask (k_should_stop K) s;
       if stop then
         Some (Some (False, 9), upd (upd_result (\<lambda>r. r\<lparr>process_hanged := 1\<rparr>)) s)
       else Some (None, tell K WaitTick s)
     }
   }"

partial_function (option) monitor_loop ::
  "'k kernel \<Rightarrow> ('k st \<Rightarrow> 'k st) \<Rightarrow> task \<Rightarrow> 'k st \<Rightarrow> ((bool \<times> int) \<times> 'k st) option" where
  "monitor_loop K env leader s =
     Option.bind (monitor_pass K leader s)
       (\<lambda>p. case fst p of
          Some r \<Rightarrow> Some (r, snd p)
        | None \<Rightarrow> monitor_loop K env leader (env (snd p)))"

declare monitor_loop.simps [simp del]

text \<open>Lines 46 to 50, then lines 52 to 89 without the decoding of \<open>exit_code\<close>, which is only
  printed.\<close>

definition monitor_exit_begin :: "'k kernel \<Rightarrow> 'k st \<Rightarrow> 'k st" where
  "monitor_exit_begin K s =
     (let s = (if rest_active (restore (ctx s)) then fij_revert_file_backed_bitflip K s else s)
      in upd (\<lambda>c. c\<lparr>target_alive := False\<rparr>) s)"

definition monitor_join :: "'k kernel \<Rightarrow> 'k st \<Rightarrow> 'k st option" where
  "monitor_join K s =
     (if bitflip_thread (ctx s) \<noteq> None then do {
        (waiting, s) \<leftarrow> ask (k_waitqueue_active K) s;
        let s = (if waiting then tell K WakeUpFlip s else s);
        Some (fij_stop_bitflip_thread K s)
      }
      else Some s)"

definition monitor_publish :: "'k kernel \<Rightarrow> int \<Rightarrow> task \<Rightarrow> 'k st \<Rightarrow> 'k st" where
  "monitor_publish K code leader s =
     (let s = (if target_pc_present (ctx_params (ctx s)) \<noteq> 0 then fij_uprobe_disarm_sync K s else s);
          s = upd (upd_result (\<lambda>r. r\<lparr>exit_code := code\<rparr>)) s;
          s = upd (\<lambda>c. c\<lparr>running := 0, monitor_done := monitor_done c + 1,
                             pc_monitor_thread := None\<rparr>) s
      in tell K Kfree (tell K (PutTask leader) s))"

definition monitor_exit_end :: "'k kernel \<Rightarrow> int \<Rightarrow> task \<Rightarrow> 'k st \<Rightarrow> 'k st option" where
  "monitor_exit_end K code leader s = do {
     s \<leftarrow> monitor_join K s;
     Some (monitor_publish K code leader s)
   }"

definition monitor_thread_fn ::
  "'k kernel \<Rightarrow> ('k st \<Rightarrow> 'k st) \<Rightarrow> task \<Rightarrow> 'k st \<Rightarrow> (int \<times> 'k st) option" where
  "monitor_thread_fn K env leader s = do {
     ((exited, code), s) \<leftarrow> monitor_loop K env leader s;
     s \<leftarrow> monitor_exit_end K code leader (env (monitor_exit_begin K s));
     Some (0, s)
   }"

section \<open>Starting and stopping a run\<close>

text \<open>Lines 103 to 118: the leader and the argument block of the thread.\<close>

definition monitor_leader :: "'k kernel \<Rightarrow> 'k st \<Rightarrow> ((int + task) \<times> 'k st) option" where
  "monitor_leader K s = do {
     let s = tell K RcuLock s;
     (leader, s) \<leftarrow> ask (k_pid_task K (target_tgid (ctx s))) s;
     let s = (case leader of None \<Rightarrow> s | Some t \<Rightarrow> tell K (GetTask t) s);
     let s = tell K RcuUnlock s;
     case leader of
       None \<Rightarrow> Some (Inl (- ESRCH), s)
     | Some t \<Rightarrow> do {
         (ok, s) \<leftarrow> ask (k_alloc_ok K) s;
         if \<not> ok then Some (Inl (- ENOMEM), tell K (PutTask t) s)
         else Some (Inr t, noted (Kmalloc 1) s)
       }
   }"

text \<open>Lines 136 to 151: the injection thread and the probe.\<close>

definition monitor_arm :: "'k kernel \<Rightarrow> 'k st \<Rightarrow> (int \<times> 'k st) option" where
  "monitor_arm K s = do {
     let s = upd (\<lambda>c. c\<lparr>flip_wq := True, flip_triggered := 0\<rparr>) s;
     (err, s) \<leftarrow> fij_start_bitflip_thread K s;
     if err \<noteq> 0 then Some (err, s)
     else if target_pc_present (ctx_params (ctx s)) \<noteq> 0 then fij_uprobe_arm K (target_pc (ctx s)) s
     else Some (err, s)
   }"

text \<open>Lines 120 to 151: the monitor thread, which owns the leader's reference once it runs.\<close>

definition monitor_spawn :: "'k kernel \<Rightarrow> task \<Rightarrow> 'k st \<Rightarrow> (int \<times> 'k st) option" where
  "monitor_spawn K leader s = do {
     (t, s) \<leftarrow> ask (k_kthread_run K) s;
     case t of
       Inl err \<Rightarrow> do {
         let s = upd (\<lambda>c. c\<lparr>pc_monitor_thread := None\<rparr>) s;
         Some (err, tell K Kfree (tell K (PutTask leader) s))
       }
     | Inr t \<Rightarrow> do {
         let s = upd (\<lambda>c. c\<lparr>pc_monitor_thread := Some t\<rparr>) (noted (KthreadRun t) s);
         if no_injection (ctx_params (ctx s)) \<noteq> 0 then Some (0, s)
         else monitor_arm K s
       }
   }"

definition fij_monitor_start :: "'k kernel \<Rightarrow> 'k st \<Rightarrow> (int \<times> 'k st) option" where
  "fij_monitor_start K s = do {
     let s = upd (\<lambda>c. c\<lparr>monitor_done := 0\<rparr>) s;
     if pc_monitor_thread (ctx s) \<noteq> None then Some (- EBUSY, s)
     else do {
       (l, s) \<leftarrow> monitor_leader K s;
       case l of
         Inl err \<Rightarrow> Some (err, s)
       | Inr leader \<Rightarrow> monitor_spawn K leader s
     }
   }"

definition fij_monitor_stop :: "'k kernel \<Rightarrow> 'k st \<Rightarrow> 'k st" where
  "fij_monitor_stop K s =
     (if pc_monitor_thread (ctx s) \<noteq> None then
        upd (\<lambda>c. c\<lparr>target_alive := False, monitor_done := monitor_done c + 1,
                   pc_monitor_thread := None\<rparr>) s
      else s)"

section \<open>The end of a run\<close>

lemma revert_probe: "probe_inv (fij_revert_file_backed_bitflip K s) \<longleftrightarrow> probe_inv s"
  by (auto simp: fij_revert_file_backed_bitflip_def Let_def probe_inv_def inode_ref_def)

lemma probe_inv_alive: "probe_inv (upd (\<lambda>c. c\<lparr>target_alive := b\<rparr>) s) \<longleftrightarrow> probe_inv s"
  by (simp add: probe_inv_def)

lemma exit_begin_probe: "probe_inv (monitor_exit_begin K s) \<longleftrightarrow> probe_inv s"
  by (simp add: monitor_exit_begin_def Let_def probe_inv_alive revert_probe)

lemma stop_thread_probe: "probe_inv (fij_stop_bitflip_thread K s) \<longleftrightarrow> probe_inv s"
  by (auto simp: fij_stop_bitflip_thread_def Let_def probe_inv_def inode_ref_def split: option.splits)

text \<open>What \<open>disarm_sync\<close> leaves alone.\<close>

lemma workfn_keeps:
  "bitflip_thread (ctx (uprobe_disarm_workfn K s)) = bitflip_thread (ctx s)"
  "monitor_done (ctx (uprobe_disarm_workfn K s)) = monitor_done (ctx s)"
  "exec (ctx (uprobe_disarm_workfn K s)) = exec (ctx s)"
  "target_alive (ctx (uprobe_disarm_workfn K s)) = target_alive (ctx s)"
  "restore (ctx (uprobe_disarm_workfn K s)) = restore (ctx s)"
  "targets_wf (ctx (uprobe_disarm_workfn K s)) = targets_wf (ctx s)"
  "pc_monitor_thread (ctx (uprobe_disarm_workfn K s)) = pc_monitor_thread (ctx s)"
  "running (ctx (uprobe_disarm_workfn K s)) = running (ctx s)"
  "net (task_ref t) (klog (uprobe_disarm_workfn K s)) = net (task_ref t) (klog s)"
  by (auto simp: uprobe_disarm_workfn_def Let_def targets_wf_def task_ref_def split: option.splits)

lemma disarm_keeps:
  "bitflip_thread (ctx (fij_uprobe_disarm_sync K s)) = bitflip_thread (ctx s)"
  "monitor_done (ctx (fij_uprobe_disarm_sync K s)) = monitor_done (ctx s)"
  "exec (ctx (fij_uprobe_disarm_sync K s)) = exec (ctx s)"
  "target_alive (ctx (fij_uprobe_disarm_sync K s)) = target_alive (ctx s)"
  "restore (ctx (fij_uprobe_disarm_sync K s)) = restore (ctx s)"
  "targets_wf (ctx (fij_uprobe_disarm_sync K s)) = targets_wf (ctx s)"
  "pc_monitor_thread (ctx (fij_uprobe_disarm_sync K s)) = pc_monitor_thread (ctx s)"
  "running (ctx (fij_uprobe_disarm_sync K s)) = running (ctx s)"
  "net (task_ref t) (klog (fij_uprobe_disarm_sync K s)) = net (task_ref t) (klog s)"
  by (auto simp: disarm_sync_eq flush_work_def Let_def workfn_keeps task_ref_def)

lemma stop_thread_keeps:
  "bitflip_thread (ctx (fij_stop_bitflip_thread K s)) = None"
  "exec (ctx (fij_stop_bitflip_thread K s)) = exec (ctx s)"
  "monitor_done (ctx (fij_stop_bitflip_thread K s)) = monitor_done (ctx s)"
  "target_alive (ctx (fij_stop_bitflip_thread K s)) = target_alive (ctx s)"
  "restore (ctx (fij_stop_bitflip_thread K s)) = restore (ctx s)"
  "targets_wf (ctx (fij_stop_bitflip_thread K s)) = targets_wf (ctx s)"
  "net (task_ref t) (klog (fij_stop_bitflip_thread K s)) = net (task_ref t) (klog s)"
  by (auto simp: fij_stop_bitflip_thread_def Let_def targets_wf_def task_ref_def split: option.splits)

definition run_over :: "int \<Rightarrow> task \<Rightarrow> 'k st \<Rightarrow> 'k st \<Rightarrow> bool" where
  "run_over code leader s s' \<longleftrightarrow>
     probe_inv s' \<and> running (ctx s') = 0 \<and> bitflip_thread (ctx s') = None \<and>
     pc_monitor_thread (ctx s') = None \<and> monitor_done (ctx s') = monitor_done (ctx s) + 1 \<and>
     target_alive (ctx s') = target_alive (ctx s) \<and> restore (ctx s') = restore (ctx s) \<and>
     targets_wf (ctx s') = targets_wf (ctx s) \<and>
     exec (ctx s') = (exec (ctx s))\<lparr>result := (ctx_result (ctx s))\<lparr>exit_code := code\<rparr>\<rparr> \<and>
     (target_pc_present (ctx_params (ctx s)) \<noteq> 0 \<longrightarrow> disarmed s') \<and>
     net (task_ref leader) (klog s') = net (task_ref leader) (klog s) - 1"

definition quiesced :: "'k st \<Rightarrow> 'k st \<Rightarrow> bool" where
  "quiesced s s' \<longleftrightarrow>
     probe_inv s' \<and> bitflip_thread (ctx s') = None \<and> exec (ctx s') = exec (ctx s) \<and>
     monitor_done (ctx s') = monitor_done (ctx s) \<and> target_alive (ctx s') = target_alive (ctx s) \<and>
     restore (ctx s') = restore (ctx s) \<and> targets_wf (ctx s') = targets_wf (ctx s) \<and>
     (\<forall>t. net (task_ref t) (klog s') = net (task_ref t) (klog s))"

lemma quiesced_stop:
  assumes "probe_inv s1" "klog s1 = klog s @ es" "\<And>t. net (task_ref t) es = 0" "ctx s1 = ctx s"
  shows "quiesced s (fij_stop_bitflip_thread K s1)"
  using assms by (simp add: quiesced_def stop_thread_keeps stop_thread_probe)

lemma join_post:
  assumes "probe_inv s"
  shows "wp (monitor_join K s) (\<lambda>s'. quiesced s s')"
proof (cases "bitflip_thread (ctx s)")
  case None
  with assms show ?thesis by (simp add: monitor_join_def quiesced_def)
next
  case (Some t)
  obtain b k where k: "k_waitqueue_active K (kern s) = (b, k)" by fastforce
  let ?s = "if b then tell K WakeUpFlip (s\<lparr>kern := k\<rparr>) else s\<lparr>kern := k\<rparr>"
  have "probe_inv ?s" using assms by (auto simp: probe_inv_def inode_ref_def)
  then have "quiesced s (fij_stop_bitflip_thread K ?s)"
    by (rule quiesced_stop [where es = "if b then [WakeUpFlip] else []"]) (auto simp: task_ref_def)
  with Some k show ?thesis by (simp add: monitor_join_def ask_eq Let_def)
qed

lemma quiesced_disarm: "quiesced s s1 \<Longrightarrow> quiesced s (fij_uprobe_disarm_sync K s1)"
  by (simp add: quiesced_def disarm_keeps disarm_sync_disarms)

lemma publish_run_over:
  assumes "quiesced s s1"
  shows "run_over code leader s (monitor_publish K code leader s1)"
proof -
  let ?s = "if target_pc_present (ctx_params (ctx s1)) \<noteq> 0 then fij_uprobe_disarm_sync K s1 else s1"
  have q: "quiesced s ?s" using assms quiesced_disarm by auto
  have d: "target_pc_present (ctx_params (ctx s)) \<noteq> 0 \<longrightarrow> disarmed ?s"
    using assms disarm_sync_disarms by (auto simp: quiesced_def)
  have "monitor_publish K code leader s1 = tell K Kfree (tell K (PutTask leader)
      (upd (\<lambda>c. c\<lparr>running := 0, monitor_done := monitor_done c + 1, pc_monitor_thread := None\<rparr>)
        (upd (upd_result (\<lambda>r. r\<lparr>exit_code := code\<rparr>)) ?s)))"
    by (simp add: monitor_publish_def Let_def)
  moreover have "run_over code leader s (tell K Kfree (tell K (PutTask leader)
      (upd (\<lambda>c. c\<lparr>running := 0, monitor_done := monitor_done c + 1, pc_monitor_thread := None\<rparr>)
        (upd (upd_result (\<lambda>r. r\<lparr>exit_code := code\<rparr>)) s2))))"
    if "quiesced s s2" "target_pc_present (ctx_params (ctx s)) \<noteq> 0 \<longrightarrow> disarmed s2" for s2
    using that unfolding run_over_def quiesced_def
    by (simp add: probe_inv_def disarmed_def inode_ref_def task_ref_def targets_wf_def)
  ultimately show ?thesis using q d by simp
qed

lemma exit_end_post:
  assumes "probe_inv s"
  shows "wp (monitor_exit_end K code leader s) (\<lambda>s'. run_over code leader s s')"
  unfolding monitor_exit_end_def
  by (auto intro!: wp_mono [OF join_post [OF assms]] publish_run_over)

section \<open>The loop\<close>

definition verdict :: "'k kernel \<Rightarrow> task \<Rightarrow> bool \<times> int \<Rightarrow> 'k st \<Rightarrow> bool" where
  "verdict K leader r s' \<longleftrightarrow>
     (if fst r then (\<exists>k. fst (k_task_exited K leader k)) \<and> (\<exists>k. snd r = fst (k_task_exit_code K leader k))
      else snd r = 9 \<and> process_hanged (ctx_result (ctx s')) = 1 \<and> (\<exists>k. fst (k_should_stop K k)))"

lemma verdict_exited:
  "k_task_exited K leader k1 = (True, k2) \<Longrightarrow> k_task_exit_code K leader k3 = (c, k4) \<Longrightarrow>
     verdict K leader (True, c) s'"
  unfolding verdict_def by (metis fst_conv snd_conv)

lemma verdict_stopped:
  "k_should_stop K k1 = (True, k2) \<Longrightarrow> process_hanged (ctx_result (ctx s')) = 1 \<Longrightarrow>
     verdict K leader (False, 9) s'"
  unfolding verdict_def by (metis fst_conv snd_conv)

lemma monitor_pass_wp:
  "wp (monitor_pass K leader s) (\<lambda>(r, s'). case r of
     None \<Rightarrow> klog s' = klog s @ [WaitTick] \<and> ctx s' = ctx s | Some r \<Rightarrow> klog s' = klog s \<and> verdict K leader r s')"
  unfolding monitor_pass_def
  by (auto intro!: ask_wpI intro: verdict_exited verdict_stopped)

lemma monitor_loop_verdict:
  assumes "monitor_loop K env leader s = Some (r, s')"
  shows "verdict K leader r s'"
proof -
  have "verdict K leader (fst p) (snd p)" if "monitor_loop K env leader s = Some p" for p
  proof (rule monitor_loop.raw_induct
      [where P = "\<lambda>K env leader s p. verdict K leader (fst p) (snd p)", OF _ that])
    fix f and K :: "'a kernel" and env leader and s :: "'a st" and p
    assume IH: "\<And>K env leader s p. f K env leader s = Some p \<Longrightarrow> verdict K leader (fst p) (snd p)"
      and run: "Option.bind (monitor_pass K leader s) (\<lambda>p. case fst p of
          Some r \<Rightarrow> Some (r, snd p) | None \<Rightarrow> f K env leader (env (snd p))) = Some p"
    obtain r s1 where pass: "monitor_pass K leader s = Some (r, s1)"
      "case r of None \<Rightarrow> klog s1 = klog s @ [WaitTick] \<and> ctx s1 = ctx s
         | Some r \<Rightarrow> klog s1 = klog s \<and> verdict K leader r s1"
      using monitor_pass_wp [of K leader s] by (auto simp: wp_def)
    with run IH show "verdict K leader (fst p) (snd p)" by (cases r) auto
  qed
  from this [OF assms] show ?thesis by simp
qed

section \<open>The start\<close>

definition started :: "'k st \<Rightarrow> int \<Rightarrow> 'k st \<Rightarrow> bool" where
  "started s ret s' \<longleftrightarrow>
     probe_inv s' \<and> same_locks s s' \<and> monitor_done (ctx s') = 0 \<and> exec (ctx s') = exec (ctx s) \<and>
     targets_wf (ctx s') = targets_wf (ctx s) \<and> target_alive (ctx s') = target_alive (ctx s) \<and>
     running (ctx s') = running (ctx s) \<and> target_tgid (ctx s') = target_tgid (ctx s) \<and>
     restore (ctx s') = restore (ctx s) \<and>
     (if pc_monitor_thread (ctx s) \<noteq> None then ret = - EBUSY \<and> klog s' = klog s \<and>
        pc_monitor_thread (ctx s') = pc_monitor_thread (ctx s) \<and>
        bitflip_thread (ctx s') = bitflip_thread (ctx s)
      else net any_task_ref (klog s') = net any_task_ref (klog s) +
             (if pc_monitor_thread (ctx s') = None then 0 else 1) \<and>
           (pc_monitor_thread (ctx s') = None \<or> no_injection (ctx_params (ctx s)) \<noteq> 0 \<longrightarrow>
             bitflip_thread (ctx s') = bitflip_thread (ctx s) \<and> uprobe_active (ctx s') = uprobe_active (ctx s)))"

lemma leader_wpI:
  assumes "\<And>r s' es. klog s' = klog s @ es \<Longrightarrow> ctx s' = ctx s \<Longrightarrow> same_locks s s' \<Longrightarrow>
     net probe_reg es = 0 \<Longrightarrow> (\<And>i. net (inode_ref i) es = 0) \<Longrightarrow>
     net any_task_ref es = (case r of Inl e \<Rightarrow> 0 | Inr t \<Rightarrow> 1) \<Longrightarrow> (\<And>e. r = Inl e \<Longrightarrow> e \<noteq> 0) \<Longrightarrow> Q (r, s')"
  shows "wp (monitor_leader K s) Q"
  unfolding monitor_leader_def
  by (auto simp: Let_def same_locks_def ref_defs inode_ref_def intro!: ask_wpI assms split: option.splits)

definition armed_run :: "'k st \<Rightarrow> 'k st \<Rightarrow> bool" where
  "armed_run s s' \<longleftrightarrow> probe_inv s' \<and> same_refs s s' \<and> monitor_done (ctx s') = monitor_done (ctx s) \<and>
     exec (ctx s') = exec (ctx s) \<and> targets_wf (ctx s') = targets_wf (ctx s) \<and>
     target_alive (ctx s') = target_alive (ctx s) \<and> running (ctx s') = running (ctx s) \<and>
     target_tgid (ctx s') = target_tgid (ctx s) \<and> restore (ctx s') = restore (ctx s) \<and>
     pc_monitor_thread (ctx s') = pc_monitor_thread (ctx s)"

lemma armed_post_run: "armed_post s1 ret s2 \<Longrightarrow> armed_run s s1 \<Longrightarrow> armed_run s s2"
  using same_but_probeD [of "ctx s1" "ctx s2"] same_refs_trans [of s s1 s2]
  by (simp add: armed_post_def armed_run_def)

lemma start_thread_run:
  assumes "probe_inv s"
  shows "wp (fij_start_bitflip_thread K (upd (\<lambda>c. c\<lparr>flip_wq := True, flip_triggered := 0\<rparr>) s))
     (\<lambda>(ret, s'). armed_run s s')"
  unfolding fij_start_bitflip_thread_def using assms
  by (auto simp: armed_run_def same_refs_def ref_defs probe_inv_def inode_ref_def targets_wf_def
      intro!: ask_wpI split: sum.splits)

lemma monitor_arm_run:
  assumes "probe_inv s"
  shows "wp (monitor_arm K s) (\<lambda>(ret, s'). armed_run s s')"
proof -
  have "wp (fij_uprobe_arm K va s1) (\<lambda>(ret, s'). armed_run s s')" if "armed_run s s1" for va s1
    using arm_post [of s1 K va] that by (auto elim!: wp_mono intro: armed_post_run simp: armed_run_def [of s s1])
  then show ?thesis
    unfolding monitor_arm_def
    by (auto simp: Let_def intro!: wp_mono [OF start_thread_run [OF assms]])
qed

lemma probe_inv_upd:
  "uprobe_active (f (ctx s)) = uprobe_active (ctx s) \<Longrightarrow> inj_uprobe (f (ctx s)) = inj_uprobe (ctx s) \<Longrightarrow>
   inj_inode (f (ctx s)) = inj_inode (ctx s) \<Longrightarrow> probe_inv (upd f s) \<longleftrightarrow> probe_inv s"
  by (simp add: probe_inv_def)

text \<open>The state in which the monitor has just been created, with the leader's reference.\<close>

definition created :: "'k st \<Rightarrow> 'k st \<Rightarrow> bool" where
  "created s s' \<longleftrightarrow> probe_inv s' \<and> same_locks s s' \<and> monitor_done (ctx s') = 0 \<and>
     exec (ctx s') = exec (ctx s) \<and> targets_wf (ctx s') = targets_wf (ctx s) \<and>
     target_alive (ctx s') = target_alive (ctx s) \<and> running (ctx s') = running (ctx s) \<and>
     target_tgid (ctx s') = target_tgid (ctx s) \<and> restore (ctx s') = restore (ctx s) \<and>
     pc_monitor_thread (ctx s') \<noteq> None \<and> net any_task_ref (klog s') = net any_task_ref (klog s) + 1"

lemma created_armed: "created s s1 \<Longrightarrow> armed_run s1 s2 \<Longrightarrow> created s s2"
  using same_refs_locks [of s1 s2] same_locks_trans [of s s1 s2] same_refs_any [of s1 s2]
  by (auto simp: created_def armed_run_def)

lemma created_started:
  "created s s' \<Longrightarrow> pc_monitor_thread (ctx s) = None \<Longrightarrow>
     (no_injection (ctx_params (ctx s)) \<noteq> 0 \<Longrightarrow> bitflip_thread (ctx s') = bitflip_thread (ctx s) \<and>
        uprobe_active (ctx s') = uprobe_active (ctx s)) \<Longrightarrow> started s ret s'"
  by (auto simp: created_def started_def)

lemma same_locks_upd: "same_locks (upd f s) s' \<longleftrightarrow> same_locks s s'"
  by (simp add: same_locks_def)

lemma monitor_arm_created:
  assumes "created s s1" "pc_monitor_thread (ctx s) = None" "no_injection (ctx_params (ctx s)) = 0"
  shows "wp (monitor_arm K s1) (\<lambda>(ret, s'). started s ret s')"
proof -
  have "probe_inv s1" using assms(1) by (simp add: created_def)
  then show ?thesis
    by (rule wp_mono [OF monitor_arm_run]) (use assms in \<open>auto intro: created_started created_armed\<close>)
qed

lemma monitor_start_post:
  assumes "probe_inv s"
  shows "wp (fij_monitor_start K s) (\<lambda>(ret, s'). started s ret s')"
proof (cases "pc_monitor_thread (ctx s) = None")
  case False
  with assms show ?thesis
    by (auto simp: fij_monitor_start_def started_def Let_def probe_inv_upd same_locks_def targets_wf_def)
next
  case True
  let ?s = "upd (\<lambda>c. c\<lparr>monitor_done := 0\<rparr>) s"
  show ?thesis
  proof -
    have lost: "started s ret s'" if "klog s' = klog s @ es" "ctx s' = (ctx s)\<lparr>monitor_done := 0\<rparr>"
      "same_locks s s'" "net probe_reg es = 0" "\<And>i. net (inode_ref i) es = 0" "net any_task_ref es = 0" for ret es s'
      using that assms True by (auto simp: started_def probe_inv_def targets_wf_def)
    have made: "created s s'" if "klog s' = klog s @ es" "ctx s' = (ctx s)\<lparr>monitor_done := 0, pc_monitor_thread := Some t\<rparr>"
      "same_locks s s'" "net probe_reg es = 0" "\<And>i. net (inode_ref i) es = 0" "net any_task_ref es = 1" for es s' t
      using that assms by (auto simp: created_def probe_inv_def targets_wf_def)
    have run: "wp (monitor_spawn K l s1) (\<lambda>(ret, s'). started s ret s')"
      if l: "klog s1 = klog s @ es" "ctx s1 = (ctx s)\<lparr>monitor_done := 0\<rparr>" "same_locks s s1"
        "net probe_reg es = 0" "\<And>i. net (inode_ref i) es = 0" "net any_task_ref es = 1" for s1 es l
    proof -
      have a: "created s (upd (\<lambda>c. c\<lparr>pc_monitor_thread := Some t\<rparr>) (noted (KthreadRun t) (s1\<lparr>kern := k\<rparr>)))" for t k
        by (rule made [where es = "es @ [KthreadRun t]" and t = t])
          (use l in \<open>auto simp: same_locks_def ref_defs inode_ref_def\<close>)
      have b: "started s err (tell K Kfree (tell K (PutTask l)
          (upd (\<lambda>c. c\<lparr>pc_monitor_thread := None\<rparr>) (s1\<lparr>kern := k\<rparr>))))" for err k
        by (rule lost [where es = "es @ [PutTask l, Kfree]"])
          (use l True in \<open>auto simp: same_locks_def ref_defs inode_ref_def\<close>)
      show ?thesis
        unfolding monitor_spawn_def using l(2) True
        by (auto simp: Let_def intro!: ask_wpI monitor_arm_created [OF a] b created_started [OF a] split: sum.splits)
    qed
    show ?thesis
      unfolding fij_monitor_start_def
      using True
      by (auto simp: Let_def same_locks_upd intro!: leader_wpI run lost split: sum.splits)
  qed
qed

section \<open>Properties of the monitor\<close>

definition with_pc :: "fij_ctx \<Rightarrow> fij_ctx" where
  "with_pc c = c\<lparr>exec := (exec c)\<lparr>params := (ctx_params c)\<lparr>target_pc_present := 1\<rparr>\<rparr>\<rparr>"

lemma exit_begin_ctx:
  "ctx (monitor_exit_begin K s) = (ctx s)\<lparr>target_alive := False, restore := restore (ctx (monitor_exit_begin K s))\<rparr>"
  "rest_active (restore (ctx (monitor_exit_begin K s))) \<Longrightarrow> rest_page (restore (ctx (monitor_exit_begin K s))) = None"
  "net (task_ref t) (klog (monitor_exit_begin K s)) = net (task_ref t) (klog s)"
  by (auto simp: monitor_exit_begin_def fij_revert_file_backed_bitflip_def Let_def task_ref_def
      split: option.splits)


text \<open>The demo target with its monitor and its injection thread running and the probe armed.\<close>

definition demo_monitored :: "unit st" where
  "demo_monitored = upd (\<lambda>c. c\<lparr>running := 1, target_alive := True, bitflip_thread := Some 22,
     pc_monitor_thread := Some 21\<rparr>) (upd with_pc
       (case fij_uprobe_arm demo 0x1004 demo_target of Some (r, s) \<Rightarrow> s | None \<Rightarrow> demo_target))"

lemma demo_monitored_inv: "probe_inv demo_monitored"
proof -
  obtain s' where run: "fij_uprobe_arm demo 0x1004 demo_target = Some (0, s')" using demo_arm by blast
  have "probe_inv s'" using probe.arm_inv [OF demo_target_inv run] .
  then show ?thesis by (simp add: demo_monitored_def run probe_inv_upd with_pc_def)
qed


text \<open>The loop of the monitor is only left with a reason. Either it saw the leader's exit state set
  and reports the exit code it read, or it was asked to stop, and then the code is \<open>SIGKILL\<close> and the
  result says that the process hanged.\<close>

theorem monitor_reports_why:
  assumes "monitor_loop K env leader s = Some ((exited, code), s')"
  shows "(exited \<and> (\<exists>k k'. fst (k_task_exited K leader k) \<and> code = fst (k_task_exit_code K leader k'))) \<or>
    (\<not> exited \<and> code = 9 \<and> process_hanged (ctx_result (ctx s')) = 1 \<and> (\<exists>k. fst (k_should_stop K k)))"
  using monitor_loop_verdict [OF assms] by (auto simp: verdict_def split: if_splits)

theorem monitor_reports_why_witness:
  "\<exists>s'. monitor_loop (demo\<lparr>k_should_stop := (\<lambda>k. (True, k))\<rparr>) id 1 demo_monitored = Some ((False, 9), s') \<and>
     process_hanged (ctx_result (ctx s')) = 1"
proof -
  let ?K = "(demo :: unit kernel)\<lparr>k_should_stop := (\<lambda>k. (True, k))\<rparr>"
  have "\<exists>s'. monitor_loop ?K id 1 demo_monitored = Some ((False, 9), s')"
    by (subst monitor_loop.simps) (simp add: monitor_pass_def ask_eq demo_def)
  then obtain s' where "monitor_loop ?K id 1 demo_monitored = Some ((False, 9), s')" by blast
  with monitor_reports_why [OF this] show ?thesis by auto
qed

text \<open>Starting a run always returns. A second start is refused with \<open>-EBUSY\<close> (after \<open>monitor_done\<close>
  has been reset). Otherwise the reference taken on the leader is held exactly if the monitor thread
  exists, every lock and pid reference is given back, the probe stays consistent, and with
  \<open>no_injection\<close>, or without a monitor, neither the injection thread nor the probe is touched.\<close>

theorem monitor_start_outcomes:
  assumes "probe_inv s"
  shows "\<exists>ret s'. fij_monitor_start K s = Some (ret, s') \<and> probe_inv s' \<and> same_locks s s' \<and>
    monitor_done (ctx s') = 0 \<and> exec (ctx s') = exec (ctx s) \<and>
    (if pc_monitor_thread (ctx s) \<noteq> None then ret = - EBUSY \<and> klog s' = klog s \<and>
       pc_monitor_thread (ctx s') = pc_monitor_thread (ctx s) \<and> bitflip_thread (ctx s') = bitflip_thread (ctx s)
     else net any_task_ref (klog s') - net any_task_ref (klog s) =
            (if pc_monitor_thread (ctx s') = None then 0 else 1) \<and>
          (pc_monitor_thread (ctx s') = None \<or> no_injection (ctx_params (ctx s)) \<noteq> 0 \<longrightarrow>
            bitflip_thread (ctx s') = bitflip_thread (ctx s) \<and> uprobe_active (ctx s') = uprobe_active (ctx s)))"
proof -
  obtain ret s' where "fij_monitor_start K s = Some (ret, s')" "started s ret s'"
    using monitor_start_post [OF assms, of K] by (auto simp: wp_def)
  then show ?thesis unfolding started_def by (intro exI [of _ ret] exI [of _ s']) (auto split: if_splits)
qed

theorem monitor_start_outcomes_witness:
  "\<exists>ret s'. fij_monitor_start demo demo_target = Some (ret, s') \<and> probe_inv s'"
  using monitor_start_outcomes [OF demo_target_inv, of demo] by blast

text \<open>An error of the start does not mean that nothing runs: when the probe cannot be registered,
  \<open>fij_monitor_start\<close> returns the error and leaves both the monitor and the injection thread running.\<close>

theorem failed_start_leaves_threads:
  "\<exists>s'. fij_monitor_start ((demo :: unit kernel)\<lparr>k_uprobe_register := (\<lambda>i off k. (Inl (- EINVAL), k))\<rparr>)
      (upd (\<lambda>c. c\<lparr>target_pc := 0x1004\<rparr>) (upd with_pc demo_target))
     = Some (- EINVAL, s') \<and> pc_monitor_thread (ctx s') \<noteq> None \<and> bitflip_thread (ctx s') \<noteq> None"
  by (simp add: fij_monitor_start_def monitor_leader_def monitor_spawn_def monitor_arm_def
      fij_start_bitflip_thread_def fij_uprobe_arm_def uprobe_resolve_def fij_va_to_file_off_def ask_eq Let_def
      demo_def demo_vmas_def vma_maps_exe_def vma_file_off_def demo_target_def demo_st_def fij_ctx_init_def
      fij_uprobe_init_work_def zero_ctx_def zero_params_def tell_def noted_def upd_def with_pc_def)

text \<open>\<open>fij_monitor_stop\<close> stops nothing. It emits no event, so no thread is asked to end or waited
  for; it only forgets the thread and completes \<open>monitor_done\<close> in its place.\<close>

theorem monitor_stop_only_forgets:
  "klog (fij_monitor_stop K s) = klog s \<and> kern (fij_monitor_stop K s) = kern s \<and>
   pc_monitor_thread (ctx (fij_monitor_stop K s)) = None \<and>
   bitflip_thread (ctx (fij_monitor_stop K s)) = bitflip_thread (ctx s) \<and>
   monitor_done (ctx (fij_monitor_stop K s)) =
     monitor_done (ctx s) + (if pc_monitor_thread (ctx s) = None then 0 else 1)"
  by (simp add: fij_monitor_stop_def)

end
