(* ===== verification/Fij_Exec.thy ===== *)
theory Fij_Exec
  imports Fij_Monitor
begin

text \<open>
  Starting the target: \<open>core/signal.c\<close>, \<open>core/exec_helper.c\<close> and the first half of \<open>iface/ioctl.c\<close>.
  The argument vector is built from the parameters by the \<open>strsep\<close> loop, the usermode helper runs
  \<open>helper_child_init\<close> in the new child (which ends by sending itself \<open>SIGSTOP\<close>) and executes the
  file, and \<open>fij_start_exec\<close> computes the address of the probe, starts the monitor and lets the
  target go. The reference semantics of the argument loop is \<open>tokens\<close>.
\<close>


section \<open>Killing the target\<close>

definition fij_send_sigkill :: "'k kernel \<Rightarrow> 'k st \<Rightarrow> (int \<times> 'k st) option" where
  "fij_send_sigkill K s =
     (if target_tgid (ctx s) \<le> 0 then Some (- ESRCH, s)
      else do {
        let s = tell K RcuLock s;
        (p, s) \<leftarrow> ask (k_find_get_pid K (target_tgid (ctx s))) s;
        case p of
          None \<Rightarrow> Some (- ESRCH, tell K RcuUnlock s)
        | Some p \<Rightarrow> do {
            let s = tell K (GetPid p) s;
            (r, s) \<leftarrow> ask (k_kill_pid K p SIGKILL) s;
            let s = noted (KillPid SIGKILL p r) s;
            let s = tell K (PutPid p) s;
            Some (r, tell K RcuUnlock s)
          }
      })"

section \<open>The argument vector\<close>

text \<open>\<open>strsep(&cursor, " ")\<close>: the token up to the next space, and the cursor after it; NULL is
  \<open>None\<close>.\<close>

abbreviation space :: char where
  "space \<equiv> CHR 0x20"

fun strsep :: "string option \<Rightarrow> string option \<times> string option" where
  "strsep None = (None, None)"
| "strsep (Some c) = (Some (takeWhile (\<lambda>x. x \<noteq> space) c),
     case dropWhile (\<lambda>x. x \<noteq> space) c of [] \<Rightarrow> None | _ # rest \<Rightarrow> Some rest)"

definition cursor_size :: "string option \<Rightarrow> nat" where
  "cursor_size c = (case c of None \<Rightarrow> 0 | Some s \<Rightarrow> Suc (length s))"

lemma strsep_shrinks: "strsep c = (Some tok, c') \<Longrightarrow> cursor_size c' < cursor_size c"
proof (cases c)
  case (Some s)
  assume "strsep c = (Some tok, c')"
  moreover have "length (dropWhile (\<lambda>x. x \<noteq> space) s) \<le> length s" by (rule length_dropWhile_le)
  ultimately show ?thesis using Some by (auto simp: cursor_size_def split: list.splits)
qed simp

text \<open>The loop; \<open>argc\<close> is the length of the vector so far.\<close>

function argv_loop :: "string list \<Rightarrow> string option \<Rightarrow> string list" where
  "argv_loop argv cursor =
     (if length argv < FIJ_MAX_ARGC + 1 then
        (case strsep cursor of
           (None, _) \<Rightarrow> argv
         | (Some tok, cursor') \<Rightarrow> argv_loop (if tok \<noteq> [] then argv @ [tok] else argv) cursor')
      else argv)"
  by pat_completeness auto
termination
  by (relation "measure (\<lambda>(argv, c). cursor_size c)") (simp_all, metis strsep_shrinks)

declare argv_loop.simps [simp del]

text \<open>What \<open>fij_build_argv_from_params\<close> hands back: \<open>argv\<close> up to its terminating NULL, and whether
  a copy of the arguments was made.\<close>

record argv_bufs =
  b_argv :: "string list"
  b_path :: string
  b_args :: "string option"

definition fij_build_argv_from_params ::
  "'k kernel \<Rightarrow> fij_params \<Rightarrow> 'k st \<Rightarrow> ((int + argv_bufs) \<times> 'k st) option" where
  "fij_build_argv_from_params K p s = do {
     (ok, s) \<leftarrow> ask (k_alloc_ok K) s;
     if \<not> ok then Some (Inl (- ENOMEM), s)
     else do {
       let s = noted (Kmalloc (FIJ_MAX_ARGC + 2)) s;
       (ok, s) \<leftarrow> ask (k_alloc_ok K) s;
       if \<not> ok then Some (Inl (- ENOMEM), tell K Kfree s)
       else do {
         let s = noted (Kmalloc (length (process_path p) + 1)) s;
         let argv = [process_path p];
         if process_args p \<noteq> [] then do {
           (ok, s) \<leftarrow> ask (k_alloc_ok K) s;
           if \<not> ok then Some (Inl (- ENOMEM), tell K Kfree (tell K Kfree s))
           else do {
             let s = noted (Kmalloc (length (process_args p) + 1)) s;
             Some (Inr \<lparr>b_argv = argv_loop argv (Some (process_args p)), b_path = process_path p,
                        b_args = Some (process_args p)\<rparr>, s)
           }
         }
         else Some (Inr \<lparr>b_argv = argv, b_path = process_path p, b_args = None\<rparr>, s)
       }
     }
   }"

section \<open>Running the target\<close>

text \<open>Lines 25 to 58. The test \<open>path && path[0] != "\0"\<close> compares a character with the address of a
  string literal, so it holds for every path, the empty one included.\<close>

definition helper_files :: "'k kernel \<Rightarrow> string \<Rightarrow> 'k st \<Rightarrow> (int \<times> 'k st) option" where
  "helper_files K path s = do {
     (l, s) \<leftarrow> ask (k_filp_open K path) s;
     case l of
       Inl err \<Rightarrow> Some (err, s)
     | Inr log_file \<Rightarrow> do {
         let s = noted (FileOpen log_file) s;
         (n, s) \<leftarrow> ask (k_filp_open K ''/dev/null'') s;
         case n of
           Inl err \<Rightarrow> Some (err, tell K (FilePut log_file) s)
         | Inr null_file \<Rightarrow> do {
             let s = noted (FileOpen null_file) s;
             (fd_stdin, s) \<leftarrow> ask (k_unused_fd K) s;
             (fd_stdout, s) \<leftarrow> ask (k_unused_fd K) s;
             (fd_stderr, s) \<leftarrow> ask (k_unused_fd K) s;
             let s = (if fd_stdin \<ge> 0 then tell K (FdInstall fd_stdin null_file) s
                      else tell K (FilePut null_file) s);
             let s = (if fd_stdout \<ge> 0 then tell K (FdInstall fd_stdout log_file) s else s);
             let s = (if fd_stderr \<ge> 0 then tell K (FdInstall fd_stderr log_file) s else s);
             Some (0, s)
           }
       }
   }"

definition helper_child_init :: "'k kernel \<Rightarrow> task \<Rightarrow> 'k st \<Rightarrow> (int \<times> 'k st) option" where
  "helper_child_init K current s = do {
     (tgid, s) \<leftarrow> ask (k_current_tgid K) s;
     let s = upd (\<lambda>c. c\<lparr>target_tgid := tgid\<rparr>) s;
     (err, s) \<leftarrow> helper_files K (log_path (ctx_params (ctx s))) s;
     if err \<noteq> 0 then Some (err, s)
     else do {
       (_, s) \<leftarrow> send_sig K SIGSTOP current s;
       Some (0, s)
     }
   }"

text \<open>\<open>call_usermodehelper_exec(info, UMH_WAIT_EXEC)\<close> runs the init function in the new child and
  then, unless that fails, executes the file there; it returns once this is done.\<close>

definition fij_exec_and_stop ::
  "'k kernel \<Rightarrow> string \<Rightarrow> string list \<Rightarrow> 'k st \<Rightarrow> (int \<times> 'k st) option" where
  "fij_exec_and_stop K path argv s = do {
     (ok, s) \<leftarrow> ask (k_alloc_ok K) s;
     if \<not> ok then Some (- ENOMEM, s)
     else do {
       (child, s) \<leftarrow> ask (k_umh_run K path argv) s;
       case child of
         Inl ret \<Rightarrow> Some (ret, s)
       | Inr child \<Rightarrow> do {
           (ret, s) \<leftarrow> helper_child_init K child s;
           if ret \<noteq> 0 then Some (ret, s)
           else do {
             (ret, s) \<leftarrow> ask (k_umh_execve K path argv) s;
             Some (ret, if ret = 0 then noted (UmhExec path argv) s else s)
           }
         }
     }
   }"

section \<open>Starting a run\<close>

text \<open>Lines 72 to 97.\<close>

definition start_target_pc :: "'k kernel \<Rightarrow> 'k st \<Rightarrow> (int \<times> 'k st) option" where
  "start_target_pc K s = do {
     (p, s) \<leftarrow> ask (k_find_get_pid K (target_tgid (ctx s))) s;
     let s = (case p of None \<Rightarrow> s | Some p \<Rightarrow> tell K (GetPid p) s);
     let put = (\<lambda>s. case p of None \<Rightarrow> s | Some p \<Rightarrow> tell K (PutPid p) s);
     (t, s) \<leftarrow> (case p of None \<Rightarrow> Some (None, s) | Some p \<Rightarrow> ask (k_pidref_task K p) s);
     (m, s) \<leftarrow> (case t of None \<Rightarrow> Some (None, s) | Some t \<Rightarrow> ask (k_get_task_mm K t) s);
     case m of
       None \<Rightarrow> Some (- EFAULT, put s)
     | Some m \<Rightarrow> do {
         let s = tell K (GetMm m) s;
         (start, s) \<leftarrow> ask (k_start_code K m) s;
         let off = target_pc_off (ctx_params (ctx s));
         let s = upd (\<lambda>c. c\<lparr>target_pc := (if off \<noteq> 0 then start + word_of_int off else start)\<rparr>) s;
         Some (0, put (tell K (PutMm m) s))
       }
   }"

text \<open>Lines 99 to 110.\<close>

definition start_launch :: "'k kernel \<Rightarrow> 'k st \<Rightarrow> (int \<times> 'k st) option" where
  "start_launch K s = do {
     (err, s) \<leftarrow> fij_monitor_start K s;
     if err \<noteq> 0 then Some (err, s)
     else fij_send_cont K (target_tgid (ctx s)) s
   }"

text \<open>Lines 53 to 110, with the buffers at hand.\<close>

definition start_exec_run :: "'k kernel \<Rightarrow> argv_bufs \<Rightarrow> 'k st \<Rightarrow> (int \<times> 'k st) option" where
  "start_exec_run K b s = do {
     (err, s) \<leftarrow> fij_exec_and_stop K (b_path b) (b_argv b) s;
     if err \<noteq> 0 then Some (err, s)
     else do {
       let s = upd (\<lambda>c. c\<lparr>running := 1\<rparr>) s;
       if target_tgid (ctx s) < 0 then Some (- ESRCH, s)
       else do {
         let s = upd (\<lambda>c. c\<lparr>target_alive := True\<rparr>) s;
         (err, s) \<leftarrow> (if target_pc_present (ctx_params (ctx s)) \<noteq> 0 then start_target_pc K s
                      else Some (0, s));
         if err \<noteq> 0 then Some (err, s) else start_launch K s
       }
     }
   }"

definition fij_start_exec :: "'k kernel \<Rightarrow> 'k st \<Rightarrow> (int \<times> 'k st) option" where
  "fij_start_exec K s =
     (if running (ctx s) \<noteq> 0 then Some (- EBUSY, s)
      else do {
        (b, s) \<leftarrow> fij_build_argv_from_params K (ctx_params (ctx s)) s;
        (err, s) \<leftarrow> (case b of
            Inl err \<Rightarrow> Some (err, s)
          | Inr b \<Rightarrow> do {
              (err, s) \<leftarrow> start_exec_run K b s;
              let s = tell K Kfree s;
              let s = (if b_args b \<noteq> None then tell K Kfree s else s);
              Some (err, tell K Kfree s)
            });
        Some (err, if err \<noteq> 0 then upd (\<lambda>c. c\<lparr>running := 0\<rparr>) s else s)
      })"

section \<open>The argument vector, by reference\<close>

text \<open>The words of a command line: cut at every space, without the empty ones.\<close>

fun split_sp :: "string \<Rightarrow> string list" where
  "split_sp [] = [[]]"
| "split_sp (c # cs) =
     (if c = space then [] # split_sp cs
      else case split_sp cs of [] \<Rightarrow> [[c]] | t # ts \<Rightarrow> (c # t) # ts)"

definition tokens :: "string \<Rightarrow> string list" where
  "tokens cs = filter (\<lambda>t. t \<noteq> []) (split_sp cs)"

lemma split_sp_cut:
  "split_sp c = takeWhile (\<lambda>x. x \<noteq> space) c #
     (case dropWhile (\<lambda>x. x \<noteq> space) c of [] \<Rightarrow> [] | _ # rest \<Rightarrow> split_sp rest)"
  by (induction c) auto

lemma tokens_strsep:
  "strsep (Some c) = (Some tok, c') \<Longrightarrow>
     tokens c = (if tok \<noteq> [] then [tok] else []) @ (case c' of None \<Rightarrow> [] | Some r \<Rightarrow> tokens r)"
  unfolding tokens_def split_sp_cut [of c]
  by (cases "dropWhile (\<lambda>x. x \<noteq> space) c") (auto simp del: dropWhile_eq_Nil_conv)

lemma argv_loop_tokens:
  "length argv \<le> FIJ_MAX_ARGC + 1 \<Longrightarrow> argv_loop argv c =
     argv @ take (FIJ_MAX_ARGC + 1 - length argv) (case c of None \<Rightarrow> [] | Some r \<Rightarrow> tokens r)"
proof (induction argv c rule: argv_loop.induct)
  case (1 argv c)
  show ?case
  proof (cases c)
    case None
    then show ?thesis by (subst argv_loop.simps) simp
  next
    case (Some r)
    obtain tok c' where sep: "strsep (Some r) = (Some tok, c')" by simp
    show ?thesis
    proof (cases "length argv < FIJ_MAX_ARGC + 1")
      case True
      then have "FIJ_MAX_ARGC + 1 - length argv = Suc (FIJ_MAX_ARGC - length argv)" by simp
      moreover have "argv_loop (if tok \<noteq> [] then argv @ [tok] else argv) c' =
          (if tok \<noteq> [] then argv @ [tok] else argv) @
          take (FIJ_MAX_ARGC + 1 - length (if tok \<noteq> [] then argv @ [tok] else argv))
            (case c' of None \<Rightarrow> [] | Some r \<Rightarrow> tokens r)"
        by (rule 1(1) [OF True]) (use True sep Some in auto)
      ultimately show ?thesis
        using True sep tokens_strsep [OF sep] Some by (subst argv_loop.simps) simp
    next
      case False
      with 1(2) Some show ?thesis by (subst argv_loop.simps) simp
    qed
  qed
qed

text \<open>Joining words with single spaces.\<close>

fun join_sp :: "string list \<Rightarrow> string" where
  "join_sp [] = []"
| "join_sp [w] = w"
| "join_sp (w # ws) = w @ space # join_sp ws"

lemma split_sp_word: "space \<notin> set w \<Longrightarrow> split_sp w = [w]"
  by (induction w) auto

lemma split_sp_app: "space \<notin> set w \<Longrightarrow> split_sp (w @ space # r) = w # split_sp r"
  by (induction w) auto

lemma tokens_join:
  assumes "\<And>w. w \<in> set ws \<Longrightarrow> w \<noteq> [] \<and> space \<notin> set w"
  shows "tokens (join_sp ws) = ws"
  using assms
  by (induction ws rule: join_sp.induct) (auto simp: tokens_def split_sp_app split_sp_word)

lemma token_chars: "t \<in> set (split_sp c) \<Longrightarrow> space \<notin> set t"
proof (induction c arbitrary: t)
  case (Cons x c)
  then show ?case by (cases "split_sp c") (auto split: if_splits)
qed simp

text \<open>Buffers: an allocation and its release.\<close>

fun heap_ref :: "kev \<Rightarrow> int" where
  "heap_ref (Kmalloc n) = 1"
| "heap_ref Kfree = - 1"
| "heap_ref _ = 0"

definition argv_of :: "fij_params \<Rightarrow> string list" where
  "argv_of p = process_path p # take FIJ_MAX_ARGC (tokens (process_args p))"

definition built :: "fij_params \<Rightarrow> 'k st \<Rightarrow> int + argv_bufs \<Rightarrow> 'k st \<Rightarrow> bool" where
  "built p s r s' \<longleftrightarrow> ctx s' = ctx s \<and> log_ext quiet_ev s s' \<and>
     (case r of
        Inl err \<Rightarrow> err = - ENOMEM \<and> net heap_ref (klog s') = net heap_ref (klog s)
      | Inr b \<Rightarrow> b_argv b = argv_of p \<and> b_path b = process_path p \<and>
          net heap_ref (klog s') = net heap_ref (klog s) + (if b_args b = None then 2 else 3))"

lemma build_argv_post:
  "wp (fij_build_argv_from_params K p s) (\<lambda>(r, s'). built p s r s')"
  unfolding fij_build_argv_from_params_def
  by (auto simp: Let_def built_def argv_of_def argv_loop_tokens FIJ_MAX_ARGC_def log_ext_append tokens_def
      intro!: ask_wpI)

text \<open>C30: The argument vector is the path followed by the words of \<open>process_args\<close>, cut at spaces with
  runs of spaces skipped, at most \<open>FIJ_MAX_ARGC\<close> of them; with its terminating NULL it fits the array
  of \<open>FIJ_MAX_ARGC + 2\<close> pointers. On failure every buffer is released.\<close>

theorem build_argv_correct:
  "\<exists>r s'. fij_build_argv_from_params K p s = Some (r, s') \<and> ctx s' = ctx s \<and>
    (case r of
       Inl err \<Rightarrow> err = - ENOMEM \<and> net heap_ref (klog s') = net heap_ref (klog s)
     | Inr b \<Rightarrow> b_argv b = process_path p # take FIJ_MAX_ARGC (tokens (process_args p)) \<and>
         length (b_argv b) + 1 \<le> FIJ_MAX_ARGC + 2 \<and>
         list_all (\<lambda>w. w \<noteq> [] \<and> space \<notin> set w) (tl (b_argv b)))"
proof -
  obtain r s' where "fij_build_argv_from_params K p s = Some (r, s')" "built p s r s'"
    using build_argv_post [of K p s] by (auto simp: wp_def)
  moreover have "w \<in> set (take n (tokens c)) \<Longrightarrow> w \<noteq> [] \<and> space \<notin> set w" for w n c
    using token_chars by (auto simp: tokens_def dest!: in_set_takeD)
  ultimately show ?thesis
    by (intro exI [of _ r] exI [of _ s']) (auto simp: built_def argv_of_def list_all_iff split: sum.splits)
qed

text \<open>Any list of at most \<open>FIJ_MAX_ARGC\<close> non-empty words without spaces survives the trip: joined
  with single spaces as \<open>process_args\<close>, it comes back as the arguments of the target.\<close>

theorem argv_roundtrip:
  assumes "\<forall>w \<in> set ws. w \<noteq> [] \<and> space \<notin> set w" and "length ws \<le> FIJ_MAX_ARGC"
    and "fij_build_argv_from_params K (p\<lparr>process_args := join_sp ws\<rparr>) s = Some (Inr b, s')"
  shows "b_argv b = process_path p # ws"
proof -
  have "built (p\<lparr>process_args := join_sp ws\<rparr>) s (Inr b) s'"
    using build_argv_post [of K "p\<lparr>process_args := join_sp ws\<rparr>" s] assms(3) by (auto simp: wp_def)
  with assms(1,2) show ?thesis by (simp add: built_def argv_of_def tokens_join)
qed

theorem argv_roundtrip_witness:
  "\<exists>b s'. fij_build_argv_from_params demo
       (zero_params\<lparr>process_path := ''/bin/ls'', process_args := join_sp [''-l'', ''/tmp'']\<rparr>) demo_st =
       Some (Inr b, s') \<and> b_argv b = [''/bin/ls'', ''-l'', ''/tmp'']"
proof -
  let ?p = "zero_params\<lparr>process_path := ''/bin/ls''\<rparr>"
  have "\<exists>b s'. fij_build_argv_from_params demo (?p\<lparr>process_args := join_sp [''-l'', ''/tmp'']\<rparr>) demo_st =
      Some (Inr b, s')"
    by (simp add: fij_build_argv_from_params_def ask_eq demo_def Let_def)
  then obtain b s' where run: "fij_build_argv_from_params demo
      (?p\<lparr>process_args := join_sp [''-l'', ''/tmp'']\<rparr>) demo_st = Some (Inr b, s')" by blast
  have "b_argv b = process_path ?p # [''-l'', ''/tmp'']"
    by (rule argv_roundtrip [OF _ _ run]) (auto simp: FIJ_MAX_ARGC_def)
  with run show ?thesis by simp
qed

section \<open>Which signals and files a start touches\<close>

text \<open>What an event adds to the number of \<open>SIGCONT\<close> sent, and to the references this code holds on an
  open file: \<open>fd_install\<close> hands one over to the descriptor table.\<close>

fun sigcont :: "kev \<Rightarrow> int" where
  "sigcont (SendSig SIGCONT t r) = 1"
| "sigcont _ = 0"

definition file_ref :: "kfile \<Rightarrow> kev \<Rightarrow> int" where
  "file_ref f e = (case e of FileOpen g \<Rightarrow> of_bool (g = f) | FilePut g \<Rightarrow> - of_bool (g = f)
     | FdInstall fd g \<Rightarrow> - of_bool (g = f) | _ \<Rightarrow> 0)"

text \<open>Events of the child before it runs the target.\<close>

fun helper_ev :: "kev \<Rightarrow> bool" where
  "helper_ev (FileOpen f) = True"
| "helper_ev (FilePut f) = True"
| "helper_ev (FdInstall fd f) = True"
| "helper_ev _ = False"

text \<open>The child's log: files first; then, when the init function succeeds, \<open>SIGSTOP\<close> to itself; and
  only then the file is executed.\<close>

definition helper_log :: "task \<Rightarrow> int \<Rightarrow> kev list \<Rightarrow> bool" where
  "helper_log c ret es \<longleftrightarrow>
     (\<exists>fs r. list_all helper_ev fs \<and> es = fs @ (if ret = 0 then [SendSig SIGSTOP c r] else []))"

definition exec_log :: "string \<Rightarrow> string list \<Rightarrow> int \<Rightarrow> kev list \<Rightarrow> bool" where
  "exec_log path argv ret es \<longleftrightarrow> es = [] \<or> (\<exists>c e. helper_log c e es) \<or>
     (ret = 0 \<and> (\<exists>c fs. helper_log c 0 fs \<and> es = fs @ [UmhExec path argv]))"

definition stopped_child :: "task \<Rightarrow> int \<Rightarrow> 'k st \<Rightarrow> 'k st \<Rightarrow> bool" where
  "stopped_child c ret s s' \<longleftrightarrow> (ctx s')\<lparr>target_tgid := 0\<rparr> = (ctx s)\<lparr>target_tgid := 0\<rparr> \<and>
     emits (helper_log c ret) s s'"

definition execed :: "string \<Rightarrow> string list \<Rightarrow> int \<Rightarrow> 'k st \<Rightarrow> 'k st \<Rightarrow> bool" where
  "execed path argv ret s s' \<longleftrightarrow> (ctx s')\<lparr>target_tgid := 0\<rparr> = (ctx s)\<lparr>target_tgid := 0\<rparr> \<and>
     emits (exec_log path argv ret) s s'"

lemma helper_files_wp:
  "wp (helper_files K path s) (\<lambda>(ret, s'). ctx s' = ctx s \<and> log_ext helper_ev s s')"
  unfolding helper_files_def
  by (auto simp: Let_def log_ext_def intro!: ask_wpI split: sum.splits)

lemma helper_child_wp:
  "wp (helper_child_init K c s) (\<lambda>(ret, s'). stopped_child c ret s s')"
  unfolding helper_child_init_def
  by (auto simp: Let_def stopped_child_def log_ext_iff emits_append helper_log_def
      intro!: ask_wpI wp_mono [OF helper_files_wp] send_sig_wpI)

lemma not_execed: "execed path argv ret s (s\<lparr>kern := k\<rparr>)"
  by (simp add: execed_def emits_same exec_log_def)

lemma init_failed: "stopped_child c e (s\<lparr>kern := k\<rparr>) s1 \<Longrightarrow> klog s2 = klog s1 \<Longrightarrow> ctx s2 = ctx s1 \<Longrightarrow>
    execed path argv ret s s2"
  unfolding stopped_child_def execed_def emits_iff exec_log_def by auto

lemma exec_ran: "stopped_child c 0 (s\<lparr>kern := k\<rparr>) s1 \<Longrightarrow>
    execed path argv 0 s (noted (UmhExec path argv) (s1\<lparr>kern := k'\<rparr>))"
  unfolding stopped_child_def execed_def emits_iff exec_log_def by auto

lemma exec_and_stop_wp:
  "wp (fij_exec_and_stop K path argv s) (\<lambda>(ret, s'). execed path argv ret s s')"
  unfolding fij_exec_and_stop_def
  by (auto intro!: ask_wpI wp_mono [OF helper_child_wp] not_execed exec_ran intro: init_failed split: sum.splits)

text \<open>\<open>filp_open\<close> returns a file or a negative error code.\<close>

definition filp_open_law :: "'k kernel \<Rightarrow> bool" where
  "filp_open_law K \<longleftrightarrow> (\<forall>p k e. fst (k_filp_open K p k) = Inl e \<longrightarrow> e < 0)"

text \<open>C29: The target never runs before it is stopped. Whatever the kernel answers, the helper touches
  only files until it has sent \<open>SIGSTOP\<close> to the new child, at most one file is executed, it is the
  requested one with the requested arguments, it comes right after that signal and only in a call that
  returns 0.\<close>

theorem exec_stops_target_first:
  assumes "fij_exec_and_stop K path argv s = Some (ret, s')" and "klog s' = klog s @ es"
    and "UmhExec p a \<in> set es"
  shows "p = path \<and> a = argv \<and> ret = 0 \<and>
    (\<exists>fs c r. list_all helper_ev fs \<and> es = fs @ [SendSig SIGSTOP c r, UmhExec path argv])"
proof -
  have "execed path argv ret s s'"
    using exec_and_stop_wp [of K path argv s] assms(1) by (auto simp: wp_def)
  then have log: "exec_log path argv ret es" using assms(2) by (simp add: execed_def emits_append)
  have "UmhExec p a \<notin> set fs" if "list_all helper_ev fs" for fs p a
    using that by (auto simp: list_all_iff)
  with log assms(3) show ?thesis by (fastforce simp: exec_log_def helper_log_def split: if_splits)
qed

theorem exec_stops_target_first_witness:
  "\<exists>s' fs c r. fij_exec_and_stop (demo :: unit kernel) ''/bin/t'' [''/bin/t''] demo_st = Some (0, s') \<and>
     klog s' = fs @ [SendSig SIGSTOP c r, UmhExec ''/bin/t'' [''/bin/t'']]"
proof -
  have "\<exists>s'. fij_exec_and_stop (demo :: unit kernel) ''/bin/t'' [''/bin/t''] demo_st = Some (0, s') \<and>
      UmhExec ''/bin/t'' [''/bin/t''] \<in> set (klog s')"
    by (simp add: fij_exec_and_stop_def helper_child_init_def helper_files_def ask_eq send_sig_def Let_def demo_def)
  then obtain s' where run: "fij_exec_and_stop (demo :: unit kernel) ''/bin/t'' [''/bin/t''] demo_st = Some (0, s')"
    and ex: "UmhExec ''/bin/t'' [''/bin/t''] \<in> set (klog s')" by blast
  have "klog s' = klog demo_st @ klog s'" by (simp add: demo_st_def)
  from exec_stops_target_first [OF run this ex] run show ?thesis by blast
qed

text \<open>The log file is over-released. When both output descriptors are available, the one reference
  that \<open>filp_open\<close> returned is handed to the descriptor table twice, for standard output and for
  standard error; the input file is accounted for correctly.\<close>

theorem helper_over_installs_log:
  assumes "filp_open_law K" and "helper_files K path s = Some (0, s')"
    and "\<And>k. 0 \<le> fst (k_unused_fd K k)"
  shows "\<exists>log_file null_file es. klog s' = klog s @ es \<and> FileOpen log_file \<in> set es \<and>
    (log_file \<noteq> null_file \<longrightarrow> net (file_ref log_file) es = - 1 \<and> net (file_ref null_file) es = 0)"
proof -
  have ne: "fst (k_filp_open K p k) \<noteq> Inl 0" for p k
    using assms(1) by (metis filp_open_law_def less_irrefl)
  obtain l n a b c where log: "klog s' = klog s @
      [FileOpen l, FileOpen n, FdInstall a n, FdInstall b l, FdInstall c l]"
    using assms(2) ne
    by (auto simp: helper_files_def ask_eq Let_def assms(3) split: sum.split_asm)
  then show ?thesis by (intro exI) (auto simp: file_ref_def)
qed

definition demo_fds :: "unit kernel" where
  "demo_fds = demo\<lparr>k_filp_open := (\<lambda>p k. (Inr (length p), k))\<rparr>"

theorem helper_over_installs_log_witness:
  "\<exists>s' log_file null_file es. helper_files demo_fds ''/log'' demo_st = Some (0, s') \<and>
     klog s' = klog demo_st @ es \<and> FileOpen log_file \<in> set es \<and>
     (log_file \<noteq> null_file \<longrightarrow> net (file_ref log_file) es = - 1)"
proof -
  have laws: "filp_open_law demo_fds" "0 \<le> fst (k_unused_fd demo_fds k)" for k
    by (simp_all add: filp_open_law_def demo_fds_def demo_def)
  have "\<exists>s'. helper_files demo_fds ''/log'' demo_st = Some (0, s')"
    by (simp add: helper_files_def ask_eq Let_def demo_fds_def demo_def)
  then obtain s' where run: "helper_files demo_fds ''/log'' demo_st = Some (0, s')" by blast
  with helper_over_installs_log [OF laws(1) run laws(2)] show ?thesis by blast
qed

text \<open>An empty \<open>log_path\<close> is opened like any other. The test that should skip it compares a character
  with the address of a string literal, so when \<open>filp_open\<close> rejects the empty name the helper fails,
  and nothing is executed.\<close>

theorem empty_log_path_fails:
  assumes "log_path (ctx_params (ctx s)) = []" and "\<And>k. fst (k_filp_open K [] k) = Inl (- ENOENT)"
  shows "(\<exists>s'. helper_child_init K c s = Some (- ENOENT, s') \<and> klog s' = klog s) \<and>
    (\<exists>ret s'. fij_exec_and_stop K path argv s = Some (ret, s') \<and> klog s' = klog s)"
proof -
  have "\<exists>s'. helper_child_init K c s1 = Some (- ENOENT, s') \<and> klog s' = klog s1"
    if "log_path (ctx_params (ctx s1)) = []" for c and s1 :: "'a st"
    using that assms(2)
    by (auto simp: helper_child_init_def helper_files_def ask_eq)
  note init = this
  moreover have "\<exists>ret s'. fij_exec_and_stop K path argv s = Some (ret, s') \<and> klog s' = klog s"
  proof -
    have "wp (helper_child_init K c (s\<lparr>kern := k\<rparr>)) (\<lambda>(ret, s'). ret = - ENOENT \<and> klog s' = klog s)" for c k
      using init [of "s\<lparr>kern := k\<rparr>" c] assms(1) by (auto simp: wp_def)
    note failed = wp_mono [OF this]
    have "wp (fij_exec_and_stop K path argv s) (\<lambda>(ret, s'). klog s' = klog s)"
      unfolding fij_exec_and_stop_def by (auto intro!: ask_wpI failed split: sum.splits)
    then show ?thesis by (auto simp: wp_def)
  qed
  ultimately show ?thesis using assms(1) by blast
qed

definition demo_nofile :: "unit kernel" where
  "demo_nofile = demo\<lparr>k_filp_open := (\<lambda>p k. (Inl (- ENOENT), k))\<rparr>"

lemma demo_log_path: "log_path (ctx_params (ctx demo_st)) = []"
  by (simp add: demo_st_def fij_ctx_init_def fij_uprobe_init_work_def zero_ctx_def zero_params_def)

theorem empty_log_path_fails_witness:
  "\<exists>s'. helper_child_init demo_nofile 1 demo_st = Some (- ENOENT, s') \<and> klog s' = klog demo_st"
proof -
  have "fst (k_filp_open demo_nofile [] k) = Inl (- ENOENT)" for k by (simp add: demo_nofile_def)
  from empty_log_path_fails [OF demo_log_path this, of 1] show ?thesis by blast
qed

section \<open>A start, as a whole\<close>

text \<open>Until \<open>fij_send_cont\<close> nothing of a start sends \<open>SIGCONT\<close>.\<close>

definition calm :: "'k st \<Rightarrow> 'k st \<Rightarrow> bool" where
  "calm s s' \<longleftrightarrow> net sigcont (klog s') = net sigcont (klog s)"

lemma calm_wlp:
  assumes "wlp m (\<lambda>(r, s'). calm s s')" and "\<And>r s'. calm s s' \<Longrightarrow> Q (r, s')"
  shows "wlp m Q"
  by (rule wlp_mono [OF assms(1)]) (auto intro: assms(2))

lemma va_off_calm: "wlp (fij_va_to_file_off K t va oi oo s) (\<lambda>(r, s'). calm s s')"
  unfolding fij_va_to_file_off_def
  by (auto simp: Let_def calm_def intro!: ask_wlpI split: option.splits)

lemma resolve_calm: "wlp (uprobe_resolve K va s) (\<lambda>(r, s'). calm s s')"
  unfolding uprobe_resolve_def
  by (auto simp: Let_def calm_def intro!: ask_wlpI calm_wlp [OF va_off_calm] split: option.splits)

lemma arm_calm: "wlp (fij_uprobe_arm K va s) (\<lambda>(r, s'). calm s s')"
  unfolding fij_uprobe_arm_def
  by (auto simp: Let_def calm_def intro!: ask_wlpI calm_wlp [OF resolve_calm] split: option.splits sum.splits)

lemma monitor_arm_calm: "wlp (monitor_arm K s) (\<lambda>(r, s'). calm s s')"
  unfolding monitor_arm_def fij_start_bitflip_thread_def
  by (auto simp: Let_def calm_def intro!: ask_wlpI calm_wlp [OF arm_calm] split: sum.splits)

lemma leader_calm: "wlp (monitor_leader K s) (\<lambda>(r, s'). calm s s')"
  unfolding monitor_leader_def
  by (auto simp: Let_def calm_def intro!: ask_wlpI split: option.splits)

lemma monitor_start_calm: "wlp (fij_monitor_start K s) (\<lambda>(r, s'). calm s s')"
  unfolding fij_monitor_start_def monitor_spawn_def
  by (auto simp: Let_def calm_def
      intro!: ask_wlpI calm_wlp [OF leader_calm] calm_wlp [OF monitor_arm_calm] split: sum.splits)

lemma exec_calm:
  assumes "execed path argv ret s s'"
  shows "calm s s'"
proof -
  have "net sigcont fs = 0" if "list_all helper_ev fs" for fs
    using that
  proof (induction fs)
    case (Cons e fs) then show ?case by (cases e) auto
  qed simp
  moreover have "sigcont (SendSig SIGSTOP c r) = 0" for c r by simp
  ultimately have "net sigcont es = 0" if "exec_log path argv ret es" for es
    using that by (auto simp: exec_log_def helper_log_def split: if_splits)
  then show ?thesis using assms by (auto simp: calm_def execed_def emits_iff)
qed

lemma exec_probe:
  assumes "execed path argv ret s s'"
  shows "probe_inv s' \<longleftrightarrow> probe_inv s"
proof -
  have "net probe_reg fs = 0 \<and> net (inode_ref i) fs = 0" if "list_all helper_ev fs" for fs i
    using that
  proof (induction fs)
    case (Cons e fs) then show ?case by (cases e) (auto simp: inode_ref_def)
  qed simp
  then have "net probe_reg es = 0 \<and> net (inode_ref i) es = 0" if "exec_log path argv ret es" for es i
    using that by (auto simp: exec_log_def helper_log_def inode_ref_def split: if_splits)
  moreover obtain es where "klog s' = klog s @ es" "exec_log path argv ret es"
    using assms by (auto simp: execed_def emits_iff)
  moreover have "uprobe_active (ctx s') = uprobe_active (ctx s)" "inj_uprobe (ctx s') = inj_uprobe (ctx s)"
    "inj_inode (ctx s') = inj_inode (ctx s)"
    using assms unfolding execed_def by (metis fij_ctx.select_convs fij_ctx.update_convs fij_ctx.surjective)+
  ultimately show ?thesis by (intro probe_inv_cong) auto
qed

text \<open>What every part of a start keeps.\<close>

definition kept :: "'k st \<Rightarrow> 'k st \<Rightarrow> bool" where
  "kept s s' \<longleftrightarrow> probe_inv s' \<and> exec (ctx s') = exec (ctx s) \<and> targets_wf (ctx s') = targets_wf (ctx s)"

definition begun :: "'k st \<Rightarrow> int \<Rightarrow> 'k st \<Rightarrow> bool" where
  "begun s ret s' \<longleftrightarrow> kept s s' \<and>
     (if ret = 0 then net sigcont (klog s') = net sigcont (klog s) + 1 \<and> running (ctx s') = 1 \<and>
        target_alive (ctx s')
      else calm s s')"

definition same_but_pc :: "fij_ctx \<Rightarrow> fij_ctx \<Rightarrow> bool" where
  "same_but_pc c c' \<longleftrightarrow> c'\<lparr>target_pc := 0\<rparr> = c\<lparr>target_pc := 0\<rparr>"

lemma same_but_pcD:
  assumes "same_but_pc c c'"
  shows "exec c' = exec c" "running c' = running c" "target_alive c' = target_alive c"
    "uprobe_active c' = uprobe_active c" "inj_uprobe c' = inj_uprobe c" "inj_inode c' = inj_inode c"
    "targets c' = targets c" "ntargets c' = ntargets c" "capacity c' = capacity c"
  using assms unfolding same_but_pc_def
  by (metis fij_ctx.select_convs fij_ctx.update_convs fij_ctx.surjective)+

lemma target_pc_wlpI:
  assumes "\<And>ret s' es. klog s' = klog s @ es \<Longrightarrow> same_but_pc (ctx s) (ctx s') \<Longrightarrow> net sigcont es = 0 \<Longrightarrow>
      net probe_reg es = 0 \<Longrightarrow> (\<And>i. net (inode_ref i) es = 0) \<Longrightarrow> Q (ret, s')"
  shows "wlp (start_target_pc K s) Q"
  unfolding start_target_pc_def
  by (auto simp: Let_def inode_ref_def same_but_pc_def intro!: ask_wlpI assms split: option.splits)

lemma cont_kept_wlpI:
  assumes "\<And>ret s'. ctx s' = ctx s \<Longrightarrow> kept s s' \<Longrightarrow>
      net sigcont (klog s') = net sigcont (klog s) + (if ret = 0 then 1 else 0) \<Longrightarrow> Q (ret, s')" and "probe_inv s"
  shows "wlp (fij_send_cont K t s) Q"
  unfolding fij_send_cont_def using assms(2)
  by (auto simp: Let_def kept_def probe_inv_def inode_ref_def intro!: ask_wlpI send_sig_wlpI assms(1) split: option.splits)

lemma exec_keeps:
  assumes "execed path argv ret s s'" and "probe_inv s"
  shows "kept s s'" and "calm s s'"
proof -
  have "exec (ctx s') = exec (ctx s)" "targets (ctx s') = targets (ctx s)" "ntargets (ctx s') = ntargets (ctx s)"
    "capacity (ctx s') = capacity (ctx s)"
    using assms unfolding execed_def by (metis fij_ctx.select_convs fij_ctx.update_convs fij_ctx.surjective)+
  then show "kept s s'" using assms exec_probe [OF assms(1)] by (simp add: kept_def targets_wf_def)
  show "calm s s'" by (rule exec_calm [OF assms(1)])
qed

lemma monitor_start_kept:
  assumes "probe_inv s"
  shows "wlp (fij_monitor_start K s) (\<lambda>(r, s'). kept s s' \<and> calm s s' \<and> running (ctx s') = running (ctx s) \<and>
     target_alive (ctx s') = target_alive (ctx s))"
proof -
  have "wlp (fij_monitor_start K s) (\<lambda>x. (case x of (r, s') \<Rightarrow> started s r s') \<and> (case x of (r, s') \<Rightarrow> calm s s'))"
    by (intro wlp_conj monitor_start_calm wp_imp_wlp [OF monitor_start_post [OF assms]])
  then show ?thesis by (rule wlp_mono) (auto simp: started_def kept_def)
qed

text \<open>The state before the monitor is started, without and with the flags of a running target.\<close>

definition mid :: "'k st \<Rightarrow> 'k st \<Rightarrow> bool" where
  "mid s s1 \<longleftrightarrow> kept s s1 \<and> calm s s1"

definition live :: "'k st \<Rightarrow> 'k st \<Rightarrow> bool" where
  "live s s1 \<longleftrightarrow> mid s s1 \<and> running (ctx s1) = 1 \<and> target_alive (ctx s1)"

lemma mid_failed: "mid s s1 \<Longrightarrow> ret \<noteq> 0 \<Longrightarrow> begun s ret s1"
  by (simp add: mid_def begun_def)

lemma mid_running: "mid s s1 \<Longrightarrow> mid s (upd (\<lambda>c. c\<lparr>running := 1\<rparr>) s1)"
  by (auto simp: mid_def kept_def calm_def probe_inv_def targets_wf_def)

lemma mid_live: "mid s s1 \<Longrightarrow>
    live s (upd (\<lambda>c. c\<lparr>target_alive := True\<rparr>) (upd (\<lambda>c. c\<lparr>running := 1\<rparr>) s1))"
  by (auto simp: live_def mid_def kept_def calm_def probe_inv_def targets_wf_def)

lemma live_failed: "live s s1 \<Longrightarrow> ret \<noteq> 0 \<Longrightarrow> begun s ret s1"
  by (simp add: live_def mid_failed)

lemma exec_mid_wlpI:
  assumes "probe_inv s" and "\<And>ret s'. mid s s' \<Longrightarrow> Q (ret, s')"
  shows "wlp (fij_exec_and_stop K path argv s) Q"
  by (rule wlp_mono [OF wp_imp_wlp [OF exec_and_stop_wp]])
    (use exec_keeps [OF _ assms(1)] in \<open>auto simp: mid_def intro!: assms(2)\<close>)

lemma target_pc_live_wlpI:
  fixes s s1 :: "'a st"
  assumes "live s s1" and "\<And>ret s'. live s s' \<Longrightarrow> Q (ret, s')"
  shows "wlp (start_target_pc K s1) Q"
proof (rule target_pc_wlpI)
  fix ret es and s' :: "'a st"
  assume "klog s' = klog s1 @ es" "same_but_pc (ctx s1) (ctx s')" "net sigcont es = 0" "net probe_reg es = 0"
    "\<And>i. net (inode_ref i) es = 0"
  then have "live s s'"
    using assms(1) same_but_pcD [of "ctx s1" "ctx s'"]
    by (auto simp: live_def mid_def kept_def calm_def probe_inv_def targets_wf_def)
  then show "Q (ret, s')" by (rule assms(2))
qed

lemma launch_wlp:
  assumes "live s s1"
  shows "wlp (start_launch K s1) (\<lambda>(ret, s'). begun s ret s')"
  unfolding start_launch_def using assms
  by (auto simp: live_def mid_def begun_def kept_def calm_def intro!: wlp_mono [OF monitor_start_kept] cont_kept_wlpI)

lemma start_exec_run_post:
  assumes "probe_inv s"
  shows "wlp (start_exec_run K b s) (\<lambda>(ret, s'). begun s ret s')"
  unfolding start_exec_run_def
  by (auto simp: Let_def intro!: exec_mid_wlpI [OF assms] target_pc_live_wlpI launch_wlp mid_running mid_live
      intro: mid_failed live_failed)

lemma same_exec_build: "built p s r s' \<Longrightarrow> probe_inv s \<Longrightarrow> mid s s'"
proof -
  assume b: "built p s r s'" and "probe_inv s"
  then obtain es where "klog s' = klog s @ es" "list_all quiet_ev es" "ctx s' = ctx s"
    by (auto simp: built_def log_ext_iff)
  moreover have "quiet_ev e \<Longrightarrow> sigcont e = 0 \<and> probe_reg e = 0 \<and> inode_ref i e = 0" for e i
    by (cases e) (auto simp: inode_ref_def)
  ultimately show "mid s s'" using \<open>probe_inv s\<close>
    by (auto simp: mid_def kept_def calm_def probe_inv_def net_zero [where P = quiet_ev])
qed

lemma begun_frees: "begun s ret s' \<Longrightarrow> begun s ret (tell K Kfree s')"
  by (auto simp: begun_def kept_def calm_def probe_inv_def inode_ref_def)

lemma begun_trans: "mid s s1 \<Longrightarrow> begun s1 ret s' \<Longrightarrow> begun s ret s'"
  by (auto simp: mid_def begun_def kept_def calm_def)

lemma begun_off: "begun s ret s' \<Longrightarrow> ret \<noteq> 0 \<Longrightarrow> begun s ret (upd (\<lambda>c. c\<lparr>running := 0\<rparr>) s')"
  by (auto simp: begun_def kept_def calm_def probe_inv_def targets_wf_def)

text \<open>The outcome of a start: a failed one sent no \<open>SIGCONT\<close> and leaves \<open>running\<close> at 0.\<close>

definition exec_outcome :: "'k st \<Rightarrow> int \<Rightarrow> 'k st \<Rightarrow> bool" where
  "exec_outcome s ret s' \<longleftrightarrow> begun s ret s' \<and> (ret \<noteq> 0 \<longrightarrow> running (ctx s') = 0)"

lemma start_exec_post:
  assumes "probe_inv s" and "running (ctx s) = 0"
  shows "wlp (fij_start_exec K s) (\<lambda>(ret, s'). exec_outcome s ret s')"
proof -
  have bld: "wlp (fij_build_argv_from_params K (ctx_params (ctx s)) s) Q"
    if "\<And>r s'. mid s s' \<Longrightarrow> (\<And>err. r = Inl err \<Longrightarrow> err \<noteq> 0) \<Longrightarrow> Q (r, s')" for Q
    by (rule wlp_mono [OF wp_imp_wlp [OF build_argv_post]])
      (auto intro!: that same_exec_build [OF _ assms(1)] simp: built_def)
  have run: "wlp (start_exec_run K b s1) Q"
    if "mid s s1" "\<And>r s'. begun s r s' \<Longrightarrow> Q (r, s')" for b s1 Q
  proof (rule wlp_mono [OF start_exec_run_post])
    show "probe_inv s1" using that(1) by (simp add: mid_def kept_def)
  qed (use that(2) begun_trans [OF that(1)] in auto)
  have ok: "exec_outcome s ret s1" if "begun s ret s1" "ret = 0" for ret s1
    using that by (simp add: exec_outcome_def)
  have bad: "exec_outcome s ret (upd (\<lambda>c. c\<lparr>running := 0\<rparr>) s1)" if "begun s ret s1" "ret \<noteq> 0" for ret s1
    using that by (simp add: exec_outcome_def begun_off)
  show ?thesis
    unfolding fij_start_exec_def
    using assms(2)
    by (auto simp: Let_def intro!: bld run ok bad begun_frees split: sum.splits intro: mid_failed)
qed

section \<open>Properties of a start\<close>

text \<open>C20: What a start reports is what happened. While a run is going on it is refused with \<open>-EBUSY\<close> and
  no effect. A start that returns 0 has sent exactly one \<open>SIGCONT\<close> and leaves the target marked alive and
  running; any error leaves \<open>running\<close> at 0 without having sent \<open>SIGCONT\<close>. In every case the probe's state
  is consistent and the parameters and the result are unchanged.\<close>

theorem start_exec_outcomes:
  assumes "probe_inv s" and "fij_start_exec K s = Some (ret, s')"
  shows "if running (ctx s) \<noteq> 0 then ret = - EBUSY \<and> s' = s
    else probe_inv s' \<and> exec (ctx s') = exec (ctx s) \<and>
      (ret = 0 \<longrightarrow> running (ctx s') = 1 \<and> target_alive (ctx s') \<and>
         net sigcont (klog s') = net sigcont (klog s) + 1) \<and>
      (ret \<noteq> 0 \<longrightarrow> running (ctx s') = 0 \<and> net sigcont (klog s') = net sigcont (klog s))"
proof (cases "running (ctx s) = 0")
  case False
  with assms(2) show ?thesis by (auto simp: fij_start_exec_def)
next
  case True
  from start_exec_post [OF assms(1) True, of K] assms(2) have "exec_outcome s ret s'"
    by (simp add: wlp_def)
  with True show ?thesis by (auto simp: exec_outcome_def begun_def kept_def calm_def)
qed

definition demo_ready :: "unit st" where
  "demo_ready = upd (\<lambda>c. c\<lparr>exec := (exec c)\<lparr>params := (ctx_params c)\<lparr>process_path := ''/bin/t'',
     process_args := ''-n 2'', log_path := ''/log''\<rparr>\<rparr>\<rparr>) demo_st"

lemma demo_ready_inv: "probe_inv demo_ready"
  by (simp add: probe_inv_def demo_ready_def demo_st_def fij_ctx_init_def fij_uprobe_init_work_def zero_ctx_def)

lemmas start_exec_run_simps =
  fij_start_exec_def fij_build_argv_from_params_def start_exec_run_def fij_exec_and_stop_def
  helper_child_init_def helper_files_def start_launch_def start_target_pc_def fij_monitor_start_def
  monitor_leader_def monitor_spawn_def monitor_arm_def fij_start_bitflip_thread_def fij_send_cont_def
  fij_uprobe_arm_def uprobe_resolve_def fij_va_to_file_off_def vma_maps_exe_def vma_file_off_def
  ask_eq send_sig_def Let_def tell_def noted_def upd_def

lemmas demo_simps =
  demo_def demo_vmas_def demo_ready_def demo_st_def fij_ctx_init_def fij_uprobe_init_work_def zero_ctx_def zero_params_def

lemma demo_start: "\<exists>s'. fij_start_exec demo demo_ready = Some (0, s')"
  by (simp add: start_exec_run_simps demo_simps)

theorem start_exec_outcomes_witness:
  "\<exists>s'. fij_start_exec demo demo_ready = Some (0, s') \<and> running (ctx s') = 1 \<and> net sigcont (klog s') = 1"
proof -
  obtain s' where run: "fij_start_exec demo demo_ready = Some (0, s')" using demo_start by blast
  have "running (ctx demo_ready) = 0" "klog demo_ready = []" by (simp_all add: demo_simps)
  with start_exec_outcomes [OF demo_ready_inv run] run show ?thesis by auto
qed

definition demo_noprobe :: "unit kernel" where
  "demo_noprobe = demo\<lparr>k_uprobe_register := (\<lambda>i off k. (Inl (- EINVAL), k))\<rparr>"

text \<open>A start that fails after the exec strands its target. With a kernel that refuses the probe, the
  file has been executed and stopped, the monitor and the injection thread run, and the call returns the
  error with \<open>running\<close> at 0: the target is never continued.\<close>

theorem failed_start_strands_target:
  "\<exists>s'. fij_start_exec demo_noprobe (upd with_pc demo_ready) = Some (- EINVAL, s') \<and>
     UmhExec ''/bin/t'' [''/bin/t'', ''-n'', ''2''] \<in> set (klog s') \<and> SendSig SIGSTOP 1 0 \<in> set (klog s') \<and>
     (\<forall>t r. SendSig SIGCONT t r \<notin> set (klog s')) \<and>
     running (ctx s') = 0 \<and> pc_monitor_thread (ctx s') \<noteq> None \<and> bitflip_thread (ctx s') \<noteq> None"
  by (simp add: start_exec_run_simps demo_simps with_pc_def demo_noprobe_def argv_loop_tokens FIJ_MAX_ARGC_def tokens_def)

end
