(* ===== verification/Fij_Ioctl.thy ===== *)
theory Fij_Ioctl
  imports Fij_Exec
begin

text \<open>
  The device: the dispatcher of \<open>iface/ioctl.c\<close>, \<open>iface/chardev.c\<close> and the module's entry points in
  \<open>fij_main.c\<close>. Two commands wait for other threads, the blocking run for the completion of the
  monitor and the kill for the end of the monitor thread; \<open>env\<close> is what those threads do meanwhile.
  A call that never returns is \<open>None\<close>.
\<close>

section \<open>The commands\<close>

text \<open>Lines 130 to 145. Lines 132 to 139 store the parameters before it is known whether a run is going on.\<close>

definition ioctl_send_msg :: "'k kernel \<Rightarrow> 'k st \<Rightarrow> (int \<times> 'k st) option" where
  "ioctl_send_msg K s = do {
     (u, s) \<leftarrow> ask (k_copy_from_user K) s;
     case u of
       None \<Rightarrow> Some (- EFAULT, s)
     | Some u \<Rightarrow> do {
         let s = upd (\<lambda>c. c\<lparr>exec := (exec c)\<lparr>params := u\<rparr>\<rparr>) s;
         let s = upd (upd_result (\<lambda>r. r\<lparr>res_iteration_number := iteration_number u\<rparr>)) s;
         let s = upd (\<lambda>c. c\<lparr>monitor_done := 0\<rparr>) s;
         fij_start_exec K s
       }
   }"

definition ioctl_receive_msg :: "'k kernel \<Rightarrow> 'k st \<Rightarrow> (int \<times> 'k st) option" where
  "ioctl_receive_msg K s =
     (if monitor_done (ctx s) = 0 then Some (- EAGAIN, s)
      else do {
        let res = ctx_result (ctx s);
        (ok, s) \<leftarrow> ask (k_copy_to_user K) s;
        if \<not> ok then Some (- EFAULT, s) else Some (0, noted (CopyToUser res) s)
      })"

text \<open>Only the parameters are copied into the local \<open>struct fij_exec u\<close>; \<open>u.result\<close> is what the stack
  held. \<open>wait_for_completion_interruptible\<close> takes one completion, or does not return.\<close>

definition ioctl_exec_and_fault ::
  "'k kernel \<Rightarrow> ('k st \<Rightarrow> 'k st) \<Rightarrow> 'k st \<Rightarrow> (int \<times> 'k st) option" where
  "ioctl_exec_and_fault K env s = do {
     (u, s) \<leftarrow> ask (k_copy_from_user K) s;
     case u of
       None \<Rightarrow> Some (- EFAULT, s)
     | Some u \<Rightarrow> do {
         let s = upd (\<lambda>c. c\<lparr>exec := (exec c)\<lparr>params := u\<rparr>\<rparr>) s;
         (i, s) \<leftarrow> ask (k_stack_int K) s;
         let s = upd (upd_result (\<lambda>r. r\<lparr>res_iteration_number := i\<rparr>)) s;
         let s = upd (\<lambda>c. c\<lparr>monitor_done := 0\<rparr>) s;
         (err, s) \<leftarrow> fij_start_exec K s;
         if err \<noteq> 0 then Some (err, s)
         else do {
           (r, s) \<leftarrow> ask (k_wait_done K) (env s);
           if r \<noteq> 0 then Some (- ERESTARTSYS, s)
           else if monitor_done (ctx s) = 0 then None
           else do {
             let s = upd (\<lambda>c. c\<lparr>monitor_done := monitor_done c - 1\<rparr>) s;
             (ok, s) \<leftarrow> ask (k_copy_to_user K) s;
             if \<not> ok then Some (- EFAULT, s) else Some (0, noted (CopyToUser (ctx_result (ctx s))) s)
           }
         }
       }
   }"

definition ioctl_kill_target ::
  "'k kernel \<Rightarrow> ('k st \<Rightarrow> 'k st) \<Rightarrow> 'k st \<Rightarrow> (int \<times> 'k st) option" where
  "ioctl_kill_target K env s =
     (if running (ctx s) = 0 \<or> target_tgid (ctx s) \<le> 0 then Some (- ESRCH, s)
      else do {
        (ret, s) \<leftarrow> fij_send_sigkill K s;
        let s = (if ret = 0 then upd (\<lambda>c. c\<lparr>target_alive := False\<rparr>) s else s);
        let s = (case pc_monitor_thread (ctx s) of
            None \<Rightarrow> s
          | Some t \<Rightarrow> env (tell K (KthreadStop t) (tell K WakeUpMon s)));
        Some (ret, s)
      })"

definition fij_unlocked_ioctl ::
  "'k kernel \<Rightarrow> ('k st \<Rightarrow> 'k st) \<Rightarrow> ioctl_cmd \<Rightarrow> 'k st \<Rightarrow> (int \<times> 'k st) option" where
  "fij_unlocked_ioctl K env cmd s = (case cmd of
       IOCTL_SEND_MSG \<Rightarrow> ioctl_send_msg K s
     | IOCTL_RECEIVE_MSG \<Rightarrow> ioctl_receive_msg K s
     | IOCTL_EXEC_AND_FAULT \<Rightarrow> ioctl_exec_and_fault K env s
     | IOCTL_KILL_TARGET \<Rightarrow> ioctl_kill_target K env s
     | _ \<Rightarrow> Some (- EINVAL, s))"

section \<open>Open, release, load, unload\<close>

text \<open>The context comes from \<open>kzalloc\<close> and is initialised in place; a released one must not be used again.\<close>

definition fij_open :: "'k kernel \<Rightarrow> 'k st \<Rightarrow> (int \<times> 'k st) option" where
  "fij_open K s = do {
     (ok, s) \<leftarrow> ask (k_alloc_ok K) s;
     if \<not> ok then Some (- ENOMEM, s)
     else Some (0, upd (\<lambda>c. fij_ctx_init zero_ctx) (noted (Kmalloc 1) s))
   }"

definition fij_release :: "'k kernel \<Rightarrow> 'k st \<Rightarrow> int \<times> 'k st" where
  "fij_release K s =
     (let s = fij_monitor_stop K s;
          s = fij_stop_bitflip_thread K s;
          s = cancel_work_sync K Uprobe_disarm_workfn s;
          s = cancel_work_sync K Inject_workfn s;
          s = fij_uprobe_disarm_sync K s;
          s = tell K Kfree s
      in (0, tell K Kfree s))"

definition fij_chardev_register :: "'k kernel \<Rightarrow> 'k st \<Rightarrow> (int \<times> 'k st) option" where
  "fij_chardev_register K s = do {
     (r, s) \<leftarrow> ask (k_misc_register K) s;
     Some (r, if r = 0 then noted MiscRegister s else s)
   }"

definition fij_chardev_unregister :: "'k kernel \<Rightarrow> 'k st \<Rightarrow> 'k st" where
  "fij_chardev_unregister K s = tell K MiscDeregister s"

definition fij_init :: "'k kernel \<Rightarrow> 'k st \<Rightarrow> (int \<times> 'k st) option" where
  "fij_init K s = do {
     (err, s) \<leftarrow> fij_chardev_register K s;
     if err \<noteq> 0 then Some (err, s) else Some (0, s)
   }"

definition fij_exit :: "'k kernel \<Rightarrow> 'k st \<Rightarrow> 'k st" where
  "fij_exit K s = fij_chardev_unregister K s"

section \<open>Properties\<close>

text \<open>Results are delivered whole and only when they are ready. While no completion is pending,
  \<open>IOCTL_RECEIVE_MSG\<close> answers \<open>-EAGAIN\<close> and does nothing; otherwise it copies the result of the context
  once, or reports \<open>-EFAULT\<close>. It never changes the context, so it may be repeated; an unknown command is
  refused with \<open>-EINVAL\<close>.\<close>

theorem receive_delivers_result:
  "\<exists>ret s'. fij_unlocked_ioctl K env IOCTL_RECEIVE_MSG s = Some (ret, s') \<and> ctx s' = ctx s \<and>
     (if monitor_done (ctx s) = 0 then ret = - EAGAIN \<and> s' = s
      else if ret = 0 then klog s' = klog s @ [CopyToUser (ctx_result (ctx s))]
      else ret = - EFAULT \<and> klog s' = klog s) \<and>
     fij_unlocked_ioctl K env IOCTL_OTHER s = Some (- EINVAL, s)"
  by (simp add: fij_unlocked_ioctl_def ioctl_receive_msg_def ask_eq Let_def)

text \<open>A message sent during a run is refused too late. The call returns \<open>-EBUSY\<close> and starts nothing, but
  the parameters the running injection works with have been replaced and the completion the caller of
  \<open>IOCTL_RECEIVE_MSG\<close> waits for has been reset.\<close>

theorem busy_send_clobbers:
  assumes "running (ctx s) \<noteq> 0" and "k_copy_from_user K (kern s) = (Some u, k)"
  shows "\<exists>s'. fij_unlocked_ioctl K env IOCTL_SEND_MSG s = Some (- EBUSY, s') \<and> klog s' = klog s \<and>
    ctx_params (ctx s') = u \<and> monitor_done (ctx s') = 0 \<and>
    res_iteration_number (ctx_result (ctx s')) = iteration_number u"
  using assms by (simp add: fij_unlocked_ioctl_def ioctl_send_msg_def ask_eq fij_start_exec_def Let_def)

theorem busy_send_clobbers_witness:
  "\<exists>s'. fij_unlocked_ioctl demo id IOCTL_SEND_MSG demo_monitored = Some (- EBUSY, s') \<and>
     target_pc_present (ctx_params (ctx demo_monitored)) = 1 \<and> target_pc_present (ctx_params (ctx s')) = 0"
proof -
  have "running (ctx demo_monitored) \<noteq> 0" "target_pc_present (ctx_params (ctx demo_monitored)) = 1"
    by (simp_all add: demo_monitored_def with_pc_def)
  moreover have "k_copy_from_user demo (kern demo_monitored) = (Some zero_params, ())" by (simp add: demo_def)
  ultimately show ?thesis
    using busy_send_clobbers [of demo_monitored demo zero_params "()" id] by (auto simp: zero_params_def)
qed

text \<open>C37: Killing the target. Without a running target the command answers \<open>-ESRCH\<close> with no effect.
  Otherwise it sends at most one \<open>SIGKILL\<close>, to the pid of the target, gives back the pid reference and
  leaves the RCU section, returns what \<open>kill_pid\<close> answered, and marks the target dead only if that was 0;
  then the monitor, if any, is woken and stopped.\<close>

theorem kill_outcomes:
  "if running (ctx s) = 0 \<or> target_tgid (ctx s) \<le> 0
   then fij_unlocked_ioctl K env IOCTL_KILL_TARGET s = Some (- ESRCH, s)
   else \<exists>ret s1 es. fij_unlocked_ioctl K env IOCTL_KILL_TARGET s = Some (ret,
       case pc_monitor_thread (ctx s) of None \<Rightarrow> s1
       | Some t \<Rightarrow> env (tell K (KthreadStop t) (tell K WakeUpMon s1))) \<and>
     klog s1 = klog s @ es \<and>
     (es = [RcuLock, RcuUnlock] \<and> ret = - ESRCH \<or>
      (\<exists>p. es = [RcuLock, GetPid p, KillPid SIGKILL p ret, PutPid p, RcuUnlock])) \<and>
     ctx s1 = (ctx s)\<lparr>target_alive := target_alive (ctx s) \<and> ret \<noteq> 0\<rparr>"
proof (cases "running (ctx s) = 0 \<or> target_tgid (ctx s) \<le> 0")
  case True
  then show ?thesis by (auto simp: fij_unlocked_ioctl_def ioctl_kill_target_def)
next
  case False
  have same: "ctx s = (ctx s)\<lparr>target_alive := target_alive (ctx s)\<rparr>" by simp
  have "wp (fij_send_sigkill K s) (\<lambda>(ret, s1). ctx s1 = ctx s \<and> (\<exists>es. klog s1 = klog s @ es \<and>
     (es = [RcuLock, RcuUnlock] \<and> ret = - ESRCH \<or>
      (\<exists>p. es = [RcuLock, GetPid p, KillPid SIGKILL p ret, PutPid p, RcuUnlock]))))"
    unfolding fij_send_sigkill_def using False
    by (auto simp: Let_def intro!: ask_wpI split: option.splits)
  then obtain ret s1 es where run: "fij_send_sigkill K s = Some (ret, s1)" "ctx s1 = ctx s" "klog s1 = klog s @ es"
    "es = [RcuLock, RcuUnlock] \<and> ret = - ESRCH \<or>
      (\<exists>p. es = [RcuLock, GetPid p, KillPid SIGKILL p ret, PutPid p, RcuUnlock])"
    by (auto simp: wp_def)
  let ?s = "if ret = 0 then upd (\<lambda>c. c\<lparr>target_alive := False\<rparr>) s1 else s1"
  have "fij_unlocked_ioctl K env IOCTL_KILL_TARGET s = Some (ret,
       case pc_monitor_thread (ctx s) of None \<Rightarrow> ?s
       | Some t \<Rightarrow> env (tell K (KthreadStop t) (tell K WakeUpMon ?s)))"
    using False run(1,2) by (simp add: fij_unlocked_ioctl_def ioctl_kill_target_def Let_def)
  moreover have "klog ?s = klog s @ es" "ctx ?s = (ctx s)\<lparr>target_alive := target_alive (ctx s) \<and> ret \<noteq> 0\<rparr>"
    using run(2,3) by simp_all
  ultimately show ?thesis using False run(4) by (auto simp del: upd_simps)
qed

definition delivered :: "'k kernel \<Rightarrow> ('k st \<Rightarrow> 'k st) \<Rightarrow> 'k st \<Rightarrow> bool" where
  "delivered K env s' \<longleftrightarrow> (\<exists>s1 es. klog s' = es @ [CopyToUser (ctx_result (ctx s'))] \<and>
     fst (k_wait_done K (kern (env s1))) = 0 \<and> monitor_done (ctx (env s1)) = monitor_done (ctx s') + 1)"

lemma deliveredI:
  assumes "k_wait_done K (kern (env s1)) = (0, k)" "0 < monitor_done (ctx (env s1))"
  shows "delivered K env (noted (CopyToUser (ctx_result (ctx (env s1))))
      (upd (\<lambda>c. c\<lparr>monitor_done := monitor_done c - Suc 0\<rparr>) (env s1\<lparr>kern := k\<rparr>)\<lparr>kern := k'\<rparr>))"
  unfolding delivered_def
  by (intro exI [of _ s1] exI [of _ "klog (env s1)"]) (use assms in simp)

lemma start_exec_wlpI:
  "(\<And>r s'. (running (ctx s) \<noteq> 0 \<longrightarrow> r \<noteq> 0) \<Longrightarrow> Q (r, s')) \<Longrightarrow> wlp (fij_start_exec K s) Q"
  by (rule wlpI) (auto simp: fij_start_exec_def split: if_splits)

text \<open>A blocking run that returns 0 hands out the result the context ends with, as its last action, and
  the completion the monitor had left has been taken, so it cannot be received a second time.\<close>

theorem blocking_run_result:
  assumes "fij_unlocked_ioctl K env IOCTL_EXEC_AND_FAULT s = Some (0, s')"
  shows "\<exists>s1 es. klog s' = es @ [CopyToUser (ctx_result (ctx s'))] \<and>
    fst (k_wait_done K (kern (env s1))) = 0 \<and> running (ctx s) = 0 \<and>
    monitor_done (ctx (env s1)) = monitor_done (ctx s') + 1"
proof -
  have "wlp (fij_unlocked_ioctl K env IOCTL_EXEC_AND_FAULT s)
      (\<lambda>(ret, s'). ret = 0 \<longrightarrow> running (ctx s) = 0 \<and> delivered K env s')"
    unfolding fij_unlocked_ioctl_def ioctl_exec_and_fault_def
    by (auto simp: Let_def intro!: ask_wlpI start_exec_wlpI deliveredI split: option.splits)
  with assms show ?thesis by (auto simp: wlp_def delivered_def)
qed

definition demo_stack :: "int \<Rightarrow> unit kernel" where
  "demo_stack i = demo\<lparr>k_stack_int := (\<lambda>k. (i, k)),
     k_copy_from_user := (\<lambda>k. (Some (ctx_params (ctx demo_ready)), k))\<rparr>"

text \<open>The iteration number of a blocking run is not the requested one but whatever the kernel stack
  held: for every number there is a stack with which a successful run reports it.\<close>

theorem blocking_run_iteration_from_stack:
  "\<exists>s'. fij_unlocked_ioctl (demo_stack i) (upd (\<lambda>c. c\<lparr>monitor_done := 1\<rparr>)) IOCTL_EXEC_AND_FAULT demo_st =
       Some (0, s') \<and> res_iteration_number (ctx_result (ctx s')) = i"
  by (simp add: fij_unlocked_ioctl_def ioctl_exec_and_fault_def start_exec_run_simps demo_simps demo_stack_def
      argv_loop_tokens FIJ_MAX_ARGC_def tokens_def)

theorem blocking_run_result_witness:
  "\<exists>s'. fij_unlocked_ioctl (demo_stack 7) (upd (\<lambda>c. c\<lparr>monitor_done := 1\<rparr>)) IOCTL_EXEC_AND_FAULT demo_st =
       Some (0, s') \<and> last (klog s') = CopyToUser (ctx_result (ctx s'))"
proof -
  have "\<exists>s'. fij_unlocked_ioctl (demo_stack 7) (upd (\<lambda>c. c\<lparr>monitor_done := 1\<rparr>)) IOCTL_EXEC_AND_FAULT demo_st =
       Some (0, s')"
    by (simp add: fij_unlocked_ioctl_def ioctl_exec_and_fault_def start_exec_run_simps demo_simps demo_stack_def
      argv_loop_tokens FIJ_MAX_ARGC_def tokens_def)
  then obtain s' where run: "fij_unlocked_ioctl (demo_stack 7) (upd (\<lambda>c. c\<lparr>monitor_done := 1\<rparr>))
      IOCTL_EXEC_AND_FAULT demo_st = Some (0, s')" by blast
  from blocking_run_result [OF this] run show ?thesis by auto
qed

section \<open>Release\<close>

lemma stop_probe: "probe_inv (fij_monitor_stop K s) \<longleftrightarrow> probe_inv s"
  by (simp add: fij_monitor_stop_def probe_inv_def)

lemma monitor_stop_keeps:
  "klog (fij_monitor_stop K s) = klog s" "bitflip_thread (ctx (fij_monitor_stop K s)) = bitflip_thread (ctx s)"
  by (simp_all add: fij_monitor_stop_def)

lemma cancel_probe: "probe_inv (cancel_work_sync K w s) \<longleftrightarrow> probe_inv s"
  by (auto simp: cancel_work_sync_def Let_def probe_inv_def inode_ref_def)

lemma workfn_work: "work (uprobe_disarm_workfn K s) = work s"
  by (auto simp: uprobe_disarm_workfn_def Let_def tell_def upd_def split: option.splits)

lemma disarm_work: "set (work (fij_uprobe_disarm_sync K s)) = set (work s) - {Uprobe_disarm_workfn}"
  by (auto simp: disarm_sync_eq flush_work_def Let_def workfn_work tell_def)

text \<open>The threads that a list of events stops.\<close>

definition thread_stops :: "kev list \<Rightarrow> kthread list" where
  "thread_stops l = List.map_filter (\<lambda>e. case e of KthreadStop t \<Rightarrow> Some t | _ \<Rightarrow> None) l"

lemma thread_stops_simps [simp]:
  "thread_stops [] = []"
  "thread_stops (e # l) = (case e of KthreadStop t \<Rightarrow> t # thread_stops l | _ \<Rightarrow> thread_stops l)"
  "thread_stops (l @ l') = thread_stops l @ thread_stops l'"
  by (auto simp: thread_stops_def List.map_filter_def split: kev.split)

lemma workfn_stops: "thread_stops (klog (uprobe_disarm_workfn K s)) = thread_stops (klog s)"
  by (auto simp: uprobe_disarm_workfn_def Let_def split: option.splits)

lemma disarm_stops: "thread_stops (klog (fij_uprobe_disarm_sync K s)) = thread_stops (klog s)"
  by (auto simp: disarm_sync_eq flush_work_def Let_def workfn_stops)

lemma disarmed_tell: "disarmed (tell K e s) \<longleftrightarrow> disarmed s"
  by (simp add: disarmed_def)

lemma probe_tell_free: "probe_inv (tell K Kfree s) \<longleftrightarrow> probe_inv s"
  by (simp add: probe_inv_def inode_ref_def)

text \<open>The release up to the two calls of \<open>kfree\<close>.\<close>

definition release_stopped :: "'k kernel \<Rightarrow> 'k st \<Rightarrow> 'k st" where
  "release_stopped K s = cancel_work_sync K Inject_workfn (cancel_work_sync K Uprobe_disarm_workfn
     (fij_stop_bitflip_thread K (fij_monitor_stop K s)))"

lemma release_eq: "fij_release K s =
    (0, tell K Kfree (tell K Kfree (fij_uprobe_disarm_sync K (release_stopped K s))))"
  by (simp add: fij_release_def release_stopped_def Let_def)

lemma cancel_ctx: "ctx (cancel_work_sync K w s) = ctx s"
  by (simp add: cancel_work_sync_def Let_def)

lemma release_stopped_keeps:
  "probe_inv (release_stopped K s) \<longleftrightarrow> probe_inv s"
  "Inject_workfn \<notin> set (work (release_stopped K s))"
  "bitflip_thread (ctx (release_stopped K s)) = None"
  by (simp_all add: release_stopped_def cancel_probe stop_thread_probe stop_probe cancel_ctx stop_thread_keeps)
    (simp add: cancel_work_sync_def Let_def)

text \<open>Releasing the device leaves nothing armed. No probe is registered and no inode is held, neither
  work item can run later, and the injection thread has been stopped.\<close>

theorem release_cleans_up:
  assumes "probe_inv s" and "fij_release K s = (ret, s')"
  shows "ret = 0 \<and> disarmed s' \<and> Uprobe_disarm_workfn \<notin> set (work s') \<and> Inject_workfn \<notin> set (work s') \<and>
    bitflip_thread (ctx s') = None \<and> net probe_reg (klog s') = 0 \<and> (\<forall>i. net (inode_ref i) (klog s') = 0)"
proof -
  let ?d = "fij_uprobe_disarm_sync K (release_stopped K s)"
  have s': "ret = 0" "s' = tell K Kfree (tell K Kfree ?d)" using assms(2) by (simp_all add: release_eq)
  have "probe_inv ?d \<and> disarmed ?d"
    by (rule disarm_sync_disarms) (simp add: release_stopped_keeps assms(1))
  then have d: "probe_inv s'" "disarmed s'" by (simp_all add: s' probe_tell_free disarmed_tell)
  moreover have "work s' = work ?d" by (simp add: s' tell_def)
  moreover have "set (work ?d) = set (work (release_stopped K s)) - {Uprobe_disarm_workfn}"
    by (rule disarm_work)
  moreover have "bitflip_thread (ctx s') = None"
    by (simp add: s' disarm_keeps release_stopped_keeps)
  ultimately show ?thesis
    using s'(1) release_stopped_keeps(2) [of K s] by (auto simp: probe_inv_def disarmed_def)
qed

theorem release_cleans_up_witness:
  "\<exists>s'. fij_release demo demo_monitored = (0, s') \<and> disarmed s' \<and> bitflip_thread (ctx s') = None"
  using release_cleans_up [OF demo_monitored_inv, of demo] by (metis surj_pair)

lemma stop_thread_stops: "thread_stops (klog (fij_stop_bitflip_thread K s)) = thread_stops (klog s) @
    (case bitflip_thread (ctx s) of None \<Rightarrow> [] | Some t \<Rightarrow> [t])"
  by (simp add: fij_stop_bitflip_thread_def Let_def split: option.splits)

text \<open>Releasing the device does not stop the monitor. The only thread it ends is the injection thread;
  the monitor is merely forgotten, and the context it works on is freed by the last action of the release.\<close>

theorem release_leaves_monitor_running:
  "thread_stops (klog (snd (fij_release K s))) = thread_stops (klog s) @
      (case bitflip_thread (ctx s) of None \<Rightarrow> [] | Some t \<Rightarrow> [t]) \<and>
    last (klog (snd (fij_release K s))) = Kfree \<and> pc_monitor_thread (ctx (snd (fij_release K s))) = None"
proof -
  have "thread_stops (klog (release_stopped K s)) = thread_stops (klog s) @
      (case bitflip_thread (ctx s) of None \<Rightarrow> [] | Some t \<Rightarrow> [t])"
    by (simp add: release_stopped_def cancel_work_sync_def Let_def stop_thread_stops monitor_stop_keeps)
  moreover have "pc_monitor_thread (ctx (release_stopped K s)) = None"
    by (auto simp: release_stopped_def cancel_ctx fij_stop_bitflip_thread_def fij_monitor_stop_def Let_def
        split: option.splits)
  ultimately show ?thesis by (simp add: release_eq disarm_stops disarm_keeps)
qed

end
