(* ===== verification/Fij_Session.thy ===== *)
theory Fij_Session
  imports Fij_Ioctl
begin

text \<open>
  One open device over time. A session is the state of the context together with the points the
  two kernel threads of a run have reached; a step is a system call on the device, a piece of one
  of the threads between two waits, a hit of the probe or a work item. The steps are the
  definitions of the other theories, so every interleaving of the program at this grain is a path
  of \<open>step\<close>. What holds in all reachable sessions is proved by rule induction on \<open>reachable\<close>.

  Each step is atomic: other threads are not interleaved inside a system call or between two waits
  of a thread. A blocking run is its start followed by a receive, and a kill returns before the monitor
  it stops has ended.
\<close>

section \<open>The threads of a run\<close>

text \<open>The monitor: not running, in its loop, past lines 46 to 50, past the join of lines 52 to 58.\<close>

datatype mon_pc = MonOff | MonLoop task | MonExit task int | MonJoined task int

text \<open>The injection thread: not running, created, waiting for the trigger, in its delay (with what it
  will find in \<open>ret\<close> and \<open>duration_ns\<close>), done and waiting to be stopped.\<close>

datatype flip_pc = FlipOff | FlipStart | FlipWait | FlipSleep "int option" u64 | FlipDone

record 'k sess =
  st_of :: "'k st"
  mon :: mon_pc
  flip :: flip_pc
  released :: bool

text \<open>A thread that a call has created starts at its first line; one that was there stays where it is.\<close>

definition mon_after :: "task \<Rightarrow> 'k st \<Rightarrow> 'k st \<Rightarrow> mon_pc \<Rightarrow> mon_pc" where
  "mon_after t s s' m =
     (if pc_monitor_thread (ctx s) = None \<and> pc_monitor_thread (ctx s') \<noteq> None then MonLoop t else m)"

definition flip_after :: "'k st \<Rightarrow> 'k st \<Rightarrow> flip_pc \<Rightarrow> flip_pc" where
  "flip_after s s' f =
     (if bitflip_thread (ctx s) = None \<and> bitflip_thread (ctx s') \<noteq> None then FlipStart else f)"

text \<open>The first piece of the injection thread, up to its wait or the end of its delay.\<close>

definition flip_first :: "'k kernel \<Rightarrow> 'k st \<Rightarrow> (flip_pc \<times> 'k st) option" where
  "flip_first K s = do {
     let (min_ms, max_ms) = bitflip_bounds (ctx_params (ctx s));
     let s = bitflip_begin s;
     if target_pc_present (ctx_params (ctx s)) \<noteq> 0 then Some (FlipWait, tell K WaitTrigger s)
     else do {
       ((ret, duration_ns), s) \<leftarrow> bitflip_delay K min_ms max_ms s;
       Some (FlipSleep ret duration_ns, s)
     }
   }"

text \<open>Only the two work functions are ever queued.\<close>

definition run_work :: "arch \<Rightarrow> 'k kernel \<Rightarrow> callback \<Rightarrow> 'k st \<Rightarrow> 'k st option" where
  "run_work A K w s = (case w of
       Uprobe_disarm_workfn \<Rightarrow> Some (uprobe_disarm_workfn K s)
     | Inject_workfn \<Rightarrow> inject_workfn A K s
     | _ \<Rightarrow> None)"

section \<open>Steps\<close>

inductive step :: "arch \<Rightarrow> 'k kernel \<Rightarrow> 'k sess \<Rightarrow> 'k sess \<Rightarrow> bool" for A K where
  send: "\<not> released S \<Longrightarrow> ioctl_send_msg K (st_of S) = Some (r, s') \<Longrightarrow>
      GetTask t \<in> set (drop (length (klog (st_of S))) (klog s')) \<or>
        pc_monitor_thread (ctx s') = pc_monitor_thread (ctx (st_of S)) \<Longrightarrow>
      step A K S (S\<lparr>st_of := s', mon := mon_after t (st_of S) s' (mon S),
        flip := flip_after (st_of S) s' (flip S)\<rparr>)"
| receive: "\<not> released S \<Longrightarrow> ioctl_receive_msg K (st_of S) = Some (r, s') \<Longrightarrow>
      step A K S (S\<lparr>st_of := s'\<rparr>)"
| kill: "\<not> released S \<Longrightarrow> ioctl_kill_target K id (st_of S) = Some (r, s') \<Longrightarrow>
      step A K S (S\<lparr>st_of := s'\<rparr>)"
| release: "\<not> released S \<Longrightarrow> flip S = FlipOff \<or> flip S = FlipDone \<Longrightarrow>
      step A K S (S\<lparr>st_of := snd (fij_release K (st_of S)), flip := FlipOff, released := True\<rparr>)"
| mon_wait: "mon S = MonLoop t \<Longrightarrow> monitor_pass K t (st_of S) = Some (None, s') \<Longrightarrow>
      step A K S (S\<lparr>st_of := s'\<rparr>)"
| mon_exit: "mon S = MonLoop t \<Longrightarrow> monitor_pass K t (st_of S) = Some (Some (e, code), s') \<Longrightarrow>
      step A K S (S\<lparr>st_of := monitor_exit_begin K s', mon := MonExit t code\<rparr>)"
| mon_join: "mon S = MonExit t code \<Longrightarrow> flip S = FlipOff \<or> flip S = FlipDone \<Longrightarrow>
      monitor_join K (st_of S) = Some s' \<Longrightarrow>
      step A K S (S\<lparr>st_of := s', mon := MonJoined t code, flip := FlipOff\<rparr>)"
| mon_publish: "mon S = MonJoined t code \<Longrightarrow>
      step A K S (S\<lparr>st_of := monitor_publish K code t (st_of S), mon := MonOff\<rparr>)"
| flip_begin: "flip S = FlipStart \<Longrightarrow> flip_first K (st_of S) = Some (f, s') \<Longrightarrow>
      step A K S (S\<lparr>st_of := s', flip := f\<rparr>)"
| flip_wake: "flip S = FlipWait \<Longrightarrow> bitflip_triggered A K (st_of S) = Some s' \<Longrightarrow>
      step A K S (S\<lparr>st_of := bitflip_out 0 s', flip := FlipDone\<rparr>)"
| flip_slept: "flip S = FlipSleep ret dur \<Longrightarrow> bitflip_wake A K ret (st_of S) = Some s' \<Longrightarrow>
      step A K S (S\<lparr>st_of := bitflip_out dur s', flip := FlipDone\<rparr>)"
| hit: "uprobe_active (ctx (st_of S)) \<Longrightarrow>
      step A K S (S\<lparr>st_of := snd (uprobe_hit K (st_of S))\<rparr>)"
| worker: "w \<in> set (work (st_of S)) \<Longrightarrow>
      run_work A K w ((st_of S)\<lparr>work := remove1 w (work (st_of S))\<rparr>) = Some s' \<Longrightarrow>
      step A K S (S\<lparr>st_of := s'\<rparr>)"

text \<open>A session starts when \<open>fij_open\<close> has succeeded.\<close>

definition opened :: "'k kernel \<Rightarrow> 'k sess \<Rightarrow> bool" where
  "opened K S \<longleftrightarrow> mon S = MonOff \<and> flip S = FlipOff \<and> \<not> released S \<and> work (st_of S) = [] \<and>
     (\<exists>s. klog s = [] \<and> work s = [] \<and> fij_open K s = Some (0, st_of S))"

inductive reachable :: "arch \<Rightarrow> 'k kernel \<Rightarrow> 'k sess \<Rightarrow> bool" for A K where
  start: "opened K S \<Longrightarrow> reachable A K S"
| next_step: "reachable A K S \<Longrightarrow> step A K S S' \<Longrightarrow> reachable A K S'"

inductive_cases stepE: "step A K S S'"

section \<open>What a start does to the threads\<close>

text \<open>A thread that exists is never replaced, and a completion that is not there does not appear.\<close>

definition sprout :: "'k st \<Rightarrow> 'k st \<Rightarrow> bool" where
  "sprout s s' \<longleftrightarrow>
     (pc_monitor_thread (ctx s) \<noteq> None \<longrightarrow> pc_monitor_thread (ctx s') = pc_monitor_thread (ctx s)) \<and>
     (bitflip_thread (ctx s) \<noteq> None \<longrightarrow> bitflip_thread (ctx s') = bitflip_thread (ctx s)) \<and>
     (monitor_done (ctx s) = 0 \<longrightarrow> monitor_done (ctx s') = 0)"

lemma sprout_refl [simp]: "sprout s s"
  by (simp add: sprout_def)

lemma sprout_same: "sprout s s1 \<Longrightarrow> pc_monitor_thread (ctx s2) = pc_monitor_thread (ctx s1) \<Longrightarrow>
    bitflip_thread (ctx s2) = bitflip_thread (ctx s1) \<Longrightarrow> monitor_done (ctx s2) = monitor_done (ctx s1) \<Longrightarrow>
    sprout s s2"
  by (simp add: sprout_def)

lemma sprout_ctx [simp]:
  "sprout s (tell K e s1) \<longleftrightarrow> sprout s s1" "sprout s (noted e s1) \<longleftrightarrow> sprout s s1"
  "sprout s (s1\<lparr>kern := k\<rparr>) \<longleftrightarrow> sprout s s1"
  by (simp_all add: sprout_def)

lemma sprout_upd [simp]:
  "sprout s (upd (\<lambda>c. c\<lparr>flip_wq := a, flip_triggered := b\<rparr>) s1) \<longleftrightarrow> sprout s s1"
  "sprout s (upd (\<lambda>c. c\<lparr>running := n\<rparr>) s1) \<longleftrightarrow> sprout s s1"
  "sprout s (upd (\<lambda>c. c\<lparr>target_alive := d\<rparr>) s1) \<longleftrightarrow> sprout s s1"
  by (simp_all add: sprout_def)

lemma sprout_thread:
  "sprout s s1 \<Longrightarrow> bitflip_thread (ctx s1) = None \<Longrightarrow> ctx s2 = (ctx s1)\<lparr>bitflip_thread := x\<rparr> \<Longrightarrow> sprout s s2"
  "sprout s s1 \<Longrightarrow> pc_monitor_thread (ctx s1) = None \<Longrightarrow> ctx s2 = (ctx s1)\<lparr>pc_monitor_thread := x\<rparr> \<Longrightarrow> sprout s s2"
  "sprout s s1 \<Longrightarrow> ctx s2 = (ctx s1)\<lparr>monitor_done := 0\<rparr> \<Longrightarrow> sprout s s2"
  by (auto simp: sprout_def)

lemma sprout_wlpI:
  assumes "wlp m (\<lambda>(r, s'). P s')" and "\<And>s'. P s' \<Longrightarrow> sprout s s'" and "\<And>r s'. sprout s s' \<Longrightarrow> Q (r, s')"
  shows "wlp m Q"
  by (rule wlp_mono [OF assms(1)]) (auto intro: assms(2,3))

lemma exec_sprout_wlpI:
  fixes s s1 :: "'a st"
  assumes "sprout s s1" and "\<And>r s'. sprout s s' \<Longrightarrow> Q (r, s')"
  shows "wlp (fij_exec_and_stop K path argv s1) Q"
proof (rule sprout_wlpI)
  show "wlp (fij_exec_and_stop K path argv s1) (\<lambda>(r, s'). \<exists>e. execed path argv e s1 s')"
    by (rule wlp_mono [OF wp_imp_wlp [OF exec_and_stop_wp]]) auto
  fix s' :: "'a st" assume "\<exists>e. execed path argv e s1 s'"
  then have "(ctx s')\<lparr>target_tgid := 0\<rparr> = (ctx s1)\<lparr>target_tgid := 0\<rparr>" by (auto simp: execed_def)
  then have "pc_monitor_thread (ctx s') = pc_monitor_thread (ctx s1)"
    "bitflip_thread (ctx s') = bitflip_thread (ctx s1)" "monitor_done (ctx s') = monitor_done (ctx s1)"
    by (metis fij_ctx.select_convs fij_ctx.update_convs fij_ctx.surjective)+
  with assms(1) show "sprout s s'" by (rule sprout_same)
qed (rule assms(2))

lemma target_pc_sprout_wlpI:
  fixes s s1 :: "'a st"
  assumes "sprout s s1" and "\<And>r s'. sprout s s' \<Longrightarrow> Q (r, s')"
  shows "wlp (start_target_pc K s1) Q"
proof (rule target_pc_wlpI)
  fix r es and s' :: "'a st" assume "same_but_pc (ctx s1) (ctx s')"
  then have "pc_monitor_thread (ctx s') = pc_monitor_thread (ctx s1)"
    "bitflip_thread (ctx s') = bitflip_thread (ctx s1)" "monitor_done (ctx s') = monitor_done (ctx s1)"
    unfolding same_but_pc_def by (metis fij_ctx.select_convs fij_ctx.update_convs fij_ctx.surjective)+
  with assms(1) have "sprout s s'" by (rule sprout_same)
  then show "Q (r, s')" by (rule assms(2))
qed

lemma uprobe_arm_same: "wlp (fij_uprobe_arm K va s) (\<lambda>(r, s'). same_but_probe (ctx s) (ctx s'))"
proof -
  have "wlp (fij_va_to_file_off K t va oi oo s) (\<lambda>(r, s'). ctx s' = ctx s)" for t va oi oo and s :: "'a st"
    unfolding fij_va_to_file_off_def by (auto simp: Let_def intro!: ask_wlpI split: option.splits)
  note va = wlp_mono [OF this]
  have "wlp (uprobe_resolve K va s) (\<lambda>(r, s'). same_but_probe (ctx s) (ctx s'))"
    unfolding uprobe_resolve_def
    by (auto simp: Let_def same_but_probe_def clear_probe_def intro!: ask_wlpI va split: option.splits)
  note res = wlp_mono [OF this]
  show ?thesis
    unfolding fij_uprobe_arm_def
    by (auto simp: Let_def same_but_probe_def clear_probe_def intro!: ask_wlpI res split: option.splits sum.splits)
qed

lemma arm_sprout_wlpI:
  fixes s s1 :: "'a st"
  assumes "sprout s s1" and "\<And>r s'. sprout s s' \<Longrightarrow> Q (r, s')"
  shows "wlp (fij_uprobe_arm K va s1) Q"
proof (rule wlp_mono [OF uprobe_arm_same])
  fix x :: "int \<times> 'a st" assume "case x of (r, s') \<Rightarrow> same_but_probe (ctx s1) (ctx s')"
  then have "sprout s (snd x)"
    using same_but_probeD(5,7,8) by (intro sprout_same [OF assms(1)]) (auto split: prod.splits)
  then show "Q x" using assms(2) [of "snd x" "fst x"] by simp
qed

lemma start_thread_sprout_wlpI:
  assumes "sprout s s1" and "\<And>r s'. sprout s s' \<Longrightarrow> Q (r, s')"
  shows "wlp (fij_start_bitflip_thread K s1) Q"
  unfolding fij_start_bitflip_thread_def using assms(1)
  by (auto intro!: ask_wlpI assms(2) split: sum.splits elim: sprout_thread(1))

lemma leader_same: "wlp (monitor_leader K s) (\<lambda>(r, s'). ctx s' = ctx s)"
  unfolding monitor_leader_def by (auto simp: Let_def intro!: ask_wlpI split: option.splits)

lemma monitor_arm_sprout_wlpI:
  assumes "sprout s s1" and "\<And>r s'. sprout s s' \<Longrightarrow> Q (r, s')"
  shows "wlp (monitor_arm K s1) Q"
  unfolding monitor_arm_def using assms(1)
  by (auto simp: Let_def intro!: start_thread_sprout_wlpI [where s = s] arm_sprout_wlpI [where s = s] assms(2))

lemma monitor_spawn_sprout_wlpI:
  assumes "sprout s s1" and "pc_monitor_thread (ctx s1) = None" and "\<And>r s'. sprout s s' \<Longrightarrow> Q (r, s')"
  shows "wlp (monitor_spawn K l s1) Q"
  unfolding monitor_spawn_def using assms(1,2)
  by (auto simp: Let_def intro!: ask_wlpI monitor_arm_sprout_wlpI [where s = s] assms(3) split: sum.splits
      elim: sprout_thread(2))

lemma monitor_start_sprout_wlpI:
  assumes "sprout s s1" and "\<And>r s'. sprout s s' \<Longrightarrow> Q (r, s')"
  shows "wlp (fij_monitor_start K s1) Q"
proof -
  have "sprout s (upd (\<lambda>c. c\<lparr>monitor_done := 0\<rparr>) s1)" using assms(1) by (auto elim: sprout_thread(3))
  moreover from this have "sprout s s2" if "ctx s2 = (ctx s1)\<lparr>monitor_done := 0\<rparr>" for s2
    using that by (auto elim: sprout_same)
  ultimately show ?thesis
    unfolding fij_monitor_start_def
    by (auto simp: Let_def intro!: wlp_mono [OF leader_same] monitor_spawn_sprout_wlpI [where s = s] assms(2)
        split: sum.splits)
qed

lemma start_exec_sprout: "wlp (fij_start_exec K s) (\<lambda>(r, s'). sprout s s')"
proof -
  have bld: "wlp (fij_build_argv_from_params K p s) Q" if "\<And>r s'. sprout s s' \<Longrightarrow> Q (r, s')" for p Q
    by (rule wlp_mono [OF wp_imp_wlp [OF build_argv_post]]) (auto simp: built_def sprout_def intro!: that)
  have cont: "wlp (fij_send_cont K t s1) (\<lambda>(r, s'). sprout s s')" if "sprout s s1" for t s1
    unfolding fij_send_cont_def send_sig_def using that
    by (auto simp: Let_def intro!: ask_wlpI split: option.splits)
  have run: "wlp (start_exec_run K b s1) (\<lambda>(r, s'). sprout s s')" if "sprout s s1" for b s1
    unfolding start_exec_run_def start_launch_def using that
    by (auto simp: Let_def intro!: exec_sprout_wlpI [where s = s] target_pc_sprout_wlpI [where s = s]
        monitor_start_sprout_wlpI [where s = s] cont)
  note runI = wlp_mono [OF run]
  show ?thesis
    unfolding fij_start_exec_def
    by (auto simp: Let_def intro!: bld runI split: sum.splits)
qed

text \<open>\<open>kthread_run\<close> returns a thread or a negative error code.\<close>

definition kthread_law :: "'k kernel \<Rightarrow> bool" where
  "kthread_law K \<longleftrightarrow> (\<forall>k e. fst (k_kthread_run K k) = Inl e \<longrightarrow> e < 0)"

definition monitored :: "int \<Rightarrow> 'k st \<Rightarrow> bool" where
  "monitored r s' \<longleftrightarrow> (r = 0 \<longrightarrow> pc_monitor_thread (ctx s') \<noteq> None)"

lemma monitored_error: "r \<noteq> 0 \<Longrightarrow> monitored r s'"
  by (simp add: monitored_def)

lemma wlp_any: "(\<And>x. Q x) \<Longrightarrow> wlp m Q"
  by (simp add: wlp_def)

lemma spawn_monitored:
  assumes "kthread_law K"
  shows "wlp (monitor_spawn K l s) (\<lambda>(r, s'). monitored r s')"
proof -
  have err: "e \<noteq> 0" if "k_kthread_run K k1 = (Inl e, k2)" for e k1 k2
    using assms that unfolding kthread_law_def by (metis fst_conv less_irrefl)
  have arm: "wlp (monitor_arm K s1) (\<lambda>(r, s'). monitored r s')" if "pc_monitor_thread (ctx s1) \<noteq> None" for s1
    by (rule monitor_arm_sprout_wlpI [where s = s1]) (use that in \<open>auto simp: sprout_def monitored_def\<close>)
  show ?thesis
    unfolding monitor_spawn_def
    by (auto simp: Let_def intro!: ask_wlpI arm split: sum.splits intro: monitored_error dest: err)
      (simp add: monitored_def)
qed

lemma start_exec_monitored:
  assumes "kthread_law K"
  shows "wlp (fij_start_exec K s) (\<lambda>(r, s'). monitored r s')"
proof -
  have lead: "wlp (monitor_leader K s1) Q" if "\<And>r s'. (\<And>e. r = Inl e \<Longrightarrow> e \<noteq> 0) \<Longrightarrow> Q (r, s')" for s1 Q
    by (rule wp_imp_wlp, rule leader_wpI) (rule that)
  have mon: "wlp (fij_monitor_start K s1) (\<lambda>(r, s'). monitored r s')" for s1
    unfolding fij_monitor_start_def
    by (auto simp: Let_def intro!: lead spawn_monitored [OF assms] split: sum.splits intro: monitored_error)
  have cont: "wlp (fij_send_cont K t s1) (\<lambda>(r, s'). monitored r s')" if "monitored 0 s1" for t s1
    unfolding fij_send_cont_def send_sig_def using that
    by (auto simp: Let_def monitored_def intro!: ask_wlpI split: option.splits)
  have run: "wlp (start_exec_run K b s1) (\<lambda>(r, s'). monitored r s')" for b s1
    unfolding start_exec_run_def start_launch_def
    by (auto simp: Let_def intro!: wlp_any [where m = "fij_exec_and_stop K p a s2" for p a s2]
        wlp_any [where m = "start_target_pc K s2" for s2] wlp_mono [OF mon] cont intro: monitored_error)
  have keep: "monitored r (upd (\<lambda>c. c\<lparr>running := 0\<rparr>) s1) \<longleftrightarrow> monitored r s1" "monitored r (tell K e s1) \<longleftrightarrow> monitored r s1"
    for r e s1 by (simp_all add: monitored_def)
  have bld: "wlp (fij_build_argv_from_params K p s) Q" if "\<And>r s'. (\<And>e. r = Inl e \<Longrightarrow> e \<noteq> 0) \<Longrightarrow> Q (r, s')" for p Q
    by (rule wlp_mono [OF wp_imp_wlp [OF build_argv_post]]) (auto simp: built_def intro!: that)
  show ?thesis
    unfolding fij_start_exec_def
    by (auto simp: Let_def keep intro!: bld wlp_mono [OF run] split: sum.splits intro: monitored_error)
qed

section \<open>What the steps keep\<close>

text \<open>A step that neither starts nor ends a thread.\<close>

definition still :: "'k st \<Rightarrow> 'k st \<Rightarrow> bool" where
  "still s s' \<longleftrightarrow> (probe_inv s \<longrightarrow> probe_inv s') \<and> (targets_wf (ctx s) \<longrightarrow> targets_wf (ctx s')) \<and>
     pc_monitor_thread (ctx s') = pc_monitor_thread (ctx s) \<and>
     bitflip_thread (ctx s') = bitflip_thread (ctx s) \<and>
     monitor_done (ctx s') = monitor_done (ctx s) \<and> running (ctx s') = running (ctx s)"

lemma still_trans: "still s s1 \<Longrightarrow> still s1 s2 \<Longrightarrow> still s s2"
  by (simp add: still_def)

lemma still_receive: "ioctl_receive_msg K s = Some (r, s') \<Longrightarrow> still s s'"
  by (auto simp: ioctl_receive_msg_def ask_eq Let_def still_def probe_inv_def inode_ref_def split: if_splits)

lemma still_pass: "monitor_pass K t s = Some (r, s') \<Longrightarrow> still s s'"
  by (auto simp: monitor_pass_def ask_eq still_def probe_inv_def inode_ref_def targets_wf_def split: if_splits)

lemma still_exit_begin: "still s (monitor_exit_begin K s)"
proof -
  let ?s = "monitor_exit_begin K s"
  have "probe_inv ?s \<longleftrightarrow> probe_inv s" by (rule exit_begin_probe)
  moreover have "targets_wf (ctx ?s) = targets_wf (ctx s)" "pc_monitor_thread (ctx ?s) = pc_monitor_thread (ctx s)"
    "bitflip_thread (ctx ?s) = bitflip_thread (ctx s)" "monitor_done (ctx ?s) = monitor_done (ctx s)"
    "running (ctx ?s) = running (ctx s)"
    by (subst exit_begin_ctx(1), simp add: targets_wf_def)+
  ultimately show ?thesis by (simp add: still_def)
qed

lemma still_kill: "ioctl_kill_target K id s = Some (r, s') \<Longrightarrow> still s s'"
  by (auto simp: ioctl_kill_target_def fij_send_sigkill_def ask_eq Let_def still_def probe_inv_def inode_ref_def
      targets_wf_def split: if_splits option.splits)

lemma still_hit: "still s (snd (uprobe_hit K s))"
proof -
  have "probe_inv (snd (uprobe_hit K s)) \<longleftrightarrow> probe_inv s" by (rule hit_keeps)
  then show ?thesis
    by (auto simp: still_def uprobe_hit_def post_actions_schedule fij_uprobe_schedule_disarm_def schedule_work_def
        Let_def targets_wf_def)
qed

lemma still_out: "still s (bitflip_out d s)"
  by (simp add: bitflip_out_def still_def probe_inv_def targets_wf_def)

lemma inject_keeps_probe: "inject_post K s ret s' \<Longrightarrow> probe_inv s' \<longleftrightarrow> probe_inv s"
  unfolding inject_post_def by (meson injection_keeps_probe)

lemma still_inject: "inject_post K s ret s' \<Longrightarrow> still s s'"
proof -
  assume post: "inject_post K s ret s'"
  then have run: "same_but_run (ctx s) (ctx s')" "targets_wf (ctx s')" by (simp_all add: inject_post_def)
  with inject_keeps_probe [OF post] same_but_runD [OF run(1)] show ?thesis by (simp add: still_def)
qed

lemma still_injection:
  assumes "targets_wf (ctx s)" and "\<And>r s'. still s s' \<Longrightarrow> Q (r, s')"
  shows "wlp (fij_stop_flip_resume_one_random A K s) Q"
  by (rule wlp_mono [OF one_random_post [OF assms(1)]]) (auto intro: assms(2) still_inject)

lemma still_upd [simp]:
  "still s (upd (\<lambda>c. c\<lparr>flip_triggered := i\<rparr>) s1) \<longleftrightarrow> still s s1"
  "still s (upd (\<lambda>c. c\<lparr>inject_work_queued := i\<rparr>) s1) \<longleftrightarrow> still s s1"
  "still s (s1\<lparr>kern := k\<rparr>) \<longleftrightarrow> still s s1"
  by (simp_all add: still_def probe_inv_def targets_wf_def)

lemma still_refl [simp]: "still s s"
  by (simp add: still_def)

lemma still_from_kern [simp]: "still (s\<lparr>kern := k\<rparr>) s' \<longleftrightarrow> still s s'"
  by (simp add: still_def probe_inv_def)

lemma still_triggered:
  "targets_wf (ctx s) \<Longrightarrow> bitflip_triggered A K s = Some s' \<Longrightarrow> still s s'"
proof -
  assume "targets_wf (ctx s)"
  then have "wlp (bitflip_triggered A K s) (\<lambda>s'. still s s')"
    unfolding bitflip_triggered_def
    by (auto intro!: ask_wlpI still_injection)
  then show "bitflip_triggered A K s = Some s' \<Longrightarrow> still s s'" by (simp add: wlp_def)
qed

lemma still_slept:
  "targets_wf (ctx s) \<Longrightarrow> bitflip_wake A K ret s = Some s' \<Longrightarrow> still s s'"
proof -
  assume "targets_wf (ctx s)"
  then have "wlp (bitflip_wake A K ret s) (\<lambda>s'. still s s')"
    unfolding bitflip_wake_def bitflip_slept_def
    by (auto intro!: ask_wlpI still_injection split: option.splits)
  then show "bitflip_wake A K ret s = Some s' \<Longrightarrow> still s s'" by (simp add: wlp_def)
qed

lemma still_first: "flip_first K s = Some (f, s') \<Longrightarrow> still s s' \<and> f \<noteq> FlipOff"
proof -
  have "wlp (flip_first K s) (\<lambda>(f, s'). still s s' \<and> f \<noteq> FlipOff)"
    unfolding flip_first_def
    by (auto simp: bitflip_begin_def Let_def still_def probe_inv_def inode_ref_def targets_wf_def
        intro!: delay_wlpI)
  then show "flip_first K s = Some (f, s') \<Longrightarrow> still s s' \<and> f \<noteq> FlipOff" by (auto simp: wlp_def)
qed

lemma still_workfn: "still s (uprobe_disarm_workfn K s)"
  by (simp add: still_def workfn_keeps workfn_disarms)

lemma still_schedule: "still s (fij_uprobe_schedule_disarm K s)"
  using schedule_disarm_keeps [of K s]
  by (auto simp: still_def fij_uprobe_schedule_disarm_def schedule_work_def Let_def targets_wf_def)

lemma still_work: "still (s\<lparr>work := w\<rparr>) s' \<longleftrightarrow> still s s'"
  by (simp add: still_def probe_inv_def)

lemma still_worker:
  "targets_wf (ctx s) \<Longrightarrow> run_work A K w s = Some s' \<Longrightarrow> still s s'"
proof -
  assume wf: "targets_wf (ctx s)"
  then have "wlp (inject_workfn A K s) (\<lambda>s'. still s s')"
    unfolding inject_workfn_def
    by (auto simp: Let_def intro!: still_injection intro: still_trans [OF _ still_schedule])
  then show "run_work A K w s = Some s' \<Longrightarrow> still s s'"
    by (cases w) (auto simp: run_work_def still_workfn wlp_def)
qed

definition sent :: "'k kernel \<Rightarrow> 'k st \<Rightarrow> 'k st \<Rightarrow> bool" where
  "sent K s s' \<longleftrightarrow> probe_inv s' \<and> targets_wf (ctx s') \<and>
     (pc_monitor_thread (ctx s) \<noteq> None \<longrightarrow> pc_monitor_thread (ctx s') = pc_monitor_thread (ctx s)) \<and>
     (bitflip_thread (ctx s) \<noteq> None \<longrightarrow> bitflip_thread (ctx s') = bitflip_thread (ctx s)) \<and>
     (monitor_done (ctx s') = 0 \<or>
        pc_monitor_thread (ctx s') = pc_monitor_thread (ctx s) \<and> monitor_done (ctx s') = monitor_done (ctx s)) \<and>
     (kthread_law K \<and> (pc_monitor_thread (ctx s) = None \<longrightarrow> running (ctx s) = 0) \<longrightarrow>
        pc_monitor_thread (ctx s') = None \<longrightarrow> running (ctx s') = 0)"

lemma start_exec_sent:
  assumes "probe_inv s" "targets_wf (ctx s)" "monitor_done (ctx s) = 0" "fij_start_exec K s = Some (r, s')"
  shows "sent K s s'"
proof (cases "running (ctx s) = 0")
  case False
  with assms(4) have "s' = s" by (simp add: fij_start_exec_def)
  with assms show ?thesis by (simp add: sent_def)
next
  case True
  have "exec_outcome s r s'" "sprout s s'"
    using start_exec_post [OF assms(1) True, of K] start_exec_sprout [of K s] assms(4) by (auto simp: wlp_def)
  moreover have "kthread_law K \<Longrightarrow> monitored r s'"
    using start_exec_monitored [of K s] assms(4) by (simp add: wlp_def)
  ultimately show ?thesis
    using assms(2,3) by (auto simp: sent_def exec_outcome_def begun_def kept_def sprout_def monitored_def)
qed

lemma send_sent:
  assumes "probe_inv s" "targets_wf (ctx s)" "ioctl_send_msg K s = Some (r, s')"
  shows "sent K s s'"
proof (cases "fst (k_copy_from_user K (kern s))")
  case None
  with assms show ?thesis by (auto simp: ioctl_send_msg_def ask_eq sent_def probe_inv_def)
next
  case (Some u)
  let ?s = "upd (\<lambda>c. c\<lparr>monitor_done := 0\<rparr>) (upd (upd_result (\<lambda>r. r\<lparr>res_iteration_number := iteration_number u\<rparr>))
    (upd (\<lambda>c. c\<lparr>exec := (exec c)\<lparr>params := u\<rparr>\<rparr>) (s\<lparr>kern := snd (k_copy_from_user K (kern s))\<rparr>)))"
  have run: "fij_start_exec K ?s = Some (r, s')"
    using assms(3) Some by (simp add: ioctl_send_msg_def ask_eq Let_def)
  have "sent K ?s s'"
    by (rule start_exec_sent [OF _ _ _ run]) (use assms(1,2) in \<open>auto simp: probe_inv_def targets_wf_def\<close>)
  then show ?thesis by (auto simp: sent_def)
qed

section \<open>The invariant of a session\<close>

definition sess_ok :: "'k kernel \<Rightarrow> 'k sess \<Rightarrow> bool" where
  "sess_ok K S \<longleftrightarrow> probe_inv (st_of S) \<and> targets_wf (ctx (st_of S)) \<and>
     (pc_monitor_thread (ctx (st_of S)) = None \<longleftrightarrow> mon S = MonOff) \<and>
     (bitflip_thread (ctx (st_of S)) = None \<longleftrightarrow> flip S = FlipOff) \<and>
     (mon S \<noteq> MonOff \<longrightarrow> monitor_done (ctx (st_of S)) = 0) \<and>
     (kthread_law K \<and> mon S = MonOff \<longrightarrow> running (ctx (st_of S)) = 0)"

lemma sess_ok_still:
  assumes "sess_ok K S" "still (st_of S) (st_of S')" "mon S' = MonOff \<longleftrightarrow> mon S = MonOff"
    "flip S' = FlipOff \<longleftrightarrow> flip S = FlipOff"
  shows "sess_ok K S'"
  using assms by (simp add: sess_ok_def still_def)

lemma mon_after_off:
  assumes "pc_monitor_thread (ctx s) = None \<longleftrightarrow> m = MonOff"
    and "pc_monitor_thread (ctx s) \<noteq> None \<longrightarrow> pc_monitor_thread (ctx s') = pc_monitor_thread (ctx s)"
  shows "pc_monitor_thread (ctx s') = None \<longleftrightarrow> mon_after t s s' m = MonOff"
  using assms by (cases "pc_monitor_thread (ctx s)") (simp_all add: mon_after_def)

lemma flip_after_off:
  assumes "bitflip_thread (ctx s) = None \<longleftrightarrow> f = FlipOff"
    and "bitflip_thread (ctx s) \<noteq> None \<longrightarrow> bitflip_thread (ctx s') = bitflip_thread (ctx s)"
  shows "bitflip_thread (ctx s') = None \<longleftrightarrow> flip_after s s' f = FlipOff"
  using assms by (cases "bitflip_thread (ctx s)") (simp_all add: flip_after_def)

lemma sess_ok_send:
  assumes ok: "sess_ok K S" and sent: "sent K (st_of S) s'"
  shows "sess_ok K (S\<lparr>st_of := s', mon := mon_after t (st_of S) s' (mon S), flip := flip_after (st_of S) s' (flip S)\<rparr>)"
proof -
  let ?m = "mon_after t (st_of S) s' (mon S)" and ?f = "flip_after (st_of S) s' (flip S)"
  have m: "pc_monitor_thread (ctx s') = None \<longleftrightarrow> ?m = MonOff"
    using ok sent by (intro mon_after_off) (simp_all add: sess_ok_def sent_def)
  have f: "bitflip_thread (ctx s') = None \<longleftrightarrow> ?f = FlipOff"
    using ok sent by (intro flip_after_off) (simp_all add: sess_ok_def sent_def)
  have md: "?m \<noteq> MonOff \<longrightarrow> monitor_done (ctx s') = 0"
    using ok sent m unfolding sess_ok_def sent_def by metis
  have idle: "kthread_law K \<and> ?m = MonOff \<longrightarrow> running (ctx s') = 0"
    using ok sent m unfolding sess_ok_def sent_def by metis
  show ?thesis
    unfolding sess_ok_def using m f md idle sent by (simp add: sent_def)
qed

lemma sess_ok_join:
  assumes "sess_ok K S" "monitor_join K (st_of S) = Some s'" "mon S \<noteq> MonOff"
  shows "sess_ok K (S\<lparr>st_of := s', mon := MonJoined t c, flip := FlipOff\<rparr>)"
proof -
  have q: "quiesced (st_of S) s'"
    using join_post [of "st_of S" K] assms(1,2) by (simp add: sess_ok_def wp_def)
  have "pc_monitor_thread (ctx s') = pc_monitor_thread (ctx (st_of S))"
    using assms(2) by (auto simp: monitor_join_def ask_eq Let_def fij_stop_bitflip_thread_def split: if_splits option.splits)
  with q assms(1,3) show ?thesis by (auto simp: sess_ok_def quiesced_def)
qed

lemma sess_ok_publish:
  assumes "sess_ok K S"
  shows "sess_ok K (S\<lparr>st_of := monitor_publish K c t (st_of S), mon := MonOff\<rparr>)"
proof -
  let ?d = "if target_pc_present (ctx_params (ctx (st_of S))) \<noteq> 0 then fij_uprobe_disarm_sync K (st_of S) else st_of S"
  have "probe_inv ?d" "targets_wf (ctx ?d)" "bitflip_thread (ctx ?d) = bitflip_thread (ctx (st_of S))"
    using assms disarm_sync_disarms by (auto simp: sess_ok_def disarm_keeps)
  moreover have "probe_inv (tell K Kfree (tell K (PutTask t) (upd f s))) \<longleftrightarrow> probe_inv (upd f s)" for f and s :: "'a st"
    by (auto simp: probe_inv_def inode_ref_def)
  ultimately show ?thesis
    using assms by (simp add: sess_ok_def monitor_publish_def Let_def probe_inv_upd targets_wf_def)
qed

lemma step_ok:
  assumes "step A K S S'" and live: "\<not> released S'" and ok: "\<not> released S \<Longrightarrow> sess_ok K S"
  shows "sess_ok K S'"
  using assms(1)
proof (cases rule: step.cases)
  case (send r s' t)
  then show ?thesis using ok send_sent sess_ok_send by (metis sess_ok_def)
next
  case (mon_join t code s')
  with live have "sess_ok K S" by (intro ok) simp
  with mon_join show ?thesis by (simp add: sess_ok_join)
next
  case (mon_publish t code)
  with live have "sess_ok K S" by (intro ok) simp
  with mon_publish show ?thesis by (simp add: sess_ok_publish)
next
  case (flip_wake s')
  with live have "sess_ok K S" by (intro ok) simp
  then show ?thesis
    by (rule sess_ok_still)
      (use flip_wake \<open>sess_ok K S\<close> still_trans [OF still_triggered [OF _ flip_wake(3)] still_out] in
        \<open>auto simp: sess_ok_def\<close>)
next
  case (flip_slept ret dur s')
  with live have "sess_ok K S" by (intro ok) simp
  then show ?thesis
    by (rule sess_ok_still)
      (use flip_slept \<open>sess_ok K S\<close> still_trans [OF still_slept [OF _ flip_slept(3)] still_out] in
        \<open>auto simp: sess_ok_def\<close>)
next
  case (worker w s')
  with live have "sess_ok K S" by (intro ok) simp
  then show ?thesis
    by (rule sess_ok_still) (use worker \<open>sess_ok K S\<close> still_worker [OF _ worker(3)] in
      \<open>simp_all add: sess_ok_def still_work\<close>)
next
  case (flip_begin f s')
  with live have "sess_ok K S" by (intro ok) simp
  then show ?thesis by (rule sess_ok_still) (use flip_begin still_first [OF flip_begin(3)] in simp_all)
next
  case (mon_exit t e code s')
  with live have "sess_ok K S" by (intro ok) simp
  then show ?thesis
    by (rule sess_ok_still) (use mon_exit still_trans [OF still_pass still_exit_begin] in simp_all)
next
  case (mon_wait t s')
  with live have "sess_ok K S" by (intro ok) simp
  then show ?thesis by (rule sess_ok_still) (use mon_wait still_pass in simp_all)
next
  case (receive r s')
  with live have "sess_ok K S" by (intro ok) simp
  then show ?thesis by (rule sess_ok_still) (use receive still_receive in simp_all)
next
  case (kill r s')
  with live have "sess_ok K S" by (intro ok) simp
  then show ?thesis by (rule sess_ok_still) (use kill still_kill in simp_all)
next
  case hit
  with live have "sess_ok K S" by (intro ok) simp
  then show ?thesis by (rule sess_ok_still) (use hit still_hit in simp_all)
qed (use live in simp)

lemma reachable_ok: "reachable A K S \<Longrightarrow> \<not> released S \<Longrightarrow> sess_ok K S"
proof (induction rule: reachable.induct)
  case (start S)
  then obtain s where s: "klog s = []" "fij_open K s = Some (0, st_of S)" and off: "mon S = MonOff" "flip S = FlipOff"
    unfolding opened_def by blast
  have "wlp (fij_open K s) (\<lambda>(r, s'). r = 0 \<longrightarrow> klog s' = [Kmalloc 1] \<and> ctx s' = fij_ctx_init zero_ctx)"
    unfolding fij_open_def using s(1) by (auto simp: Let_def intro!: ask_wlpI)
  with s(2) have "klog (st_of S) = [Kmalloc 1]" "ctx (st_of S) = fij_ctx_init zero_ctx" by (simp_all add: wlp_def)
  with off show ?case
    by (simp add: sess_ok_def probe_inv_def targets_wf_def fij_ctx_init_def fij_uprobe_init_work_def
        zero_ctx_def inode_ref_def)
next
  case (next_step S S')
  then show ?case using step_ok by blast
qed

section \<open>Ending a run\<close>

lemma join_returns: "probe_inv s \<Longrightarrow> \<exists>s'. monitor_join K s = Some s' \<and> quiesced s s'"
  using join_post [of s K] by (auto simp: wp_def)

lemma publish_result:
  "exit_code (ctx_result (ctx (monitor_publish K c t s))) = c"
  "running (ctx (monitor_publish K c t s)) = 0"
  "monitor_done (ctx (monitor_publish K c t s)) = monitor_done (ctx s) + 1"
  by (simp_all add: monitor_publish_def Let_def disarm_keeps)

lemma reachable_path: "(step A K)\<^sup>*\<^sup>* S S' \<Longrightarrow> reachable A K S \<Longrightarrow> reachable A K S'"
  by (induction rule: rtranclp_induct) (auto intro: reachable.next_step)

text \<open>The end of a run as a path of three steps.\<close>

lemma exit_path:
  assumes "mon S = MonLoop t" and "flip S = FlipOff \<or> flip S = FlipDone"
    and "monitor_pass K t (st_of S) = Some (Some (e, c), s1)"
    and "monitor_join K (monitor_exit_begin K s1) = Some s2"
  shows "(step A K)\<^sup>*\<^sup>* S (S\<lparr>st_of := monitor_publish K c t s2, mon := MonOff, flip := FlipOff\<rparr>)"
proof -
  let ?S1 = "S\<lparr>st_of := monitor_exit_begin K s1, mon := MonExit t c\<rparr>"
  let ?S2 = "?S1\<lparr>st_of := s2, mon := MonJoined t c, flip := FlipOff\<rparr>"
  have "step A K S ?S1" by (rule step.mon_exit [OF assms(1,3)])
  moreover have "step A K ?S1 ?S2" by (rule step.mon_join) (use assms(2,4) in auto)
  moreover have "step A K ?S2 (?S2\<lparr>st_of := monitor_publish K c t (st_of ?S2), mon := MonOff\<rparr>)"
    by (rule step.mon_publish) simp
  ultimately have "(step A K)\<^sup>*\<^sup>* S (?S2\<lparr>st_of := monitor_publish K c t (st_of ?S2), mon := MonOff\<rparr>)"
    by (meson converse_rtranclp_into_rtranclp rtranclp.rtrancl_refl)
  then show ?thesis by (cases S) simp
qed

section \<open>Properties of a session\<close>


definition demo_open :: "unit sess" where
  "demo_open = \<lparr>st_of = upd (\<lambda>c. fij_ctx_init zero_ctx) (noted (Kmalloc 1) demo_st), mon = MonOff,
     flip = FlipOff, released = False\<rparr>"

lemma demo_opened: "fst (k_alloc_ok K ()) \<Longrightarrow> opened (K :: unit kernel) demo_open"
  by (auto simp: opened_def demo_open_def fij_open_def ask_eq demo_st_def upd_def noted_def
      intro!: exI [of _ demo_st])

lemma demo_reachable: "reachable CONFIG_X86 demo demo_open"
  by (rule reachable.start) (rule demo_opened, simp add: demo_def)



text \<open>An idle device is ready. Whenever no monitor is at work, \<open>running\<close> is 0, so no command is refused
  because of a run that is over. (A kernel whose \<open>kthread_run\<close> reports errors as negative numbers.)\<close>

theorem idle_device_is_ready:
  assumes "kthread_law K" and "reachable A K S" and "\<not> released S" and "mon S = MonOff"
  shows "running (ctx (st_of S)) = 0"
  using reachable_ok [OF assms(2,3)] assms(1,4) by (simp add: sess_ok_def)

theorem idle_device_is_ready_witness:
  "running (ctx (st_of demo_open)) = 0"
proof (rule idle_device_is_ready [of "demo :: unit kernel" CONFIG_X86])
  show "kthread_law (demo :: unit kernel)" by (simp add: kthread_law_def demo_def)
  show "reachable CONFIG_X86 demo demo_open" by (rule demo_reachable)
qed (simp_all add: demo_open_def)

lemma run_ends:
  assumes "reachable A K S" and "\<not> released S" and "mon S = MonLoop t"
    and "flip S = FlipOff \<or> flip S = FlipDone" and "k_task_exited K t (kern (st_of S)) = (True, k)"
  shows "\<exists>S'. (step A K)\<^sup>*\<^sup>* S S' \<and> reachable A K S' \<and> \<not> released S' \<and> mon S' = MonOff \<and> flip S' = FlipOff \<and>
    running (ctx (st_of S')) = 0 \<and> monitor_done (ctx (st_of S')) = 1 \<and>
    exit_code (ctx_result (ctx (st_of S'))) = fst (k_task_exit_code K t k)"
proof -
  let ?c = "fst (k_task_exit_code K t k)"
  have ok: "sess_ok K S" by (rule reachable_ok [OF assms(1,2)])
  obtain s1 where pass: "monitor_pass K t (st_of S) = Some (Some (True, ?c), s1)"
    using assms(5) by (simp add: monitor_pass_def ask_eq)
  have st: "still (st_of S) (monitor_exit_begin K s1)"
    using still_trans [OF still_pass [OF pass] still_exit_begin] .
  then have "probe_inv (monitor_exit_begin K s1)" using ok by (simp add: still_def sess_ok_def)
  then obtain s2 where join: "monitor_join K (monitor_exit_begin K s1) = Some s2"
      "quiesced (monitor_exit_begin K s1) s2"
    using join_returns by blast
  have "monitor_done (ctx s2) = 0" using join(2) st ok assms(3) by (simp add: quiesced_def still_def sess_ok_def)
  note path = exit_path [OF assms(3,4) pass join(1), of A]
  note reach = reachable_path [OF _ assms(1)]
  show ?thesis
    using path reach [OF path] assms(2) \<open>monitor_done (ctx s2) = 0\<close>
    by (intro exI [of _ "S\<lparr>st_of := monitor_publish K ?c t s2, mon := MonOff, flip := FlipOff\<rparr>"])
      (simp add: publish_result)
qed


section \<open>A concrete session\<close>

text \<open>A kernel in which the target is gone at once, and a user who always sends the same message.\<close>

definition demo_gone :: "unit kernel" where
  "demo_gone = demo\<lparr>k_task_exited := (\<lambda>t k. (True, k)),
     k_copy_from_user := (\<lambda>k. (Some (ctx_params (ctx demo_ready)), k))\<rparr>"

lemmas session_simps =
  ioctl_send_msg_def start_exec_run_simps demo_def demo_vmas_def demo_gone_def demo_ready_def demo_st_def
  fij_ctx_init_def fij_uprobe_init_work_def zero_ctx_def zero_params_def argv_loop_tokens FIJ_MAX_ARGC_def
  tokens_def

lemma demo_send:
  "\<exists>s. ioctl_send_msg demo_gone (st_of demo_open) = Some (0, s) \<and> pc_monitor_thread (ctx s) = Some 21 \<and>
     bitflip_thread (ctx s) = Some 21 \<and> target_pc_present (ctx_params (ctx s)) = 0 \<and>
     GetTask 1 \<in> set (drop 1 (klog s))"
  by (simp add: session_simps demo_open_def)

lemma demo_busy:
  assumes "running (ctx s) = 0" "pc_monitor_thread (ctx s) \<noteq> None"
  shows "\<exists>s' es. ioctl_send_msg demo_gone s = Some (- EBUSY, s') \<and> klog s' = klog s @ es \<and>
    UmhExec ''/bin/t'' [''/bin/t'', ''-n'', ''2''] \<in> set es \<and> (\<forall>t r. SendSig SIGCONT t r \<notin> set es)"
  using assms by (simp add: session_simps)

lemma first_returns:
  assumes "target_pc_present (ctx_params (ctx s)) = 0"
  shows "\<exists>s' ret dur. flip_first K s = Some (FlipSleep ret dur, s') \<and> ctx s' = ctx (bitflip_begin s)"
proof -
  have "wp (bitflip_delay K a b s1) (\<lambda>(r, s'). ctx s' = ctx s1)" for a b s1
    unfolding bitflip_delay_def fij_random_ms_def fij_sleep_hrtimeout_interruptible_ns_def
    by (auto simp: Let_def intro!: ask_wpI split: if_splits)
  note delay = wp_mono [OF this]
  have "wp (flip_first K s) (\<lambda>(f, s'). (\<exists>ret dur. f = FlipSleep ret dur) \<and> ctx s' = ctx (bitflip_begin s))"
    unfolding flip_first_def using assms by (auto simp: Let_def bitflip_begin_def intro!: delay split: prod.splits)
  then show ?thesis by (auto simp: wp_def)
qed

lemma demo_slept:
  "\<not> target_alive (ctx s) \<Longrightarrow> bitflip_wake A K ret s = Some s"
  by (simp add: bitflip_wake_def bitflip_slept_def split: option.splits)

text \<open>A run up to the point where its monitor has joined the injection thread.\<close>

lemma demo_run_started:
  "\<exists>S. reachable CONFIG_X86 demo_gone S \<and> \<not> released S \<and> mon S = MonLoop 1 \<and> flip S = FlipStart \<and>
     target_pc_present (ctx_params (ctx (st_of S))) = 0"
proof -
  obtain s where s: "ioctl_send_msg demo_gone (st_of demo_open) = Some (0, s)" "pc_monitor_thread (ctx s) = Some 21"
    "bitflip_thread (ctx s) = Some 21" "target_pc_present (ctx_params (ctx s)) = 0" "GetTask 1 \<in> set (drop 1 (klog s))"
    using demo_send by blast
  have open0: "reachable CONFIG_X86 demo_gone demo_open"
    by (rule reachable.start) (rule demo_opened, simp add: demo_gone_def demo_def)
  have ctx0: "\<not> released demo_open" "pc_monitor_thread (ctx (st_of demo_open)) = None"
    "bitflip_thread (ctx (st_of demo_open)) = None" "length (klog (st_of demo_open)) = 1"
    by (simp_all add: demo_open_def demo_st_def fij_ctx_init_def fij_uprobe_init_work_def zero_ctx_def)
  have "step CONFIG_X86 demo_gone demo_open (demo_open\<lparr>st_of := s, mon := mon_after 1 (st_of demo_open) s (mon demo_open),
      flip := flip_after (st_of demo_open) s (flip demo_open)\<rparr>)"
    by (rule step.send [OF ctx0(1) s(1)]) (use s(5) ctx0(4) in simp)
  with open0 have "reachable CONFIG_X86 demo_gone (demo_open\<lparr>st_of := s, mon := MonLoop 1, flip := FlipStart\<rparr>)"
    using s ctx0 by (auto simp: mon_after_def flip_after_def intro: reachable.next_step)
  then show ?thesis
    using s(4) ctx0(1) by (intro exI [of _ "demo_open\<lparr>st_of := s, mon := MonLoop 1, flip := FlipStart\<rparr>"]) simp
qed

lemma demo_run_done:
  "\<exists>S c. reachable CONFIG_X86 demo_gone S \<and> \<not> released S \<and> mon S = MonExit 1 c \<and> flip S = FlipDone"
proof -
  obtain S where S: "reachable CONFIG_X86 demo_gone S" "\<not> released S" "mon S = MonLoop 1" "flip S = FlipStart"
    "target_pc_present (ctx_params (ctx (st_of S))) = 0" using demo_run_started by blast
  have "monitor_pass demo_gone 1 (st_of S) = Some (Some (True, 0), st_of S)"
    by (simp add: monitor_pass_def ask_eq demo_gone_def demo_def)
  from step.mon_exit [OF S(3) this] have r1: "reachable CONFIG_X86 demo_gone
      (S\<lparr>st_of := monitor_exit_begin demo_gone (st_of S), mon := MonExit 1 0\<rparr>)" (is "reachable _ _ ?S1")
    using S(1) by (blast intro: reachable.next_step)
  have c1: "target_pc_present (ctx_params (ctx (st_of ?S1))) = 0" "\<not> target_alive (ctx (st_of ?S1))"
    using S(5) by (simp_all, (subst exit_begin_ctx(1), simp)+)
  obtain s2 ret dur where f: "flip_first demo_gone (st_of ?S1) = Some (FlipSleep ret dur, s2)"
      "ctx s2 = ctx (bitflip_begin (st_of ?S1))"
    using first_returns [OF c1(1)] by blast
  let ?S2 = "?S1\<lparr>st_of := s2, flip := FlipSleep ret dur\<rparr>"
  have r2: "reachable CONFIG_X86 demo_gone ?S2"
    by (rule reachable.next_step [OF r1 step.flip_begin]) (use S(4) f(1) in simp_all)
  have "\<not> target_alive (ctx s2)" using f(2) c1(2) by (simp add: bitflip_begin_def)
  then have "bitflip_wake CONFIG_X86 demo_gone ret s2 = Some s2" by (rule demo_slept)
  then have "reachable CONFIG_X86 demo_gone (?S2\<lparr>st_of := bitflip_out dur s2, flip := FlipDone\<rparr>)"
    by (intro reachable.next_step [OF r2 step.flip_slept]) simp_all
  then show ?thesis using S(2)
    by (intro exI [of _ "?S2\<lparr>st_of := bitflip_out dur s2, flip := FlipDone\<rparr>"]) simp
qed

text \<open>A session can be released while its monitor runs. The pointer is cleared and nothing waits for the
  thread: it goes on, and its next step writes to the context that has been freed.\<close>

theorem released_under_the_monitor:
  "\<exists>S S'. reachable CONFIG_X86 demo_gone S \<and> released S \<and> mon S \<noteq> MonOff \<and>
     step CONFIG_X86 demo_gone S S' \<and> mon S' = MonOff \<and>
     monitor_done (ctx (st_of S')) = monitor_done (ctx (st_of S)) + 1"
proof -
  obtain S c where S: "reachable CONFIG_X86 demo_gone S" "\<not> released S" "mon S = MonExit 1 c" "flip S = FlipDone"
    using demo_run_done by blast
  let ?S1 = "S\<lparr>st_of := snd (fij_release demo_gone (st_of S)), flip := FlipOff, released := True\<rparr>"
  have r1: "reachable CONFIG_X86 demo_gone ?S1"
    by (rule reachable.next_step [OF S(1) step.release]) (use S(2,4) in simp_all)
  have "\<exists>s'. monitor_join demo_gone (st_of ?S1) = Some s'"
    by (simp add: monitor_join_def ask_eq Let_def)
  then obtain s' where join: "monitor_join demo_gone (st_of ?S1) = Some s'" by blast
  let ?S2 = "?S1\<lparr>st_of := s', mon := MonJoined 1 c, flip := FlipOff\<rparr>"
  have r2: "reachable CONFIG_X86 demo_gone ?S2"
    by (rule reachable.next_step [OF r1 step.mon_join]) (use S(3) join in simp_all)
  let ?S3 = "?S2\<lparr>st_of := monitor_publish demo_gone c 1 (st_of ?S2), mon := MonOff\<rparr>"
  have "step CONFIG_X86 demo_gone ?S2 ?S3" by (rule step.mon_publish) simp
  moreover have "monitor_done (ctx (st_of ?S3)) = monitor_done (ctx (st_of ?S2)) + 1" by (simp add: publish_result)
  ultimately show ?thesis using r2 by (intro exI [of _ ?S2] exI [of _ ?S3]) simp
qed

text \<open>A message can be accepted too early. Stopping the injection thread clears \<open>running\<close> before the monitor
  has published its result, so in this state the device starts a second target: the file is executed and
  stopped, then the call fails with \<open>-EBUSY\<close> because the old monitor is still there, and the target is
  never continued.\<close>

theorem early_message_strands_target:
  "\<exists>S s' es. reachable CONFIG_X86 demo_gone S \<and> \<not> released S \<and> mon S \<noteq> MonOff \<and>
     ioctl_send_msg demo_gone (st_of S) = Some (- EBUSY, s') \<and> klog s' = klog (st_of S) @ es \<and>
     UmhExec ''/bin/t'' [''/bin/t'', ''-n'', ''2''] \<in> set es \<and> (\<forall>t r. SendSig SIGCONT t r \<notin> set es)"
proof -
  obtain S c where S: "reachable CONFIG_X86 demo_gone S" "\<not> released S" "mon S = MonExit 1 c" "flip S = FlipDone"
    using demo_run_done by blast
  have ok: "sess_ok demo_gone S" by (rule reachable_ok [OF S(1,2)])
  then obtain t where t: "bitflip_thread (ctx (st_of S)) = Some t" using S(4) by (auto simp: sess_ok_def)
  have "\<exists>s'. monitor_join demo_gone (st_of S) = Some s' \<and> running (ctx s') = 0"
    using t by (simp add: monitor_join_def ask_eq fij_stop_bitflip_thread_def Let_def)
  then obtain s' where join: "monitor_join demo_gone (st_of S) = Some s'" "running (ctx s') = 0" by blast
  let ?S = "S\<lparr>st_of := s', mon := MonJoined 1 c, flip := FlipOff\<rparr>"
  have r: "reachable CONFIG_X86 demo_gone ?S"
    by (rule reachable.next_step [OF S(1) step.mon_join]) (use S(3,4) join(1) in simp_all)
  have live: "\<not> released ?S" "mon ?S \<noteq> MonOff" using S(2) by simp_all
  from reachable_ok [OF r live(1)] live(2) have "pc_monitor_thread (ctx s') \<noteq> None" by (simp add: sess_ok_def)
  from demo_busy [OF join(2) this] r live show ?thesis by (intro exI [of _ ?S]) simp
qed

text \<open>A run without injection, watched to its end.\<close>

definition demo_watch :: "unit kernel" where
  "demo_watch = demo_gone\<lparr>k_copy_from_user := (\<lambda>k. (Some ((ctx_params (ctx demo_ready))\<lparr>no_injection := 1\<rparr>), k))\<rparr>"

lemma demo_watch_started:
  "\<exists>S. reachable CONFIG_X86 demo_watch S \<and> \<not> released S \<and> mon S = MonLoop 1 \<and> flip S = FlipOff"
proof -
  have "\<exists>s. ioctl_send_msg demo_watch (st_of demo_open) = Some (0, s) \<and> pc_monitor_thread (ctx s) = Some 21 \<and>
     bitflip_thread (ctx s) = None \<and> GetTask 1 \<in> set (drop 1 (klog s))"
    by (simp add: session_simps demo_watch_def demo_open_def)
  then obtain s where s: "ioctl_send_msg demo_watch (st_of demo_open) = Some (0, s)"
    "pc_monitor_thread (ctx s) = Some 21" "bitflip_thread (ctx s) = None" "GetTask 1 \<in> set (drop 1 (klog s))" by blast
  have open0: "reachable CONFIG_X86 demo_watch demo_open"
    by (rule reachable.start) (rule demo_opened, simp add: demo_watch_def demo_gone_def demo_def)
  have ctx0: "\<not> released demo_open" "pc_monitor_thread (ctx (st_of demo_open)) = None" "flip demo_open = FlipOff"
    "bitflip_thread (ctx (st_of demo_open)) = None" "length (klog (st_of demo_open)) = 1"
    by (simp_all add: demo_open_def demo_st_def fij_ctx_init_def fij_uprobe_init_work_def zero_ctx_def)
  have "step CONFIG_X86 demo_watch demo_open (demo_open\<lparr>st_of := s, mon := mon_after 1 (st_of demo_open) s (mon demo_open),
      flip := flip_after (st_of demo_open) s (flip demo_open)\<rparr>)"
    by (rule step.send [OF ctx0(1) s(1)]) (use s(4) ctx0(5) in simp)
  with open0 have "reachable CONFIG_X86 demo_watch (demo_open\<lparr>st_of := s, mon := MonLoop 1, flip := FlipOff\<rparr>)"
    using s ctx0 by (auto simp: mon_after_def flip_after_def intro: reachable.next_step)
  then show ?thesis
    using ctx0(1) by (intro exI [of _ "demo_open\<lparr>st_of := s, mon := MonLoop 1, flip := FlipOff\<rparr>"]) simp
qed

lemma demo_watch_exited: "k_task_exited demo_watch t k = (True, k)" "fst (k_task_exit_code demo_watch t k) = 0"
    "fst (k_copy_to_user demo_watch k)"
  by (simp_all add: demo_watch_def demo_gone_def demo_def)

lemma demo_watch_ended:
  "\<exists>S. reachable CONFIG_X86 demo_watch S \<and> \<not> released S \<and> monitor_done (ctx (st_of S)) = 1"
proof -
  obtain S where S: "reachable CONFIG_X86 demo_watch S" "\<not> released S" "mon S = MonLoop 1" "flip S = FlipOff"
    using demo_watch_started by blast
  from run_ends [OF S(1-3) disjI1 [OF S(4)] demo_watch_exited(1)] show ?thesis by blast
qed



section \<open>After the release\<close>

text \<open>Nothing but a monitor can still act on the context.\<close>

definition dead :: "'k st \<Rightarrow> bool" where
  "dead s \<longleftrightarrow> \<not> uprobe_active (ctx s) \<and> bitflip_thread (ctx s) = None \<and>
     Uprobe_disarm_workfn \<notin> set (work s) \<and> Inject_workfn \<notin> set (work s)"

lemma dead_simps [simp]:
  "dead (tell K e s) \<longleftrightarrow> dead s" "dead (s\<lparr>kern := k\<rparr>) \<longleftrightarrow> dead s"
  "dead (upd (upd_result f) s) \<longleftrightarrow> dead s"
  by (simp_all add: dead_def tell_def upd_def)

lemma release_dead: "probe_inv s \<Longrightarrow> dead (snd (fij_release K s))"
proof -
  assume "probe_inv s"
  then have "disarmed (fij_uprobe_disarm_sync K (release_stopped K s))"
    using disarm_sync_disarms release_stopped_keeps(1) by blast
  then show ?thesis
    using release_stopped_keeps(2,3) [of K s]
    by (simp add: release_eq dead_def disarmed_def disarm_keeps disarm_work tell_def)
qed

lemma workfn_off: "\<not> uprobe_active (ctx s) \<Longrightarrow> \<not> uprobe_active (ctx (uprobe_disarm_workfn K s))"
  by (simp add: uprobe_disarm_workfn_def Let_def split: option.splits)

lemma disarm_off: "\<not> uprobe_active (ctx s) \<Longrightarrow> \<not> uprobe_active (ctx (fij_uprobe_disarm_sync K s))"
  by (simp add: disarm_sync_eq flush_work_def Let_def workfn_off)

lemma disarm_dead: "dead s \<Longrightarrow> dead (fij_uprobe_disarm_sync K s)"
  by (simp add: dead_def disarm_keeps disarm_work disarm_off)

lemma publish_dead: "dead s \<Longrightarrow> dead (monitor_publish K c t s)"
  using disarm_dead [of s K]
  by (auto simp: monitor_publish_def Let_def) (auto simp: dead_def upd_def)

lemma pass_dead: "monitor_pass K t s = Some (r, s') \<Longrightarrow> dead s \<Longrightarrow> dead s'"
  by (auto simp: monitor_pass_def ask_eq split: if_splits)

lemma exit_begin_dead: "dead s \<Longrightarrow> dead (monitor_exit_begin K s)"
  by (auto simp: dead_def monitor_exit_begin_def fij_revert_file_backed_bitflip_def Let_def upd_def tell_def)

lemma join_dead: "monitor_join K s = Some s' \<Longrightarrow> dead s \<Longrightarrow> s' = s"
  by (simp add: monitor_join_def dead_def)

definition final :: "'k sess \<Rightarrow> bool" where
  "final S \<longleftrightarrow> released S \<and> flip S = FlipOff \<and> dead (st_of S)"

lemma worker_dead: "dead s \<Longrightarrow> w \<in> set (work s) \<Longrightarrow> run_work A K w s' = None"
  by (cases w) (auto simp: dead_def run_work_def)

lemma final_step:
  assumes "step A K S S'" and "final S"
  shows "final S' \<and> mon S \<noteq> MonOff"
proof -
  have off: "released S" "flip S = FlipOff" "dead (st_of S)" using assms(2) by (simp_all add: final_def)
  then have "\<not> uprobe_active (ctx (st_of S))" by (simp add: dead_def)
  with assms(1) off show ?thesis
    by (elim stepE) (auto simp: final_def publish_dead worker_dead intro: pass_dead exit_begin_dead dest: join_dead)
qed

lemma release_final: "reachable A K S \<Longrightarrow> released S \<Longrightarrow> final S"
proof (induction rule: reachable.induct)
  case (start S) then show ?case by (simp add: opened_def)
next
  case (next_step S S')
  show ?case
  proof (cases "released S")
    case True
    with next_step show ?thesis using final_step by blast
  next
    case False
    have "probe_inv (st_of S)" using reachable_ok [OF next_step(1) False] by (simp add: sess_ok_def)
    with next_step(2,4) False show ?thesis by (elim stepE) (auto simp: final_def release_dead)
  qed
qed



end
