(* ===== verification/Fij_Schedule.thy ===== *)
theory Fij_Schedule
  imports Fij_Session
begin

text \<open>
  The steps of a session as functions. The relation \<open>step\<close> of the session is either a system call or one
  action of a thread, the probe or the work queue; the actions are computed by \<open>act_step\<close>, and a schedule
  is the list of actions that happen between two system calls. The second half says what an action leaves
  alone: the parameters, the number of the run, and, in a run without injection, everything an injection
  would write.
\<close>

section \<open>Actions\<close>

datatype act = MonAct | FlipAct | HitAct | WorkAct callback

text \<open>\<open>None\<close>: the action is not possible now.\<close>

definition mon_act :: "'k kernel \<Rightarrow> 'k sess \<Rightarrow> 'k sess option" where
  "mon_act K S = (case mon S of
       MonOff \<Rightarrow> None
     | MonLoop t \<Rightarrow> do {
         (r, s) \<leftarrow> monitor_pass K t (st_of S);
         Some (case r of
             None \<Rightarrow> S\<lparr>st_of := s\<rparr>
           | Some (exited, code) \<Rightarrow> S\<lparr>st_of := monitor_exit_begin K s, mon := MonExit t code\<rparr>)
       }
     | MonExit t code \<Rightarrow>
         if flip S = FlipOff \<or> flip S = FlipDone then do {
           s \<leftarrow> monitor_join K (st_of S);
           Some (S\<lparr>st_of := s, mon := MonJoined t code, flip := FlipOff\<rparr>)
         }
         else None
     | MonJoined t code \<Rightarrow> Some (S\<lparr>st_of := monitor_publish K code t (st_of S), mon := MonOff\<rparr>))"

definition flip_act :: "arch \<Rightarrow> 'k kernel \<Rightarrow> 'k sess \<Rightarrow> 'k sess option" where
  "flip_act A K S = (case flip S of
       FlipStart \<Rightarrow> do {
         (f, s) \<leftarrow> flip_first K (st_of S);
         Some (S\<lparr>st_of := s, flip := f\<rparr>)
       }
     | FlipWait \<Rightarrow> do {
         s \<leftarrow> bitflip_triggered A K (st_of S);
         Some (S\<lparr>st_of := bitflip_out 0 s, flip := FlipDone\<rparr>)
       }
     | FlipSleep ret dur \<Rightarrow> do {
         s \<leftarrow> bitflip_wake A K ret (st_of S);
         Some (S\<lparr>st_of := bitflip_out dur s, flip := FlipDone\<rparr>)
       }
     | _ \<Rightarrow> None)"

fun act_step :: "arch \<Rightarrow> 'k kernel \<Rightarrow> act \<Rightarrow> 'k sess \<Rightarrow> 'k sess option" where
  "act_step A K MonAct S = mon_act K S"
| "act_step A K FlipAct S = flip_act A K S"
| "act_step A K HitAct S =
     (if uprobe_active (ctx (st_of S)) then Some (S\<lparr>st_of := snd (uprobe_hit K (st_of S))\<rparr>) else None)"
| "act_step A K (WorkAct w) S =
     (if w \<in> set (work (st_of S)) then do {
        s \<leftarrow> run_work A K w ((st_of S)\<lparr>work := remove1 w (work (st_of S))\<rparr>);
        Some (S\<lparr>st_of := s\<rparr>)
      }
      else None)"

text \<open>The system calls of an open session.\<close>

definition call_step :: "'k kernel \<Rightarrow> 'k sess \<Rightarrow> 'k sess \<Rightarrow> bool" where
  "call_step K S S' \<longleftrightarrow> \<not> released S \<and>
     ((\<exists>r s' t. ioctl_send_msg K (st_of S) = Some (r, s') \<and>
         (GetTask t \<in> set (drop (length (klog (st_of S))) (klog s')) \<or>
          pc_monitor_thread (ctx s') = pc_monitor_thread (ctx (st_of S))) \<and>
         S' = S\<lparr>st_of := s', mon := mon_after t (st_of S) s' (mon S), flip := flip_after (st_of S) s' (flip S)\<rparr>) \<or>
      (\<exists>r s'. ioctl_receive_msg K (st_of S) = Some (r, s') \<and> S' = S\<lparr>st_of := s'\<rparr>) \<or>
      (\<exists>r s'. ioctl_kill_target K id (st_of S) = Some (r, s') \<and> S' = S\<lparr>st_of := s'\<rparr>) \<or>
      (flip S = FlipOff \<or> flip S = FlipDone) \<and>
         S' = S\<lparr>st_of := snd (fij_release K (st_of S)), flip := FlipOff, released := True\<rparr>)"

lemma mon_act_step: "mon_act K S = Some S' \<Longrightarrow> step A K S S'"
proof (cases "mon S")
  case (MonLoop t)
  assume "mon_act K S = Some S'"
  then obtain r s where pass: "monitor_pass K t (st_of S) = Some (r, s)"
      "S' = (case r of None \<Rightarrow> S\<lparr>st_of := s\<rparr>
        | Some (exited, code) \<Rightarrow> S\<lparr>st_of := monitor_exit_begin K s, mon := MonExit t code\<rparr>)"
    using MonLoop by (auto simp: mon_act_def bind_eq_Some_conv)
  show ?thesis
  proof (cases r)
    case None
    with pass show ?thesis using step.mon_wait [OF MonLoop] by simp
  next
    case (Some x)
    with pass show ?thesis using step.mon_exit [OF MonLoop] by (cases x) simp
  qed
qed (auto simp: mon_act_def bind_eq_Some_conv intro: step.mon_join step.mon_publish split: if_split_asm)

lemma flip_act_step: "flip_act A K S = Some S' \<Longrightarrow> step A K S S'"
  by (auto simp: flip_act_def bind_eq_Some_conv split: flip_pc.splits
    intro: step.flip_begin step.flip_wake step.flip_slept)

lemma act_step_step: "act_step A K a S = Some S' \<Longrightarrow> step A K S S'"
  by (cases a) (auto simp: bind_eq_Some_conv intro: mon_act_step flip_act_step step.hit step.worker
    split: if_split_asm)

lemma call_step_step: "call_step K S S' \<Longrightarrow> step A K S S'"
  unfolding call_step_def by (auto intro: step.send step.receive step.kill step.release)

lemma step_act:
  assumes "step A K S S'"
  shows "call_step K S S' \<or> (\<exists>a. act_step A K a S = Some S')"
  using assms
proof (cases rule: step.cases)
  case (mon_wait t s')
  then show ?thesis by (intro disjI2 exI [of _ MonAct]) (simp add: mon_act_def)
next
  case (mon_exit t e code s')
  then show ?thesis by (intro disjI2 exI [of _ MonAct]) (simp add: mon_act_def)
next
  case (mon_join t code s')
  then show ?thesis by (intro disjI2 exI [of _ MonAct]) (simp add: mon_act_def)
next
  case (mon_publish t code)
  then show ?thesis by (intro disjI2 exI [of _ MonAct]) (simp add: mon_act_def)
next
  case (flip_begin f s')
  then show ?thesis by (intro disjI2 exI [of _ FlipAct]) (simp add: flip_act_def)
next
  case (flip_wake s')
  then show ?thesis by (intro disjI2 exI [of _ FlipAct]) (simp add: flip_act_def)
next
  case (flip_slept ret dur s')
  then show ?thesis by (intro disjI2 exI [of _ FlipAct]) (simp add: flip_act_def)
next
  case hit
  then show ?thesis by (intro disjI2 exI [of _ HitAct]) simp
next
  case (worker w s')
  then show ?thesis by (intro disjI2 exI [of _ "WorkAct w"]) simp
qed (auto simp: call_step_def)

text \<open>The step relation is exactly the system calls and the actions.\<close>

theorem step_is_call_or_action:
  "step A K S S' \<longleftrightarrow> call_step K S S' \<or> (\<exists>a. act_step A K a S = Some S')"
  using step_act call_step_step act_step_step by metis

section \<open>What an action leaves alone\<close>

text \<open>The parameters and the number of the run stay, and \<open>fault_injected\<close> is set only by an injection into
  one thread.\<close>

definition keeps_run :: "'k st \<Rightarrow> 'k st \<Rightarrow> bool" where
  "keeps_run s s' \<longleftrightarrow> ctx_params (ctx s') = ctx_params (ctx s) \<and>
     res_iteration_number (ctx_result (ctx s')) = res_iteration_number (ctx_result (ctx s)) \<and>
     (fault_injected (ctx_result (ctx s')) = fault_injected (ctx_result (ctx s)) \<or>
      fault_injected (ctx_result (ctx s')) = 1 \<and> all_threads (ctx_params (ctx s)) = 0)"

lemma keeps_run_refl [simp]: "keeps_run s s"
  by (simp add: keeps_run_def)

lemma keeps_run_trans: "keeps_run s s1 \<Longrightarrow> keeps_run s1 s2 \<Longrightarrow> keeps_run s s2"
  by (auto simp: keeps_run_def)

lemma keeps_run_ctx: "ctx s' = ctx s \<Longrightarrow> keeps_run s s'"
  by (simp add: keeps_run_def)

lemma keeps_run_exec: "exec (ctx s') = exec (ctx s) \<Longrightarrow> keeps_run s s'"
  by (simp add: keeps_run_def)

lemma keeps_run_from [simp]:
  "keeps_run (s\<lparr>kern := k\<rparr>) s' \<longleftrightarrow> keeps_run s s'" "keeps_run (s\<lparr>work := w\<rparr>) s' \<longleftrightarrow> keeps_run s s'"
  "keeps_run s (s'\<lparr>kern := k\<rparr>) \<longleftrightarrow> keeps_run s s'" "keeps_run s (tell K e s') \<longleftrightarrow> keeps_run s s'"
  by (simp_all add: keeps_run_def)

lemma keeps_run_upd [simp]:
  "keeps_run s (upd (\<lambda>c. c\<lparr>flip_triggered := i\<rparr>) s1) \<longleftrightarrow> keeps_run s s1"
  "keeps_run s (upd (\<lambda>c. c\<lparr>inject_work_queued := i\<rparr>) s1) \<longleftrightarrow> keeps_run s s1"
  by (simp_all add: keeps_run_def)

lemma same_but_run_iteration:
  "same_but_run c c' \<Longrightarrow> res_iteration_number (ctx_result c') = res_iteration_number (ctx_result c)"
proof -
  have "res_iteration_number (ctx_result (clear_run c)) = res_iteration_number (ctx_result c)" for c
    by (simp add: clear_run_def clear_injection_def clear_flip_def)
  then show "same_but_run c c' \<Longrightarrow> ?thesis" by (metis same_but_run_def)
qed

lemma keeps_run_inject:
  assumes "inject_post K s ret s'"
  shows "keeps_run s s'"
proof -
  from assms have "same_but_run (ctx s) (ctx s')" by (simp add: inject_post_def)
  moreover have "all_threads (ctx_params (ctx s)) = 0 \<and> fault_injected (ctx_result (ctx s')) = 1 \<or>
      fault_injected (ctx_result (ctx s')) = fault_injected (ctx_result (ctx s))"
    using assms unfolding inject_post_def by (metis (full_types))
  ultimately show ?thesis
    using same_but_run_iteration [of "ctx s" "ctx s'"] same_but_runD(1) [of "ctx s" "ctx s'"]
    by (auto simp: keeps_run_def)
qed

lemma keeps_run_injection:
  assumes "targets_wf (ctx s)" and "\<And>r s'. keeps_run s s' \<Longrightarrow> Q (r, s')"
  shows "wlp (fij_stop_flip_resume_one_random A K s) Q"
  by (rule wlp_mono [OF one_random_post [OF assms(1)]]) (auto intro: assms(2) keeps_run_inject)

lemma keeps_run_out: "keeps_run s s1 \<Longrightarrow> keeps_run s (bitflip_out d s1)"
  by (simp add: bitflip_out_def keeps_run_def)

lemma triggered_keeps:
  "targets_wf (ctx s) \<Longrightarrow> bitflip_triggered A K s = Some s' \<Longrightarrow> keeps_run s s'"
proof -
  assume "targets_wf (ctx s)"
  then have "wlp (bitflip_triggered A K s) (\<lambda>s'. keeps_run s s')"
    unfolding bitflip_triggered_def by (auto intro!: ask_wlpI keeps_run_injection)
  then show "bitflip_triggered A K s = Some s' \<Longrightarrow> keeps_run s s'" by (simp add: wlp_def)
qed

lemma wake_keeps:
  "targets_wf (ctx s) \<Longrightarrow> bitflip_wake A K ret s = Some s' \<Longrightarrow> keeps_run s s'"
proof -
  assume "targets_wf (ctx s)"
  then have "wlp (bitflip_wake A K ret s) (\<lambda>s'. keeps_run s s')"
    unfolding bitflip_wake_def bitflip_slept_def
    by (auto intro!: ask_wlpI keeps_run_injection split: option.splits)
  then show "bitflip_wake A K ret s = Some s' \<Longrightarrow> keeps_run s s'" by (simp add: wlp_def)
qed

lemma first_keeps: "flip_first K s = Some (f, s') \<Longrightarrow> keeps_run s s'"
proof -
  have "wlp (flip_first K s) (\<lambda>(f, s'). keeps_run s s')"
    unfolding flip_first_def
    by (auto simp: bitflip_begin_def Let_def keeps_run_def intro!: delay_wlpI)
  then show "flip_first K s = Some (f, s') \<Longrightarrow> keeps_run s s'" by (auto simp: wlp_def)
qed

lemma workfn_keeps_run: "exec (ctx (uprobe_disarm_workfn K s)) = exec (ctx s)"
  by (simp add: uprobe_disarm_workfn_def Let_def split: option.splits)

lemma schedule_keeps_run: "exec (ctx (fij_uprobe_schedule_disarm K s)) = exec (ctx s)"
  by (simp add: fij_uprobe_schedule_disarm_def schedule_work_def Let_def)

lemma worker_keeps:
  "targets_wf (ctx s) \<Longrightarrow> run_work A K w s = Some s' \<Longrightarrow> keeps_run s s'"
proof -
  assume wf: "targets_wf (ctx s)"
  have sched: "keeps_run s (fij_uprobe_schedule_disarm K s1)" if "keeps_run s s1" for s1
    using that keeps_run_exec [OF schedule_keeps_run] by (rule keeps_run_trans)
  from wf have "wlp (inject_workfn A K s) (\<lambda>s'. keeps_run s s')"
    unfolding inject_workfn_def by (auto simp: Let_def intro!: keeps_run_injection sched)
  then show "run_work A K w s = Some s' \<Longrightarrow> keeps_run s s'"
    by (cases w) (auto simp: run_work_def wlp_def intro: keeps_run_exec [OF workfn_keeps_run])
qed

lemma disarm_exec: "exec (ctx (fij_uprobe_disarm_sync K s)) = exec (ctx s)"
  by (simp add: fij_uprobe_disarm_sync_def flush_work_def Let_def workfn_keeps_run split: option.splits)

lemma publish_keeps: "keeps_run s (monitor_publish K c t s)"
  by (simp add: monitor_publish_def Let_def keeps_run_def disarm_exec)

lemma mon_act_keeps: "mon_act K S = Some S' \<Longrightarrow> keeps_run (st_of S) (st_of S') \<and> released S' = released S"
proof -
  have pass: "keeps_run s s'" if "monitor_pass K t s = Some (r, s')" for t r and s s' :: "'a st"
    using that by (auto simp: monitor_pass_def ask_eq keeps_run_def split: if_split_asm)
  have "exec (ctx (monitor_exit_begin K s)) = exec (ctx s)" for s :: "'a st"
    by (subst exit_begin_ctx(1)) simp
  from keeps_run_exec [OF this] pass have leave: "keeps_run s (monitor_exit_begin K s')"
    if "monitor_pass K t s = Some (r, s')" for t r and s s' :: "'a st"
    using that keeps_run_trans by blast
  have join: "keeps_run s s'" if "monitor_join K s = Some s'" for s s' :: "'a st"
    using that by (auto simp: monitor_join_def ask_eq Let_def fij_stop_bitflip_thread_def keeps_run_def
      split: if_split_asm option.splits)
  assume act: "mon_act K S = Some S'"
  show ?thesis
  proof (cases "mon S")
    case (MonLoop t)
    with act obtain r s where "monitor_pass K t (st_of S) = Some (r, s)"
        "S' = (case r of None \<Rightarrow> S\<lparr>st_of := s\<rparr>
          | Some (exited, code) \<Rightarrow> S\<lparr>st_of := monitor_exit_begin K s, mon := MonExit t code\<rparr>)"
      by (auto simp: mon_act_def bind_eq_Some_conv)
    then show ?thesis using pass leave by (cases r) auto
  qed (use act join in \<open>auto simp: mon_act_def bind_eq_Some_conv publish_keeps split: if_split_asm\<close>)
qed

lemma act_keeps:
  assumes "targets_wf (ctx (st_of S))" and "act_step A K a S = Some S'"
  shows "keeps_run (st_of S) (st_of S') \<and> released S' = released S"
proof (cases a)
  case FlipAct
  with assms show ?thesis
    by (auto simp: flip_act_def bind_eq_Some_conv first_keeps keeps_run_out [OF triggered_keeps]
      keeps_run_out [OF wake_keeps] split: flip_pc.splits)
next
  case HitAct
  have "exec (ctx (snd (uprobe_hit K s))) = exec (ctx s)" for s
    by (simp add: uprobe_hit_def fij_uprobe_post_actions_def schedule_work_def Let_def)
  with HitAct assms show ?thesis by (auto intro: keeps_run_exec split: if_split_asm)
next
  case (WorkAct w)
  with assms show ?thesis
    using worker_keeps [where s = "st_of S\<lparr>work := remove1 w (work (st_of S))\<rparr>", simplified]
    by (auto simp: bind_eq_Some_conv split: if_split_asm)
qed (use assms mon_act_keeps in simp)

section \<open>A session without injection\<close>

text \<open>No injection thread, no armed probe, no queued work, no page to restore and no fault in the result.\<close>

definition idle :: "'k sess \<Rightarrow> bool" where
  "idle S \<longleftrightarrow> flip S = FlipOff \<and> \<not> uprobe_active (ctx (st_of S)) \<and> work (st_of S) = [] \<and>
     \<not> rest_active (restore (ctx (st_of S))) \<and> fault_injected (ctx_result (ctx (st_of S))) = 0"

definition rests :: "'k st \<Rightarrow> 'k st \<Rightarrow> bool" where
  "rests s s' \<longleftrightarrow> \<not> uprobe_active (ctx s') \<and> work s' = work s \<and> restore (ctx s') = restore (ctx s) \<and>
     fault_injected (ctx_result (ctx s')) = fault_injected (ctx_result (ctx s))"

lemma disarm_rests:
  assumes "\<not> uprobe_active (ctx s)" and "work s = []"
  shows "rests s (fij_uprobe_disarm_sync K s)"
proof -
  have "restore (ctx (fij_uprobe_disarm_sync K s)) = restore (ctx s)" "work (fij_uprobe_disarm_sync K s) = work s"
    using assms by (auto simp: fij_uprobe_disarm_sync_def flush_work_def Let_def tell_def upd_def split: option.splits)
  with assms(1) show ?thesis by (simp add: rests_def disarm_off disarm_exec)
qed

lemma publish_rests:
  assumes "\<not> uprobe_active (ctx s)" and "work s = []"
  shows "rests s (monitor_publish K c t s)"
  using disarm_rests [OF assms] assms by (simp add: monitor_publish_def Let_def rests_def tell_def upd_def)

lemma leave_rests:
  assumes "monitor_pass K t s = Some (r, s')" and "\<not> uprobe_active (ctx s)" and "\<not> rest_active (restore (ctx s))"
  shows "rests s s' \<and> rests s (monitor_exit_begin K s')"
  using assms by (auto simp: monitor_pass_def ask_eq rests_def monitor_exit_begin_def tell_def upd_def split: if_split_asm)

lemma act_idle:
  assumes "sess_ok K S" and "idle S" and "act_step A K a S = Some S'"
  shows "idle S' \<and> a = MonAct"
proof (cases a)
  case MonAct
  from assms(2) have idle: "\<not> uprobe_active (ctx (st_of S))" "work (st_of S) = []"
      "\<not> rest_active (restore (ctx (st_of S)))" by (simp_all add: idle_def)
  have rest: "idle (S\<lparr>st_of := s, mon := m\<rparr>)" "idle (S\<lparr>st_of := s\<rparr>)" if "rests (st_of S) s" for s m
    using that assms(2) by (simp_all add: idle_def rests_def)
  show ?thesis
  proof (cases "mon S")
    case (MonLoop t)
    with MonAct assms(3) obtain r s where r: "monitor_pass K t (st_of S) = Some (r, s)"
        "S' = (case r of None \<Rightarrow> S\<lparr>st_of := s\<rparr>
          | Some (exited, code) \<Rightarrow> S\<lparr>st_of := monitor_exit_begin K s, mon := MonExit t code\<rparr>)"
      by (auto simp: mon_act_def bind_eq_Some_conv)
    with leave_rests [OF r(1) idle(1,3)] rest MonAct show ?thesis by (cases r) auto
  next
    case (MonExit t code)
    have "bitflip_thread (ctx (st_of S)) = None" using assms(1,2) by (simp add: sess_ok_def idle_def)
    with MonExit MonAct assms(2,3) show ?thesis by (auto simp: mon_act_def monitor_join_def idle_def split: if_split_asm)
  next
    case (MonJoined t code)
    with MonAct assms(3) rest [OF publish_rests [OF idle(1,2)]] show ?thesis by (auto simp: mon_act_def)
  qed (use MonAct assms(3) in \<open>simp add: mon_act_def\<close>)
qed (use assms(2,3) in \<open>simp_all add: idle_def flip_act_def\<close>)

section \<open>What a start leaves alone\<close>

definition launched :: "'k st \<Rightarrow> 'k st \<Rightarrow> bool" where
  "launched s s' \<longleftrightarrow> exec (ctx s') = exec (ctx s) \<and>
     (no_injection (ctx_params (ctx s)) \<noteq> 0 \<longrightarrow> bitflip_thread (ctx s') = bitflip_thread (ctx s) \<and>
       uprobe_active (ctx s') = uprobe_active (ctx s) \<and> work s' = work s \<and> restore (ctx s') = restore (ctx s))"

lemma launched_refl [simp]: "launched s s"
  by (simp add: launched_def)

lemma launched_simps [simp]:
  "launched s (tell K e s') \<longleftrightarrow> launched s s'" "launched s (noted e s') \<longleftrightarrow> launched s s'"
  "launched s (s'\<lparr>kern := k\<rparr>) \<longleftrightarrow> launched s s'"
  "launched s (upd (\<lambda>c. c\<lparr>target_tgid := i\<rparr>) s') \<longleftrightarrow> launched s s'"
  "launched s (upd (\<lambda>c. c\<lparr>target_pc := w\<rparr>) s') \<longleftrightarrow> launched s s'"
  "launched s (upd (\<lambda>c. c\<lparr>running := i\<rparr>) s') \<longleftrightarrow> launched s s'"
  "launched s (upd (\<lambda>c. c\<lparr>target_alive := d\<rparr>) s') \<longleftrightarrow> launched s s'"
  "launched s (upd (\<lambda>c. c\<lparr>monitor_done := n\<rparr>) s') \<longleftrightarrow> launched s s'"
  "launched s (upd (\<lambda>c. c\<lparr>pc_monitor_thread := m\<rparr>) s') \<longleftrightarrow> launched s s'"
  by (simp_all add: launched_def tell_def noted_def upd_def)

lemma exec_launched_wlpI:
  assumes "launched s s1" and "\<And>r s'. launched s s' \<Longrightarrow> Q (r, s')"
  shows "wlp (fij_exec_and_stop K path argv s1) Q"
  unfolding fij_exec_and_stop_def helper_child_init_def helper_files_def send_sig_def using assms(1)
  by (auto simp: Let_def intro!: ask_wlpI assms(2) split: sum.splits)

lemma start_pc_launched_wlpI:
  assumes "launched s s1" and "\<And>r s'. launched s s' \<Longrightarrow> Q (r, s')"
  shows "wlp (start_target_pc K s1) Q"
  unfolding start_target_pc_def using assms(1)
  by (auto simp: Let_def intro!: ask_wlpI assms(2) split: option.splits)

lemma arm_exec: "wlp (monitor_arm K s) (\<lambda>(r, s'). exec (ctx s') = exec (ctx s))"
proof -
  have "exec c' = exec c" if "same_but_probe c c'" for c c' using same_but_probeD(1) [OF that] .
  then have arm: "wlp (fij_uprobe_arm K va s1) (\<lambda>(r, s'). exec (ctx s') = exec (ctx s1))" for va s1
    by (intro wlp_mono [OF uprobe_arm_same]) auto
  show ?thesis
    unfolding monitor_arm_def fij_start_bitflip_thread_def
    by (auto simp: Let_def intro!: ask_wlpI wlp_mono [OF arm] split: sum.splits)
qed

lemma spawn_launched_wlpI:
  assumes "launched s s1" and "\<And>r s'. launched s s' \<Longrightarrow> Q (r, s')"
  shows "wlp (monitor_spawn K l s1) Q"
proof -
  have exec: "exec (ctx s1) = exec (ctx s)" using assms(1) by (simp add: launched_def)
  have arm: "wlp (monitor_arm K s2) Q" if "exec (ctx s2) = exec (ctx s)" "no_injection (ctx_params (ctx s)) = 0" for s2
    by (rule wlp_mono [OF arm_exec]) (use that in \<open>auto intro!: assms(2) simp: launched_def\<close>)
  show ?thesis
    unfolding monitor_spawn_def using assms(1) exec
    by (auto simp: Let_def intro!: ask_wlpI assms(2) arm split: sum.splits)
qed

lemma start_exec_launched: "wlp (fij_start_exec K s) (\<lambda>(r, s'). launched s s')"
proof -
  have bld: "wlp (fij_build_argv_from_params K p s) Q" if "\<And>r s'. launched s s' \<Longrightarrow> Q (r, s')" for p Q
    unfolding fij_build_argv_from_params_def by (auto simp: Let_def intro!: ask_wlpI that)
  have lead: "wlp (monitor_leader K s1) Q" if "launched s s1" "\<And>r s'. launched s s' \<Longrightarrow> Q (r, s')" for s1 Q
    unfolding monitor_leader_def using that(1) by (auto simp: Let_def intro!: ask_wlpI that(2) split: option.splits)
  have mon: "wlp (fij_monitor_start K s1) Q" if "launched s s1" "\<And>r s'. launched s s' \<Longrightarrow> Q (r, s')" for s1 Q
    unfolding fij_monitor_start_def using that(1)
    by (auto simp: Let_def intro!: lead spawn_launched_wlpI [where s = s] that(2) split: sum.splits)
  have cont: "wlp (fij_send_cont K t s1) Q" if "launched s s1" "\<And>r s'. launched s s' \<Longrightarrow> Q (r, s')" for t s1 Q
    unfolding fij_send_cont_def send_sig_def using that(1)
    by (auto simp: Let_def intro!: ask_wlpI that(2) split: option.splits)
  have run: "wlp (start_exec_run K b s1) Q" if "launched s s1" "\<And>r s'. launched s s' \<Longrightarrow> Q (r, s')" for b s1 Q
    unfolding start_exec_run_def start_launch_def using that(1)
    by (auto simp: Let_def intro!: exec_launched_wlpI [where s = s] start_pc_launched_wlpI [where s = s] mon cont that(2))
  show ?thesis
    unfolding fij_start_exec_def by (auto simp: Let_def intro!: bld run split: sum.splits)
qed

section \<open>A complete run\<close>

text \<open>A list of actions, one after the other.\<close>

primrec acts :: "arch \<Rightarrow> 'k kernel \<Rightarrow> act list \<Rightarrow> 'k sess \<Rightarrow> 'k sess option" where
  "acts A K [] S = Some S"
| "acts A K (a # as) S = Option.bind (act_step A K a S) (acts A K as)"

text \<open>A run that injects into a register at once, and whose target then ends with code 139. The user's
  memory is the state of this kernel: a message is the last one that was put there.\<close>

definition demo_msg :: fij_params where
  "demo_msg = zero_params\<lparr>process_path := ''/bin/t'', target_reg := 1, reg_bit := 4, reg_bit_present := 1,
     log_path := ''/c/injection_0/log.txt'', max_delay_ms := 7\<rparr>"

definition demo_late :: "fij_params kernel" where
  "demo_late = demo\<lparr>k_copy_from_user := \<lambda>k. (Some k, k),
       k_task_exited := \<lambda>t k. (True, k), k_task_exit_code := \<lambda>t k. (139, k)\<rparr>"

definition demo_ctx :: "fij_params \<Rightarrow> fij_ctx" where
  "demo_ctx p = (fij_ctx_init zero_ctx)\<lparr>exec := \<lparr>params = p, result = zero_result\<lparr>res_iteration_number := iteration_number p\<rparr>\<rparr>,
     target_tgid := 100, running := 1, target_alive := True, pc_monitor_thread := Some 21, bitflip_thread := Some 21,
     flip_wq := True\<rparr>"

lemma demo_late_simps:
  "k_effect demo_late e1 k1 = k1"
  "k_pid_task demo_late p2 k2 = (if p2 = 100 then Some 1 else if p2 = 101 then Some 2 else None, k2)"
  "k_find_get_pid demo_late p3 k3 = (if p3 = 100 \<or> p3 = 101 then Some (nat p3) else None, k3)"
  "k_pidref_task demo_late p4 k4 = (if p4 = 100 then Some 1 else if p4 = 101 then Some 2 else None, k4)"
  "k_send_sig demo_late g5 t5 k5 = (0, k5)"
  "k_kill_pid demo_late p6 g6 k6 = (0, k6)"
  "k_threads demo_late t7 k7 = (if t7 = 1 then demo_threads else [], k7)"
  "k_proc_tree demo_late t8 k8 = (demo_tree_of t8, k8)"
  "k_task_tgid demo_late t9 k9 = (if t9 = 2 then 101 else 100, k9)"
  "k_task_stopped demo_late t10 k10 = (True, k10)"
  "k_task_dead demo_late t11 k11 = (False, k11)"
  "k_task_exited demo_late t12 k12 = (True, k12)"
  "k_task_exit_code demo_late t13 k13 = (139, k13)"
  "k_mm_owner_tgid demo_late m14 k14 = (Some 100, k14)"
  "k_get_task_mm demo_late t15 k15 = (Some 4, k15)"
  "k_mmap_trylock demo_late m16 k16 = (True, k16)"
  "k_vmas demo_late m17 k17 = (demo_vmas, k17)"
  "k_exe_file demo_late m18 k18 = (Some 9, k18)"
  "k_start_code demo_late m19 k19 = (0x1000, k19)"
  "k_mem_load demo_late t20 a20 k20 = ((1, 0x0F), k20)"
  "k_mem_store demo_late t21 a21 b21 k21 = (1, k21)"
  "k_gup demo_late m22 a22 k22 = ((1, 6), k22)"
  "k_page_shift demo_late = 12"
  "k_igrab_file demo_late f23 k23 = (Some 11, k23)"
  "k_pt_regs demo_late t24 k24 = (Some t24, k24)"
  "k_reg_load demo_late r25 f25 k25 = (0xFF, k25)"
  "k_random_u32 demo_late k26 = (5, k26)"
  "k_random_u32_below demo_late c27 k27 = (0, k27)"
  "k_should_stop demo_late k28 = (False, k28)"
  "k_fatal_signal demo_late k29 = (False, k29)"
  "k_waitqueue_active demo_late k30 = (False, k30)"
  "k_wait_killed demo_late k31 = (False, k31)"
  "k_jiffies demo_late k32 = (0, k32)"
  "k_msecs_to_jiffies demo_late = int"
  "k_kthread_run demo_late k33 = (Inr 21, k33)"
  "k_hrtimeout demo_late d34 k34 = (0, k34)"
  "k_msleep demo_late d35 k35 = (0, k35)"
  "k_stack_int demo_late k36 = (0, k36)"
  "k_stack_view demo_late k37 = (\<lparr>ptr = None, width = 0\<rparr>, k37)"
  "k_kmalloc_array demo_late n38 k38 = (Some (\<lambda>i. -1), k38)"
  "k_alloc_ok demo_late k39 = (True, k39)"
  "k_uprobe_register demo_late i40 off40 k40 = (Inr 31, k40)"
  "k_current_tgid demo_late k41 = (100, k41)"
  "k_filp_open demo_late p42 k42 = (Inr 41, k42)"
  "k_unused_fd demo_late k43 = (0, k43)"
  "k_umh_run demo_late p44 a44 k44 = (Inr 1, k44)"
  "k_umh_execve demo_late p45 a45 k45 = (0, k45)"
  "k_copy_from_user demo_late k46 = (Some k46, k46)"
  "k_copy_to_user demo_late k47 = (True, k47)"
  "k_wait_done demo_late k48 = (0, k48)"
  "k_misc_register demo_late k49 = (0, k49)"
  by (simp_all add: demo_late_def demo_def)

lemma demo_tell [simp]: "kern (tell demo_late e s) = kern s"
  by (simp add: tell_def demo_late_simps)

lemmas demo_ctx_simps =
  demo_ctx_def demo_msg_def zero_params_def fij_ctx_init_def fij_uprobe_init_work_def zero_ctx_def

lemma demo_late_delay:
  assumes "ctx s = demo_ctx demo_msg"
  shows "\<exists>d s'. flip_first demo_late s = Some (FlipSleep (Some 0) d, s') \<and> ctx s' = demo_ctx demo_msg \<and> kern s' = kern s"
  using assms
  by (simp add: flip_first_def bitflip_delay_def fij_random_ms_def fij_sleep_hrtimeout_interruptible_ns_def
    bitflip_bounds_def DEFAULT_MIN_DELAY_MS_def DEFAULT_MAX_DELAY_MS_def bitflip_begin_def
    demo_late_simps demo_ctx_simps ask_eq Let_def s32_small)

definition demo_hit_ctx :: "fij_ctx \<Rightarrow> bool" where
  "demo_hit_ctx c \<longleftrightarrow> fault_injected (ctx_result c) = 1 \<and> bitflip_thread c = Some 21 \<and> monitor_done c = 0 \<and>
     target_pc_present (ctx_params c) = 0 \<and> \<not> rest_active (restore c)"

lemma demo_late_injection:
  assumes "ctx s = demo_ctx demo_msg"
  shows "\<exists>s'. fij_stop_flip_resume_one_random CONFIG_X86 demo_late s = Some (0, s') \<and> kern s' = kern s \<and> demo_hit_ctx (ctx s')"
  using assms
  by (simp add: inject_code_simps demo_tree_of_def demo_tree_def demo_threads_def demo_late_simps demo_ctx_simps demo_hit_ctx_def ask_eq Let_def flip: numeral_2_eq_2)

definition demo_done :: "fij_params sess \<Rightarrow> bool" where
  "demo_done S \<longleftrightarrow> mon S = MonOff \<and> flip S = FlipOff \<and> \<not> released S \<and> kern (st_of S) = demo_msg \<and>
     monitor_done (ctx (st_of S)) = 1 \<and> fault_injected (ctx_result (ctx (st_of S))) = 1 \<and>
     exit_code (ctx_result (ctx (st_of S))) = 139"

lemma demo_late_run:
  assumes "ctx (st_of S) = demo_ctx demo_msg" "kern (st_of S) = demo_msg" "\<not> released S" "mon S = MonLoop 1" "flip S = FlipStart"
  shows "\<exists>S'. acts CONFIG_X86 demo_late [FlipAct, FlipAct, MonAct, MonAct, MonAct] S = Some S' \<and> demo_done S'"
proof -
  obtain d s1 where s1: "flip_first demo_late (st_of S) = Some (FlipSleep (Some 0) d, s1)"
      "ctx s1 = demo_ctx demo_msg" "kern s1 = demo_msg"
    using demo_late_delay [OF assms(1)] assms(2) by auto
  obtain s2 where s2: "fij_stop_flip_resume_one_random CONFIG_X86 demo_late s1 = Some (0, s2)" "kern s2 = demo_msg"
      "demo_hit_ctx (ctx s2)"
    using demo_late_injection [OF s1(2)] s1(3) by auto
  have "target_alive (demo_ctx demo_msg)" by (simp add: demo_ctx_def)
  with s1(2) s2(1) have wake: "bitflip_wake CONFIG_X86 demo_late (Some 0) s1 = Some s2"
    by (simp add: bitflip_wake_def bitflip_slept_def ask_eq demo_late_simps)
  from assms(3-5) s1(1) wake s2(2,3) show ?thesis
    by (simp add: flip_act_def mon_act_def monitor_pass_def monitor_exit_begin_def monitor_join_def monitor_publish_def
      bitflip_out_def fij_stop_bitflip_thread_def demo_done_def demo_hit_ctx_def demo_late_simps ask_eq Let_def)
qed
end
