(* ===== verification/Run_Std.thy ===== *)
theory Run_Std
  imports Fij_Prelude
begin

text \<open>
  What the runner \<open>src/fij_runner\<close> uses of C++ and of its standard library, written out: exceptions,
  \<open>std::string\<close> (find, replace, \<open>to_string\<close>, \<open>stoi\<close>), \<open>std::filesystem\<close> paths and the file system.

  A computation that may throw is a value of \<open>exn + 'a\<close>. A \<open>std::string\<close> is a list of bytes and may
  hold NUL bytes; a \<open>char\<close> array is such a list of the array's length.
\<close>

section \<open>Exceptions\<close>

datatype exn =
    SystemError int \<comment> \<open>\<open>std::system_error\<close> and \<open>fs::filesystem_error\<close>, with the errno value\<close>
  | RuntimeError string
  | InvalidArgument
  | OutOfRange
  | JsonError

definition ok_bind :: "exn + 'a \<Rightarrow> ('a \<Rightarrow> exn + 'b) \<Rightarrow> exn + 'b" where
  "ok_bind m f = (case m of Inl e \<Rightarrow> Inl e | Inr x \<Rightarrow> f x)"

lemma ok_bind_simps [simp]:
  "ok_bind (Inl e) f = Inl e"
  "ok_bind (Inr x) f = f x"
  by (simp_all add: ok_bind_def)

lemma ok_bind_Inr: "ok_bind m f = Inr y \<longleftrightarrow> (\<exists>x. m = Inr x \<and> f x = Inr y)"
  by (cases m) auto

lemma ok_bind_Inl: "ok_bind m f = Inl e \<longleftrightarrow> m = Inl e \<or> (\<exists>x. m = Inr x \<and> f x = Inl e)"
  by (cases m) auto

text \<open>Every normal end of \<open>m\<close> satisfies \<open>Q\<close>.\<close>

definition ok_post :: "exn + 'a \<Rightarrow> ('a \<Rightarrow> bool) \<Rightarrow> bool" where
  "ok_post m Q \<longleftrightarrow> (\<forall>x. m = Inr x \<longrightarrow> Q x)"

lemma ok_post_simps [simp]:
  "ok_post (Inl e) Q"
  "ok_post (Inr x) Q \<longleftrightarrow> Q x"
  by (auto simp: ok_post_def)

lemma ok_post_bind: "ok_post m P \<Longrightarrow> (\<And>x. P x \<Longrightarrow> ok_post (f x) Q) \<Longrightarrow> ok_post (ok_bind m f) Q"
  by (auto simp: ok_post_def ok_bind_Inr)

lemma ok_post_bind_any: "(\<And>x. ok_post (f x) Q) \<Longrightarrow> ok_post (ok_bind m f) Q"
  by (auto simp: ok_post_def ok_bind_Inr)

lemma ok_postD: "ok_post m Q \<Longrightarrow> m = Inr x \<Longrightarrow> Q x"
  by (simp add: ok_post_def)

text \<open>A loop over a list whose body may throw.\<close>

primrec ok_fold :: "('a \<Rightarrow> 'b \<Rightarrow> exn + 'b) \<Rightarrow> 'a list \<Rightarrow> 'b \<Rightarrow> exn + 'b" where
  "ok_fold f [] b = Inr b"
| "ok_fold f (x # xs) b = ok_bind (f x b) (ok_fold f xs)"

lemma ok_fold_append: "ok_fold f (xs @ ys) b = ok_bind (ok_fold f xs b) (ok_fold f ys)"
  by (induction xs arbitrary: b) (auto simp: ok_bind_def split: sum.splits)

lemma ok_fold_invariant:
  assumes "ok_fold f xs b = Inr c" and "P b"
    and "\<And>x b c. x \<in> set xs \<Longrightarrow> P b \<Longrightarrow> f x b = Inr c \<Longrightarrow> P c"
  shows "P c"
  using assms
proof (induction xs arbitrary: b)
  case (Cons x xs)
  from Cons.prems(1) obtain b' where b': "f x b = Inr b'" "ok_fold f xs b' = Inr c"
    by (auto simp: ok_bind_Inr)
  from b'(1) Cons.prems have "P b'" by auto
  from Cons.IH [OF b'(2) this] Cons.prems(3) show ?case by auto
qed simp

section \<open>Characters and numbers\<close>

abbreviation NUL :: char where "NUL \<equiv> CHR 0x00"

definition c_tolower :: "char \<Rightarrow> char" where
  "c_tolower c = (if 65 \<le> (of_char c :: nat) \<and> (of_char c :: nat) \<le> 90
     then char_of ((of_char c :: nat) + 32) else c)"

definition c_isspace :: "char \<Rightarrow> bool" where
  "c_isspace c \<longleftrightarrow> (of_char c :: nat) \<in> {9, 10, 11, 12, 13, 32}"

definition digit :: "nat \<Rightarrow> char" where
  "digit n = ''0123456789abcdef'' ! n"

definition digit_value :: "char \<Rightarrow> nat option" where
  "digit_value c = (let n = of_char c :: nat in
     if 48 \<le> n \<and> n \<le> 57 then Some (n - 48)
     else if 97 \<le> n \<and> n \<le> 102 then Some (n - 87)
     else if 65 \<le> n \<and> n \<le> 70 then Some (n - 55)
     else None)"

text \<open>The digits of a number, the most significant first and without leading zeros; base 0 or 1
  does not occur.\<close>

function digits_in :: "nat \<Rightarrow> nat \<Rightarrow> string" where
  "digits_in b n = (if b < 2 \<or> n < b then [digit n] else digits_in b (n div b) @ [digit (n mod b)])"
  by auto
termination
  by (relation "measure snd") (auto intro!: div_less_dividend)

declare digits_in.simps [simp del]

definition value_in :: "nat \<Rightarrow> string \<Rightarrow> nat" where
  "value_in b = foldl (\<lambda>a c. a * b + (case digit_value c of Some d \<Rightarrow> d | None \<Rightarrow> 0)) 0"

lemma digit_value_digit: "n < 16 \<Longrightarrow> digit_value (digit n) = Some n"
proof -
  assume "n < 16"
  then have "n \<in> set [0..<16]" by simp
  moreover have "list_all (\<lambda>n. digit_value (digit n) = Some n) [0..<16]"
    by (simp add: upt_rec digit_value_def digit_def)
  ultimately show ?thesis by (simp add: list_all_iff)
qed

lemma digits_value:
  assumes "2 \<le> b" "b \<le> 16"
  shows "value_in b (digits_in b n) = n"
  using assms
proof (induction b n rule: digits_in.induct)
  case (1 b n)
  show ?case
  proof (cases "n < b")
    case True
    with 1 show ?thesis by (simp add: digits_in.simps value_in_def digit_value_digit)
  next
    case False
    with 1 have "value_in b (digits_in b (n div b)) = n div b" by simp
    moreover from 1 have "n mod b < 16" using mod_less_divisor [of b n] by linarith
    ultimately show ?thesis using False 1
      by (simp add: digits_in.simps [of b n] value_in_def digit_value_digit)
  qed
qed

lemma digits_inject:
  assumes "2 \<le> b" "b \<le> 16"
  shows "digits_in b n = digits_in b m \<longleftrightarrow> n = m"
  by (metis digits_value [OF assms])

definition to_string :: "int \<Rightarrow> string" where
  "to_string i = (if i < 0 then CHR ''-'' # digits_in 10 (nat (- i)) else digits_in 10 (nat i))"

lemma digits_hd: "2 \<le> b \<Longrightarrow> b \<le> 16 \<Longrightarrow> \<exists>d < 16. hd (digits_in b n) = digit d"
proof (induction b n rule: digits_in.induct)
  case (1 b n)
  show ?case
  proof (cases "n < b")
    case True
    with 1 show ?thesis by (auto simp: digits_in.simps intro!: exI [of _ n])
  next
    case False
    have "digits_in b (n div b) \<noteq> []" by (subst digits_in.simps) simp
    with False 1 show ?thesis by (simp add: digits_in.simps [of b n])
  qed
qed

lemma to_string_inject: "to_string i = to_string j \<longleftrightarrow> i = j"
proof
  assume eq: "to_string i = to_string j"
  have sign: "to_string k = CHR ''-'' # r \<longleftrightarrow> k < 0 \<and> digits_in 10 (nat (- k)) = r" for k r
  proof (cases "k < 0")
    case False
    from digits_hd [of 10 "nat k"] obtain d where "d < 16" "hd (digits_in 10 (nat k)) = digit d" by auto
    then have "hd (digits_in 10 (nat k)) \<noteq> CHR ''-''"
      using digit_value_digit [of d] by (auto simp: digit_value_def)
    with False show ?thesis by (auto simp: to_string_def)
  qed (simp add: to_string_def)
  show "i = j"
  proof (cases "i < 0")
    case True
    then have "to_string i = CHR ''-'' # digits_in 10 (nat (- i))" by (simp add: to_string_def)
    with eq have "to_string j = CHR ''-'' # digits_in 10 (nat (- i))" by metis
    then have "j < 0 \<and> digits_in 10 (nat (- j)) = digits_in 10 (nat (- i))" by (rule iffD1 [OF sign])
    with True show ?thesis by (auto simp: digits_inject)
  next
    case False
    have "\<not> j < 0"
    proof
      assume "j < 0"
      then have "to_string i = CHR ''-'' # digits_in 10 (nat (- j))" using eq by (simp only: to_string_def if_True)
      with False show False using iffD1 [OF sign] by blast
    qed
    with False eq have "digits_in 10 (nat i) = digits_in 10 (nat j)" by (simp only: to_string_def if_False)
    with False \<open>\<not> j < 0\<close> show ?thesis by (simp add: digits_inject)
  qed
qed simp

section \<open>Strings\<close>

text \<open>\<open>s.find(pat)\<close> and \<open>s.find(pat, pos)\<close>; \<open>None\<close> is \<open>npos\<close>.\<close>

fun find_sub :: "string \<Rightarrow> string \<Rightarrow> nat option" where
  "find_sub pat s = (if take (length pat) s = pat then Some 0 else
     (case s of [] \<Rightarrow> None | _ # t \<Rightarrow> map_option Suc (find_sub pat t)))"

declare find_sub.simps [simp del]

definition str_find :: "string \<Rightarrow> string \<Rightarrow> nat \<Rightarrow> nat option" where
  "str_find s pat pos =
     (if pos \<le> length s then map_option ((+) pos) (find_sub pat (drop pos s)) else None)"

text \<open>\<open>s.replace(pos, n, t)\<close>.\<close>

definition str_replace :: "string \<Rightarrow> nat \<Rightarrow> nat \<Rightarrow> string \<Rightarrow> string" where
  "str_replace s pos n t = take pos s @ t @ drop (pos + n) s"

lemma find_sub_Some:
  "find_sub pat s = Some p \<Longrightarrow>
     p + length pat \<le> length s \<and> take (length pat) (drop p s) = pat \<and>
     (\<forall>q < p. take (length pat) (drop q s) \<noteq> pat)"
proof (induction pat s arbitrary: p rule: find_sub.induct)
  case (1 pat s)
  show ?case
  proof (cases "take (length pat) s = pat")
    case True
    with 1(2) have "p = 0" by (simp add: find_sub.simps)
    moreover have "length pat \<le> length s" using True by (metis length_take min_def nat_le_linear)
    ultimately show ?thesis using True by simp
  next
    case False
    with 1(2) obtain c t q where *: "s = c # t" "find_sub pat t = Some q" "p = Suc q"
      by (auto simp: find_sub.simps [of pat s] split: list.splits)
    from 1(1) [OF False this(1,2)] * False show ?thesis
      by (auto simp: less_Suc_eq_0_disj)
  qed
qed

lemma find_sub_None: "find_sub pat s = None \<Longrightarrow> take (length pat) (drop q s) = pat \<Longrightarrow> q \<le> length s \<Longrightarrow> False"
proof (induction pat s arbitrary: q rule: find_sub.induct)
  case (1 pat s)
  show ?case
  proof (cases "take (length pat) s = pat")
    case True
    with 1(2) show ?thesis by (simp add: find_sub.simps)
  next
    case False
    with 1(3) have "q \<noteq> 0" by (auto intro: gr0I)
    with 1(4) obtain c t r where *: "s = c # t" "q = Suc r" by (cases s; cases q) auto
    with 1(2) False have "find_sub pat t = None"
      by (subst (asm) find_sub.simps) (simp only: if_False list.case map_option_is_None simp_thms)
    from 1(1) [OF False *(1) this] * 1(3,4) show ?thesis by auto
  qed
qed

text \<open>\<open>std::getline\<close> until it fails: the pieces between the newlines; nothing follows the last one.\<close>

fun getlines :: "string \<Rightarrow> string list" where
  "getlines [] = []"
| "getlines (c # s) = (if c = CHR 0x0A then [] # getlines s else
     (case getlines s of [] \<Rightarrow> [[c]] | l # ls \<Rightarrow> (c # l) # ls))"

lemma str_find_Some:
  assumes "str_find s ph pos = Some p"
  shows "pos \<le> p \<and> p + length ph \<le> length s"
proof -
  from assms obtain q where "pos \<le> length s" "find_sub ph (drop pos s) = Some q" "p = pos + q"
    by (auto simp: str_find_def split: if_split_asm)
  with find_sub_Some [of ph "drop pos s" q] show ?thesis by (simp, linarith)
qed

text \<open>The loop with which the runner expands a placeholder: find, replace, go on behind the new text.\<close>

function replace_loop :: "string \<Rightarrow> string \<Rightarrow> string \<Rightarrow> nat \<Rightarrow> string" where
  "replace_loop ph val s pos =
     (if ph = [] then s
      else (case str_find s ph pos of
          None \<Rightarrow> s
        | Some p \<Rightarrow> replace_loop ph val (str_replace s p (length ph) val) (p + length val)))"
  by auto

termination
proof (relation "measure (\<lambda>(ph, val, s, pos). length s - pos)")
  fix ph val s :: string and pos p
  assume "ph \<noteq> []" and find: "str_find s ph pos = Some p"
  with str_find_Some [OF find] show "((ph, val, str_replace s p (length ph) val, p + length val), ph, val, s, pos)
      \<in> measure (\<lambda>(ph, val, s, pos). length s - pos)"
    by (cases ph) (auto simp: str_replace_def)
qed simp

declare replace_loop.simps [simp del]

text \<open>What the loop computes, in one pass over the string.\<close>

function replace_all :: "string \<Rightarrow> string \<Rightarrow> string \<Rightarrow> string" where
  "replace_all ph val s =
     (if ph = [] then s
      else if take (length ph) s = ph then val @ replace_all ph val (drop (length ph) s)
      else (case s of [] \<Rightarrow> [] | c # t \<Rightarrow> c # replace_all ph val t))"
  by auto
termination
proof (relation "measure (\<lambda>(ph, val, s). length s)")
  fix ph val s :: string
  assume "ph \<noteq> []" "take (length ph) s = ph"
  then have "s \<noteq> []" by (cases s) auto
  with \<open>ph \<noteq> []\<close> show "((ph, val, drop (length ph) s), ph, val, s) \<in> measure (\<lambda>(ph, val, s). length s)"
    by simp
qed auto

declare replace_all.simps [simp del]

lemma replace_all_find:
  "ph \<noteq> [] \<Longrightarrow> replace_all ph val s = (case find_sub ph s of
     None \<Rightarrow> s | Some p \<Rightarrow> take p s @ val @ replace_all ph val (drop (p + length ph) s))"
proof (induction ph val s rule: replace_all.induct)
  case (1 ph val s)
  show ?case
  proof (cases "take (length ph) s = ph")
    case True
    then show ?thesis using 1(3)
      by (subst replace_all.simps, subst find_sub.simps) simp
  next
    case False
    show ?thesis
    proof (cases s)
      case Nil
      with False 1(3) show ?thesis by (subst replace_all.simps, subst find_sub.simps) simp
    next
      case (Cons c t)
      from 1(2) [OF 1(3) False Cons 1(3)] False Cons 1(3) show ?thesis
        by (subst replace_all.simps, subst find_sub.simps) (auto split: option.splits)
    qed
  qed
qed

lemma replace_loop_all:
  "ph \<noteq> [] \<Longrightarrow> pos \<le> length s \<Longrightarrow>
     replace_loop ph val s pos = take pos s @ replace_all ph val (drop pos s)"
proof (induction ph val s pos rule: replace_loop.induct)
  case (1 ph val s pos)
  show ?case
  proof (cases "find_sub ph (drop pos s)")
    case None
    with 1(2,3) show ?thesis
      by (subst replace_loop.simps) (simp add: str_find_def replace_all_find)
  next
    case (Some q)
    let ?p = "pos + q"
    from Some 1(3) have find: "str_find s ph pos = Some ?p" by (simp add: str_find_def)
    note bound = str_find_Some [OF find]
    have "replace_loop ph val s pos =
        replace_loop ph val (str_replace s ?p (length ph) val) (?p + length val)"
      using 1(2) find by (subst replace_loop.simps) simp
    also have "\<dots> = take ?p s @ val @ replace_all ph val (drop (?p + length ph) s)"
      using 1(1) [OF 1(2) find 1(2)] bound by (simp add: str_replace_def)
    also have "\<dots> = take pos s @ replace_all ph val (drop pos s)"
      using Some 1(2) by (simp add: replace_all_find take_add add.commute add.left_commute)
    finally show ?thesis .
  qed
qed

lemma replace_loop_is_replace_all: "replace_loop ph val s 0 = replace_all ph val s"
  by (cases "ph = []") (simp_all add: replace_loop_all replace_loop.simps [of "[]"] replace_all.simps [of "[]"])

text \<open>\<open>std::stoi(v, nullptr, 0)\<close>: white space, a sign, then digits of the base the prefix tells.\<close>

definition stoi_base :: "string \<Rightarrow> nat \<times> string" where
  "stoi_base s = (case s of
       c # x # d # t \<Rightarrow>
         if c = CHR ''0'' \<and> c_tolower x = CHR ''x'' \<and> digit_value d \<noteq> None then (16, d # t)
         else if c = CHR ''0'' then (8, s) else (10, s)
     | c # _ \<Rightarrow> if c = CHR ''0'' then (8, s) else (10, s)
     | [] \<Rightarrow> (10, s))"

definition stoi_sign :: "string \<Rightarrow> bool \<times> string" where
  "stoi_sign s = (case s of
       c # t \<Rightarrow> if c = CHR ''-'' then (True, t) else if c = CHR ''+'' then (False, t) else (False, s)
     | [] \<Rightarrow> (False, s))"

definition stoi :: "string \<Rightarrow> exn + int" where
  "stoi v =
     (let (neg, s) = stoi_sign (dropWhile c_isspace v);
          (b, s) = stoi_base s;
          ds = takeWhile (\<lambda>c. case digit_value c of Some d \<Rightarrow> d < b | None \<Rightarrow> False) s
      in if ds = [] then Inl InvalidArgument
         else let n = int (value_in b ds); n = (if neg then - n else n)
              in if is_s32 n then Inr n else Inl OutOfRange)"

lemma stoi_s32: "stoi v = Inr n \<Longrightarrow> is_s32 n"
  by (auto simp: stoi_def Let_def split: prod.splits if_split_asm)

section \<open>Floating point\<close>

text \<open>A \<open>double\<close> is a value of a type \<open>'d\<close>; no property depends on how its operations round, so they
  are a record of functions. \<open>f_round\<close> is \<open>static_cast<int>(std::round(x))\<close>, for which the C++ standard
  defines a result only when it fits an \<open>int\<close>.\<close>

record 'd fpu =
  f_of_int :: "int \<Rightarrow> 'd"
  f_add :: "'d \<Rightarrow> 'd \<Rightarrow> 'd"
  f_sub :: "'d \<Rightarrow> 'd \<Rightarrow> 'd"
  f_mul :: "'d \<Rightarrow> 'd \<Rightarrow> 'd"
  f_div :: "'d \<Rightarrow> 'd \<Rightarrow> 'd"
  f_sqrt :: "'d \<Rightarrow> 'd"
  f_round :: "'d \<Rightarrow> int"
  f_nonneg :: "'d \<Rightarrow> bool"
  f_fixed :: "nat \<Rightarrow> 'd \<Rightarrow> string" \<comment> \<open>\<open>std::fixed << std::setprecision(n) << x\<close>\<close>

definition f_ms :: "'d fpu \<Rightarrow> 'd \<Rightarrow> 'd" where
  "f_ms F x = f_mul F x (f_of_int F 1000)"

text \<open>Integer arithmetic, for examples.\<close>

definition demo_fpu :: "int fpu" where
  "demo_fpu = \<lparr>f_of_int = \<lambda>i. i, f_add = (+), f_sub = (-), f_mul = (*), f_div = (div), f_sqrt = \<lambda>x. x,
     f_round = \<lambda>x. x, f_nonneg = \<lambda>x. 0 \<le> x, f_fixed = \<lambda>n x. to_string x\<rparr>"

end
