(* ===== verification/Run_Device.thy ===== *)
theory Run_Device
  imports Fij_Types Run_Std
begin

text \<open>
  \<open>fij_ioctls.cpp\<close>: one run of the module as the runner performs it, by a message and polling
  (\<open>run_send_and_poll\<close>) or by the blocking command (\<open>run_with_retries\<close>).

  The system calls are the record \<open>device_os\<close> over the state \<open>'w\<close> of everything outside the runner; the
  state of an operation adds the log of the calls. A call that never comes back is \<open>None\<close>; so is a
  polling loop that never ends.
\<close>

section \<open>System calls\<close>

text \<open>An \<open>ioctl\<close> answers the errno value, 0 for success. Times are nanoseconds of the steady clock,
  sleeps are milliseconds.\<close>

record 'w device_os =
  o_open :: "string \<Rightarrow> 'w \<Rightarrow> (int + int) \<times> 'w"
  o_close :: "int \<Rightarrow> 'w \<Rightarrow> 'w"
  o_send :: "int \<Rightarrow> fij_params \<Rightarrow> 'w \<Rightarrow> (int \<times> 'w) option"
  o_receive :: "int \<Rightarrow> 'w \<Rightarrow> ((int + fij_result) \<times> 'w) option"
  o_kill :: "int \<Rightarrow> 'w \<Rightarrow> 'w option"
  o_exec :: "int \<Rightarrow> fij_exec \<Rightarrow> 'w \<Rightarrow> ((int + fij_exec) \<times> 'w) option"
  o_sleep :: "int \<Rightarrow> 'w \<Rightarrow> 'w"
  o_now :: "'w \<Rightarrow> int \<times> 'w"

datatype rev =
    Opened int
  | OpenFailed int
  | Closed int
  | Sent int fij_params int
  | Received int
  | Killed int
  | Executed int fij_exec
  | Slept int

record 'w rst =
  world :: 'w
  rlog :: "rev list"

definition says :: "rev \<Rightarrow> 'w rst \<Rightarrow> 'w rst" where
  "says e s = s\<lparr>rlog := rlog s @ [e]\<rparr>"

definition r_open :: "'w device_os \<Rightarrow> string \<Rightarrow> 'w rst \<Rightarrow> (int + int) \<times> 'w rst" where
  "r_open D device s = (let (r, w) = o_open D device (world s)
     in (r, says (case r of Inl e \<Rightarrow> OpenFailed e | Inr fd \<Rightarrow> Opened fd) (s\<lparr>world := w\<rparr>)))"

definition r_close :: "'w device_os \<Rightarrow> int \<Rightarrow> 'w rst \<Rightarrow> 'w rst" where
  "r_close D fd s = says (Closed fd) (s\<lparr>world := o_close D fd (world s)\<rparr>)"

definition r_send :: "'w device_os \<Rightarrow> int \<Rightarrow> fij_params \<Rightarrow> 'w rst \<Rightarrow> (int \<times> 'w rst) option" where
  "r_send D fd p s = do {
     (e, w) \<leftarrow> o_send D fd p (world s);
     Some (e, says (Sent fd p e) (s\<lparr>world := w\<rparr>))
   }"

definition r_receive :: "'w device_os \<Rightarrow> int \<Rightarrow> 'w rst \<Rightarrow> ((int + fij_result) \<times> 'w rst) option" where
  "r_receive D fd s = do {
     (r, w) \<leftarrow> o_receive D fd (world s);
     Some (r, says (Received fd) (s\<lparr>world := w\<rparr>))
   }"

definition r_kill :: "'w device_os \<Rightarrow> int \<Rightarrow> 'w rst \<Rightarrow> 'w rst option" where
  "r_kill D fd s = do {
     w \<leftarrow> o_kill D fd (world s);
     Some (says (Killed fd) (s\<lparr>world := w\<rparr>))
   }"

definition r_sleep :: "'w device_os \<Rightarrow> int \<Rightarrow> 'w rst \<Rightarrow> 'w rst" where
  "r_sleep D ms s = says (Slept ms) (s\<lparr>world := o_sleep D ms (world s)\<rparr>)"

definition r_now :: "'w device_os \<Rightarrow> 'w rst \<Rightarrow> int \<times> 'w rst" where
  "r_now D s = (let (t, w) = o_now D (world s) in (t, s\<lparr>world := w\<rparr>))"

definition ms_of_ns :: "int \<Rightarrow> int" where
  "ms_of_ns t = (if t < 0 then - (- t div 1000000) else t div 1000000)"

section \<open>A message and polling\<close>

text \<open>Lines 91 to 102. At most \<open>max_retries\<close> further attempts, each after a sleep.\<close>

function send_loop ::
  "'w device_os \<Rightarrow> int \<Rightarrow> fij_params \<Rightarrow> int \<Rightarrow> int \<Rightarrow> int \<Rightarrow> 'w rst \<Rightarrow> (int \<times> 'w rst) option" where
  "send_loop D fd p max_retries retry_delay_ms attempt s =
     (case r_send D fd p s of
        None \<Rightarrow> None
      | Some (e, s) \<Rightarrow>
          if e \<noteq> 0 then
            (if e = EBUSY \<and> attempt < max_retries
             then send_loop D fd p max_retries retry_delay_ms (attempt + 1) (r_sleep D retry_delay_ms s)
             else Some (e, s))
          else Some (0, s))"
  by auto
termination
  by (relation "measure (\<lambda>(D, fd, p, max_retries, retry_delay_ms, attempt, s). nat (max_retries - attempt))") auto

declare send_loop.simps [simp del]

text \<open>Lines 107 to 115, one turn of the polling loop up to the answer of its receive. \<open>10 * max_delay_ms\<close>
  is an \<open>int\<close>; it overflows beyond 59 hours, which \<open>s32\<close> shows as a wrap.\<close>

definition poll_turn ::
  "'w device_os \<Rightarrow> int \<Rightarrow> int \<Rightarrow> int \<Rightarrow> int \<Rightarrow> bool \<Rightarrow> 'w rst \<Rightarrow> (bool \<times> (int + fij_result) \<times> 'w rst) option" where
  "poll_turn D fd start max_delay no_inj killed s =
     (let (now, s) = r_now D s;
          elapsed_ms = ms_of_ns (now - start)
      in do {
        (killed, s) \<leftarrow>
          (if s32 (10 * max_delay) \<le> elapsed_ms \<and> no_inj = 0 \<and> \<not> killed
           then do { s \<leftarrow> r_kill D fd s; Some (True, s) }
           else Some (killed, s));
        (r, s) \<leftarrow> r_receive D fd s;
        Some (killed, r, s)
      })"

text \<open>Lines 105 to 128.\<close>

partial_function (option) poll_loop ::
  "'w device_os \<Rightarrow> int \<Rightarrow> int \<Rightarrow> int \<Rightarrow> int \<Rightarrow> int \<Rightarrow> int \<Rightarrow> bool \<Rightarrow> int \<Rightarrow> 'w rst \<Rightarrow>
    ((int + fij_result) \<times> 'w rst) option" where
  "poll_loop D fd start max_delay no_inj retry_delay_ms poll_interval_ms killed max_retries s =
     do {
        (killed, r, s) \<leftarrow> poll_turn D fd start max_delay no_inj killed s;
        (case r of
           Inr res \<Rightarrow> Some (Inr res, s)
         | Inl e \<Rightarrow>
             if e = EAGAIN
             then poll_loop D fd start max_delay no_inj retry_delay_ms poll_interval_ms killed max_retries
               (r_sleep D poll_interval_ms s)
             else if e = EBUSY \<and> 0 < max_retries
             then poll_loop D fd start max_delay no_inj retry_delay_ms poll_interval_ms killed (max_retries - 1)
               (r_sleep D retry_delay_ms s)
             else Some (Inl e, s))
      }"

text \<open>The parameters of the call: lines 81 and 82.\<close>

definition poll_params :: "fij_params \<Rightarrow> int \<Rightarrow> int \<Rightarrow> fij_params" where
  "poll_params base_params no_inj max_delay = base_params\<lparr>no_injection := no_inj, max_delay_ms := max_delay\<rparr>"

definition seconds :: "'d fpu \<Rightarrow> int \<Rightarrow> 'd" where
  "seconds F ns = f_div F (f_of_int F ns) (f_of_int F 1000000000)"

text \<open>The \<open>try\<close> block and its handler.\<close>

definition send_and_poll_fd ::
  "'w device_os \<Rightarrow> 'd fpu \<Rightarrow> int \<Rightarrow> fij_params \<Rightarrow> int \<Rightarrow> int \<Rightarrow> int \<Rightarrow> int \<Rightarrow> int \<Rightarrow> int \<Rightarrow> 'w rst \<Rightarrow>
    ((exn + 'd \<times> fij_result) \<times> 'w rst) option" where
  "send_and_poll_fd D F fd base_params start max_delay no_inj max_retries retry_delay_ms poll_interval_ms s = do {
     (e, s) \<leftarrow> send_loop D fd base_params max_retries retry_delay_ms 0 s;
     if e \<noteq> 0 then Some (Inl (SystemError e), r_close D fd s)
     else do {
       (r, s) \<leftarrow> poll_loop D fd start max_delay no_inj retry_delay_ms poll_interval_ms False max_retries s;
       case r of
         Inl e \<Rightarrow> Some (Inl (SystemError e), r_close D fd s)
       | Inr res \<Rightarrow>
           let (stop, s) = r_now D s;
               s = r_close D fd s
           in Some (Inr (seconds F (stop - start), res), s)
     }
   }"

definition run_send_and_poll ::
  "'w device_os \<Rightarrow> 'd fpu \<Rightarrow> string \<Rightarrow> fij_params \<Rightarrow> int \<Rightarrow> int \<Rightarrow> int \<Rightarrow> int \<Rightarrow> int \<Rightarrow> int \<Rightarrow> 'w rst \<Rightarrow>
    ((exn + 'd \<times> fij_result) \<times> 'w rst) option" where
  "run_send_and_poll D F device base_params max_delay no_inj pre_delay_ms max_retries retry_delay_ms
       poll_interval_ms s =
     (let s = (if 0 < pre_delay_ms then r_sleep D pre_delay_ms s else s);
          base_params = poll_params base_params no_inj max_delay;
          (start, s) = r_now D s
      in case r_open D device s of
           (Inl e, s) \<Rightarrow> Some (Inl (SystemError e), s)
         | (Inr fd, s) \<Rightarrow>
             send_and_poll_fd D F fd base_params start max_delay no_inj max_retries retry_delay_ms poll_interval_ms s)"

section \<open>The blocking command\<close>

definition run_once ::
  "'w device_os \<Rightarrow> 'd fpu \<Rightarrow> string \<Rightarrow> fij_params \<Rightarrow> bool \<Rightarrow> int \<Rightarrow> 'w rst \<Rightarrow>
    ((exn + 'd \<times> fij_result) \<times> 'w rst) option" where
  "run_once D F device base_params no_inj max_delay s =
     (let p = base_params\<lparr>no_injection := (if no_inj then 1 else 0)\<rparr>;
          p = (if \<not> no_inj then p\<lparr>max_delay_ms := max_delay\<rparr> else p);
          msg = \<lparr>params = p, result = zero_result\<rparr>;
          (start, s) = r_now D s
      in case r_open D device s of
           (Inl e, s) \<Rightarrow> Some (Inl (SystemError e), s)
         | (Inr fd, s) \<Rightarrow> do {
             (r, w) \<leftarrow> o_exec D fd msg (world s);
             let s = says (Executed fd msg) (s\<lparr>world := w\<rparr>);
             let s = r_close D fd s;
             case r of
               Inl e \<Rightarrow> Some (Inl (SystemError e), s)
             | Inr msg \<Rightarrow> (let (stop, s) = r_now D s in Some (Inr (seconds F (stop - start), result msg), s))
           })"

function retry_loop ::
  "'w device_os \<Rightarrow> 'd fpu \<Rightarrow> string \<Rightarrow> fij_params \<Rightarrow> bool \<Rightarrow> int \<Rightarrow> int \<Rightarrow> int \<Rightarrow> int \<Rightarrow> 'w rst \<Rightarrow>
    ((exn + 'd \<times> fij_result) \<times> 'w rst) option" where
  "retry_loop D F device base_params no_inj max_delay max_retries retry_delay_ms attempt s =
     (case run_once D F device base_params no_inj max_delay s of
        None \<Rightarrow> None
      | Some (r, s) \<Rightarrow>
          if r = Inl (SystemError EBUSY) \<and> attempt < max_retries
          then retry_loop D F device base_params no_inj max_delay max_retries retry_delay_ms (attempt + 1)
            (r_sleep D retry_delay_ms s)
          else Some (r, s))"
  by auto
termination
  by (relation "measure (\<lambda>(D, F, device, base_params, no_inj, max_delay, max_retries, retry_delay_ms, attempt, s).
    nat (max_retries - attempt))") auto

declare retry_loop.simps [simp del]

definition run_with_retries ::
  "'w device_os \<Rightarrow> 'd fpu \<Rightarrow> string \<Rightarrow> fij_params \<Rightarrow> bool \<Rightarrow> int \<Rightarrow> int \<Rightarrow> int \<Rightarrow> int \<Rightarrow> 'w rst \<Rightarrow>
    ((exn + 'd \<times> fij_result) \<times> 'w rst) option" where
  "run_with_retries D F device base_params no_inj max_delay pre_delay_ms max_retries retry_delay_ms s =
     (let s = (if 0 < pre_delay_ms then r_sleep D pre_delay_ms s else s)
      in retry_loop D F device base_params no_inj max_delay max_retries retry_delay_ms 0 s)"

section \<open>Discipline of a run\<close>

text \<open>Descriptors opened less descriptors closed; kills; the parameters sent.\<close>

fun fd_weight :: "rev \<Rightarrow> int" where
  "fd_weight (Opened fd) = 1"
| "fd_weight (Closed fd) = - 1"
| "fd_weight _ = 0"

fun kill_weight :: "rev \<Rightarrow> int" where
  "kill_weight (Killed fd) = 1"
| "kill_weight _ = 0"

fun sent_params :: "rev list \<Rightarrow> fij_params list" where
  "sent_params [] = []"
| "sent_params (Sent fd p e # l) = p # sent_params l"
| "sent_params (_ # l) = sent_params l"

lemma sent_params_append [simp]: "sent_params (l @ l') = sent_params l @ sent_params l'"
  by (induction l rule: sent_params.induct) simp_all

abbreviation fds :: "'w rst \<Rightarrow> int" where "fds s \<equiv> net fd_weight (rlog s)"
abbreviation kills :: "'w rst \<Rightarrow> int" where "kills s \<equiv> net kill_weight (rlog s)"
abbreviation sends :: "'w rst \<Rightarrow> fij_params list" where "sends s \<equiv> sent_params (rlog s)"

lemma says_log [simp]: "rlog (says e s) = rlog s @ [e]" "world (says e s) = world s"
  by (simp_all add: says_def)

lemma r_now_log: "rlog (snd (r_now D s)) = rlog s"
  by (simp add: r_now_def split: prod.splits)

text \<open>An operation that opens and closes nothing, sends nothing and kills at most \<open>k\<close> times.\<close>

definition quiet :: "int \<Rightarrow> 'w rst \<Rightarrow> 'w rst \<Rightarrow> bool" where
  "quiet k s s' \<longleftrightarrow> fds s' = fds s \<and> sends s' = sends s \<and> kills s \<le> kills s' \<and> kills s' \<le> kills s + k"

lemma quiet_refl: "0 \<le> k \<Longrightarrow> quiet k s s"
  by (simp add: quiet_def)

lemma quiet_trans: "quiet k s s1 \<Longrightarrow> quiet l s1 s2 \<Longrightarrow> m = k + l \<Longrightarrow> quiet m s s2"
  by (simp add: quiet_def)

lemma sleep_quiet: "quiet 0 s (r_sleep D ms s)"
  by (simp add: quiet_def r_sleep_def)

lemma quiet_now: "quiet 0 s (snd (r_now D s))"
  by (simp add: quiet_def r_now_log)

lemma quiet_receive: "wlp (r_receive D fd s) (\<lambda>(r, s'). quiet 0 s s')"
  by (auto simp: r_receive_def quiet_def split: prod.splits intro!: wlpI)

lemma quiet_kill: "wlp (r_kill D fd s) (quiet 1 s)"
  by (auto simp: r_kill_def quiet_def intro!: wlpI)

definition sent_up_to :: "nat \<Rightarrow> fij_params \<Rightarrow> 'w rst \<Rightarrow> 'w rst \<Rightarrow> bool" where
  "sent_up_to k p s s' \<longleftrightarrow> fds s' = fds s \<and> kills s' = kills s \<and>
     (\<exists>n \<le> k. sends s' = sends s @ replicate n p)"

lemma send_loop_post:
  "wlp (send_loop D fd p mr rd attempt s) (\<lambda>(e, s'). sent_up_to (nat (mr - attempt) + 1) p s s')"
proof (induction D fd p mr rd attempt s rule: send_loop.induct)
  case (1 D fd p mr rd attempt s)
  show ?case
  proof (cases "r_send D fd p s")
    case None
    then show ?thesis by (subst send_loop.simps) simp
  next
    case (Some es)
    obtain e s1 where es: "es = (e, s1)" by force
    from Some es have log: "rlog s1 = rlog s @ [Sent fd p e]"
      by (auto simp: r_send_def bind_eq_Some_conv split: prod.splits)
    then have one: "sent_up_to (nat (mr - attempt) + 1) p s s1"
      by (auto simp: sent_up_to_def intro!: exI [of _ 1])
    show ?thesis
    proof (cases "e = EBUSY \<and> attempt < mr")
      case True
      from 1 [OF Some es [symmetric]] True
      have ih: "wlp (send_loop D fd p mr rd (attempt + 1) (r_sleep D rd s1))
          (\<lambda>(e, s'). sent_up_to (nat (mr - (attempt + 1)) + 1) p (r_sleep D rd s1) s')" by simp
      have "sent_up_to (nat (mr - attempt) + 1) p s s'"
        if "sent_up_to (nat (mr - (attempt + 1)) + 1) p (r_sleep D rd s1) s'" for s'
      proof -
        from that obtain n where n: "n \<le> nat (mr - (attempt + 1)) + 1" "sends s' = sends s @ replicate (Suc n) p"
          by (auto simp: sent_up_to_def r_sleep_def log)
        with True have "Suc n \<le> nat (mr - attempt) + 1" by linarith
        with n that show ?thesis by (auto simp: sent_up_to_def r_sleep_def log)
      qed
      with ih have "wlp (send_loop D fd p mr rd (attempt + 1) (r_sleep D rd s1))
          (\<lambda>(e, s'). sent_up_to (nat (mr - attempt) + 1) p s s')"
        by (auto elim!: wlp_mono)
      with Some es True show ?thesis by (subst send_loop.simps) simp
    qed (use Some es one in \<open>subst send_loop.simps, auto\<close>)
  qed
qed

text \<open>The invariant rule of the polling loop: \<open>I\<close> holds whenever a turn begins.\<close>

definition turn_post ::
  "'w device_os \<Rightarrow> int \<Rightarrow> int \<Rightarrow> (bool \<Rightarrow> 'w rst \<Rightarrow> bool) \<Rightarrow> (int + fij_result \<Rightarrow> 'w rst \<Rightarrow> bool) \<Rightarrow>
    bool \<times> (int + fij_result) \<times> 'w rst \<Rightarrow> bool" where
  "turn_post D rd pi I Q x \<longleftrightarrow> (case x of (killed, r, s) \<Rightarrow> (case r of
       Inr res \<Rightarrow> Q (Inr res) s
     | Inl e \<Rightarrow> (e = EAGAIN \<longrightarrow> I killed (r_sleep D pi s)) \<and> (e = EBUSY \<longrightarrow> I killed (r_sleep D rd s)) \<and>
         (e \<noteq> EAGAIN \<longrightarrow> Q (Inl e) s)))"

lemma poll_loop_rule:
  assumes turn: "\<And>killed s. I killed s \<Longrightarrow> wlp (poll_turn D fd start md no_inj killed s) (turn_post D rd pi I Q)"
    and "I killed s"
  shows "wlp (poll_loop D fd start md no_inj rd pi killed mr s) (\<lambda>(r, s'). Q r s')"
proof (rule wlpI)
  fix p
  assume "poll_loop D fd start md no_inj rd pi killed mr s = Some p"
  then have "(D, fd, start, md, no_inj, rd, pi) = (D, fd, start, md, no_inj, rd, pi) \<longrightarrow> I killed s \<longrightarrow>
      Q (fst p) (snd p)"
  proof (rule poll_loop.raw_induct [where P = "\<lambda>D' fd' start' md' no_inj' rd' pi' killed mr s p.
      (D', fd', start', md', no_inj', rd', pi') = (D, fd, start, md, no_inj, rd, pi) \<longrightarrow> I killed s \<longrightarrow>
      Q (fst p) (snd p)", rotated], intro impI)
    fix f and D' :: "'a device_os" and fd' start' md' no_inj' rd' pi' killed mr s p
    assume IH: "\<And>D' fd' start' md' no_inj' rd' pi' killed mr s p.
        f D' fd' start' md' no_inj' rd' pi' killed mr s = Some p \<Longrightarrow>
        (D', fd', start', md', no_inj', rd', pi') = (D, fd, start, md, no_inj, rd, pi) \<longrightarrow> I killed s \<longrightarrow>
        Q (fst p) (snd p)"
      and run: "do {
        (killed, r, s) \<leftarrow> poll_turn D' fd' start' md' no_inj' killed s;
        (case r of Inl e \<Rightarrow>
             if e = EAGAIN then f D' fd' start' md' no_inj' rd' pi' killed mr (r_sleep D' pi' s)
             else if e = EBUSY \<and> 0 < mr
             then f D' fd' start' md' no_inj' rd' pi' killed (mr - 1) (r_sleep D' rd' s)
             else Some (Inl e, s)
           | Inr res \<Rightarrow> Some (Inr res, s)) } = Some p"
      and eq: "(D', fd', start', md', no_inj', rd', pi') = (D, fd, start, md, no_inj, rd, pi)"
      and I: "I killed s"
    from run obtain k r s1 where pt: "poll_turn D fd start md no_inj killed s = Some (k, r, s1)"
      using eq by (auto simp: bind_eq_Some_conv)
    from wlpD [OF turn [OF I] pt] have post: "turn_post D rd pi I Q (k, r, s1)" .
    show "Q (fst p) (snd p)"
    proof (cases r)
      case (Inr res)
      with run pt post eq show ?thesis by (auto simp: turn_post_def)
    next
      case (Inl e)
      with run pt post eq show ?thesis
        by (auto simp: turn_post_def split: if_split_asm dest!: IH)
    qed
  qed
  with assms(2) show "case p of (r, s') \<Rightarrow> Q r s'" by (simp add: case_prod_unfold)
qed

definition poll_bound :: "int \<Rightarrow> bool \<Rightarrow> int" where
  "poll_bound no_inj killed = (if no_inj = 0 \<and> \<not> killed then 1 else 0)"

lemma poll_turn_quiet:
  "wlp (poll_turn D fd start md no_inj killed s) (\<lambda>(k, r, s').
     \<exists>a. quiet a s s' \<and> a + poll_bound no_inj k \<le> poll_bound no_inj killed)"
proof -
  obtain now s0 where now: "r_now D s = (now, s0)" by force
  with quiet_now [of s D] have s0: "quiet 0 s s0" by simp
  show ?thesis
  proof (cases "s32 (10 * md) \<le> ms_of_ns (now - start) \<and> no_inj = 0 \<and> \<not> killed")
    case True
    have "wlp (r_kill D fd s0) (\<lambda>s1. wlp (r_receive D fd s1) (\<lambda>(r, s'). quiet 1 s s'))"
    proof (rule wlp_mono [OF quiet_kill])
      fix s1 assume "quiet 1 s0 s1"
      with s0 have "quiet 1 s s1" by (rule quiet_trans) simp
      then show "wlp (r_receive D fd s1) (\<lambda>(r, s'). quiet 1 s s')"
        by (auto intro!: wlp_mono [OF quiet_receive] elim: quiet_trans)
    qed
    with True now show ?thesis
      by (auto simp: poll_turn_def poll_bound_def case_prod_unfold elim!: wlp_mono intro!: exI [of _ 1])
  next
    case False
    have "wlp (r_receive D fd s0) (\<lambda>(r, s'). quiet 0 s s')"
      by (rule wlp_mono [OF quiet_receive]) (auto intro: quiet_trans [OF s0])
    with False now show ?thesis
      by (auto simp: poll_turn_def poll_bound_def case_prod_unfold elim!: wlp_mono intro!: exI [of _ 0])
  qed
qed

lemma quiet_mono: "quiet a s s' \<Longrightarrow> a \<le> b \<Longrightarrow> quiet b s s'"
  by (simp add: quiet_def)

lemma poll_loop_quiet:
  "wlp (poll_loop D fd start md no_inj rd pi killed mr s) (\<lambda>(r, s'). quiet (poll_bound no_inj killed) s s')"
proof (rule poll_loop_rule [where I = "\<lambda>k s1. \<exists>a. quiet a s s1 \<and> a + poll_bound no_inj k \<le> poll_bound no_inj killed"])
  let ?B = "poll_bound no_inj killed"
  show "\<exists>a. quiet a s s \<and> a + poll_bound no_inj killed \<le> ?B"
    by (intro exI [of _ 0]) (simp add: quiet_refl)
  fix k s1
  assume "\<exists>a. quiet a s s1 \<and> a + poll_bound no_inj k \<le> ?B"
  then obtain a where a: "quiet a s s1" "a + poll_bound no_inj k \<le> ?B" by blast
  show "wlp (poll_turn D fd start md no_inj k s1) (turn_post D rd pi
      (\<lambda>k s1. \<exists>a. quiet a s s1 \<and> a + poll_bound no_inj k \<le> ?B) (\<lambda>r. quiet ?B s))"
  proof (rule wlp_mono [OF poll_turn_quiet], clarify)
    fix k' r s' b
    assume b: "quiet b s1 s'" "b + poll_bound no_inj k' \<le> poll_bound no_inj k"
    have ab: "quiet (a + b) s s'" using a(1) b(1) by (rule quiet_trans) simp
    have le: "a + b + poll_bound no_inj k' \<le> ?B" using a(2) b(2) by simp
    have "0 \<le> poll_bound no_inj k'" by (simp add: poll_bound_def)
    with le have fin: "quiet ?B s s'" using quiet_mono [OF ab] by simp
    have again: "\<exists>a. quiet a s (r_sleep D ms s') \<and> a + poll_bound no_inj k' \<le> ?B" for ms
      using quiet_trans [OF ab sleep_quiet] le by auto
    show "turn_post D rd pi (\<lambda>k s1. \<exists>a. quiet a s s1 \<and> a + poll_bound no_inj k \<le> ?B) (\<lambda>r. quiet ?B s) (k', r, s')"
      using fin again by (auto simp: turn_post_def split: sum.splits)
  qed
qed

definition disciplined :: "int \<Rightarrow> int \<Rightarrow> fij_params \<Rightarrow> 'w rst \<Rightarrow> 'w rst \<Rightarrow> bool" where
  "disciplined no_inj mr p s s' \<longleftrightarrow> kills s \<le> kills s' \<and> kills s' \<le> kills s + (if no_inj = 0 then 1 else 0) \<and>
     (\<exists>n \<le> nat mr + 1. sends s' = sends s @ replicate n p)"

lemma sent_disciplined:
  "sent_up_to (nat (mr - 0) + 1) p s s' \<Longrightarrow> fds s' = fds s \<and> disciplined no_inj mr p s s'"
  by (auto simp: sent_up_to_def disciplined_def)

lemma sent_quiet_disciplined:
  "sent_up_to (nat (mr - 0) + 1) p s s1 \<Longrightarrow> quiet (poll_bound no_inj False) s1 s' \<Longrightarrow>
     fds s' = fds s \<and> disciplined no_inj mr p s s'"
  by (auto simp: sent_up_to_def disciplined_def quiet_def poll_bound_def split: if_split_asm)

lemma close_disciplined:
  "fds s' = fds s \<and> disciplined no_inj mr p s s' \<Longrightarrow>
     fds (r_close D fd s') = fds s - 1 \<and> disciplined no_inj mr p s (r_close D fd s')"
  by (simp add: disciplined_def r_close_def)

lemma now_disciplined:
  "r_now D s' = (t, s2) \<Longrightarrow> fds s' = fds s \<and> disciplined no_inj mr p s s' \<Longrightarrow>
     fds s2 = fds s \<and> disciplined no_inj mr p s s2"
  using r_now_log [of D s'] by (simp add: disciplined_def)

lemma send_and_poll_fd_post:
  "wlp (send_and_poll_fd D F fd p start md no_inj mr rd pi s)
    (\<lambda>(r, s'). fds s' = fds s - 1 \<and> disciplined no_inj mr p s s')"
proof -
  let ?ok = "\<lambda>(r, s'). fds s' = fds s - 1 \<and> disciplined no_inj mr p s s'"
  have polled: "wlp (do {
       (r, s) \<leftarrow> poll_loop D fd start md no_inj rd pi False mr s1;
       case r of
         Inl e \<Rightarrow> Some (Inl (SystemError e), r_close D fd s)
       | Inr res \<Rightarrow>
           let (stop, s) = r_now D s;
               s = r_close D fd s
           in Some (Inr (seconds F (stop - start), res), s)
     }) ?ok" if "sent_up_to (nat (mr - 0) + 1) p s s1" for s1
    unfolding wlp_simps
  proof (rule wlp_mono [OF poll_loop_quiet], clarify)
    fix r s2
    assume "quiet (poll_bound no_inj False) s1 s2"
    from sent_quiet_disciplined [OF that this] have s2: "fds s2 = fds s \<and> disciplined no_inj mr p s s2" .
    obtain stop s3 where now: "r_now D s2 = (stop, s3)" by force
    from now_disciplined [OF now s2] close_disciplined [OF s2, of D fd] close_disciplined [of s3 s no_inj mr p D fd]
    show "wlp (case r of
         Inl e \<Rightarrow> Some (Inl (SystemError e), r_close D fd s2)
       | Inr res \<Rightarrow>
           let (stop, s) = r_now D s2;
               s = r_close D fd s
           in Some (Inr (seconds F (stop - start), res), s)) ?ok"
      using now by (auto split: sum.splits)
  qed
  show ?thesis
    unfolding send_and_poll_fd_def wlp_simps(3)
  proof (rule wlp_mono [OF send_loop_post], clarify)
    fix e s1
    assume s1: "sent_up_to (nat (mr - 0) + 1) p s s1"
    show "wlp (if e \<noteq> 0 then Some (Inl (SystemError e), r_close D fd s1)
       else Option.bind (poll_loop D fd start md no_inj rd pi False mr s1) (\<lambda>(r, s). case r of
           Inl e \<Rightarrow> Some (Inl (SystemError e), r_close D fd s)
         | Inr res \<Rightarrow> let (stop, s) = r_now D s; s = r_close D fd s
             in Some (Inr (seconds F (stop - start), res), s))) ?ok"
    proof (cases "e = 0")
      case True
      with polled [OF s1] show ?thesis by (simp only: simp_thms if_False)
    next
      case False
      with close_disciplined [OF sent_disciplined [OF s1], of D fd] show ?thesis by simp
    qed
  qed
qed

lemma run_disciplined:
  "wlp (run_send_and_poll D F device base_params max_delay no_inj pre_delay_ms max_retries retry_delay_ms
      poll_interval_ms s)
    (\<lambda>(r, s'). fds s' = fds s \<and>
      kills s \<le> kills s' \<and> kills s' \<le> kills s + (if no_inj = 0 then 1 else 0) \<and>
      (\<exists>n \<le> nat max_retries + 1.
        sends s' = sends s @ replicate n (base_params\<lparr>no_injection := no_inj, max_delay_ms := max_delay\<rparr>)))"
proof -
  define s1 where "s1 = (if 0 < pre_delay_ms then r_sleep D pre_delay_ms s else s)"
  obtain start s2 where now: "r_now D s1 = (start, s2)" by force
  obtain o_res s3 where op: "r_open D device s2 = (o_res, s3)" by force
  have "rlog s2 = rlog s1" using r_now_log [of D s1] now by simp
  then have log2: "fds s2 = fds s" "kills s2 = kills s" "sends s2 = sends s"
    by (simp_all add: s1_def r_sleep_def)
  show ?thesis
  proof (cases o_res)
    case (Inl e)
    with op log2 have "fds s3 = fds s" "kills s3 = kills s" "sends s3 = sends s"
      by (auto simp: r_open_def Let_def split: prod.splits)
    with Inl op now show ?thesis
      by (simp add: run_send_and_poll_def Let_def flip: s1_def)
  next
    case (Inr fd)
    with op log2 have log3: "fds s3 = fds s + 1" "kills s3 = kills s" "sends s3 = sends s"
      by (auto simp: r_open_def Let_def split: prod.splits)
    from Inr op now show ?thesis
      using send_and_poll_fd_post [of D F fd "poll_params base_params no_inj max_delay" start max_delay no_inj
          max_retries retry_delay_ms poll_interval_ms s3]
      by (auto simp: run_send_and_poll_def Let_def disciplined_def log3 poll_params_def elim!: wlp_mono
        simp flip: s1_def)
  qed
qed

text \<open>C18: However a run by message and polling ends, with a result or with an exception, it has closed
  the descriptor it opened, it has sent the message at most \<open>max_retries + 1\<close> times and always with the
  two parameters replaced, and it has killed the target at most once, never in a run without injection.\<close>

theorem send_and_poll_discipline:
  "wlp (run_send_and_poll D F device base_params max_delay no_inj pre_delay_ms max_retries retry_delay_ms
      poll_interval_ms s)
    (\<lambda>(r, s'). fds s' = fds s \<and>
      kills s \<le> kills s' \<and> kills s' \<le> kills s + (if no_inj = 0 then 1 else 0) \<and>
      (\<exists>n \<le> nat max_retries + 1.
        sends s' = sends s @ replicate n (base_params\<lparr>no_injection := no_inj, max_delay_ms := max_delay\<rparr>)))"
  by (rule run_disciplined)

section \<open>When a run comes back\<close>

text \<open>A device whose target never ends: it accepts the message and then answers \<open>EAGAIN\<close> for good.\<close>

definition hung_device :: "'w device_os \<Rightarrow> string \<Rightarrow> 'w set \<Rightarrow> bool" where
  "hung_device D device W \<longleftrightarrow> (\<forall>w \<in> W.
     (\<exists>fd. fst (o_open D device w) = Inr fd) \<and> snd (o_open D device w) \<in> W \<and>
     snd (o_now D w) \<in> W \<and> (\<forall>ms. o_sleep D ms w \<in> W) \<and>
     (\<forall>fd p. \<exists>w' \<in> W. o_send D fd p w = Some (0, w')) \<and>
     (\<forall>fd. \<exists>w' \<in> W. o_receive D fd w = Some (Inl EAGAIN, w')))"

lemma hung_now: "hung_device D device W \<Longrightarrow> world s \<in> W \<Longrightarrow> r_now D s = (t, s') \<Longrightarrow> world s' \<in> W"
  by (auto simp: hung_device_def r_now_def split: prod.splits dest!: bspec [of W _ "world s"])

lemma hung_sleep: "hung_device D device W \<Longrightarrow> world s \<in> W \<Longrightarrow> world (r_sleep D ms s) \<in> W"
  by (auto simp: hung_device_def r_sleep_def)

lemma hung_turn:
  assumes "hung_device D device W" "no_inj \<noteq> 0" "world s \<in> W"
  shows "wlp (poll_turn D fd start md no_inj killed s) (turn_post D rd pi (\<lambda>_ s. world s \<in> W) (\<lambda>_ _. False))"
proof -
  obtain now s1 where now: "r_now D s = (now, s1)" by force
  with hung_now [OF assms(1,3)] have s1: "world s1 \<in> W" by simp
  with assms(1) obtain w' where w': "w' \<in> W" "o_receive D fd (world s1) = Some (Inl EAGAIN, w')"
    unfolding hung_device_def by blast
  then have "r_receive D fd s1 = Some (Inl EAGAIN, says (Received fd) (s1\<lparr>world := w'\<rparr>))"
    by (simp add: r_receive_def)
  with now assms(2) w' show ?thesis
    by (simp add: poll_turn_def turn_post_def hung_sleep [OF assms(1)])
qed

lemma hung_poll:
  assumes "hung_device D device W" "no_inj \<noteq> 0" "world s \<in> W"
  shows "poll_loop D fd start md no_inj rd pi killed mr s = None"
proof -
  have "wlp (poll_loop D fd start md no_inj rd pi killed mr s) (\<lambda>(r, s'). False)"
    by (rule poll_loop_rule [where I = "\<lambda>_ s. world s \<in> W"]) (use assms hung_turn in auto)
  then show ?thesis
    by (cases "poll_loop D fd start md no_inj rd pi killed mr s") auto
qed

text \<open>A baseline run of a program that does not end never comes back: the kill is reserved for runs
  with injection, and nothing else bounds the polling.\<close>

theorem hung_baseline_never_returns:
  assumes "hung_device D device W" and "world s \<in> W" and "no_inj \<noteq> 0"
  shows "run_send_and_poll D F device base_params max_delay no_inj pre_delay_ms max_retries retry_delay_ms
    poll_interval_ms s = None"
proof -
  define s1 where "s1 = (if 0 < pre_delay_ms then r_sleep D pre_delay_ms s else s)"
  have s1: "world s1 \<in> W" using assms(1,2) by (simp add: s1_def hung_sleep)
  obtain start s2 where now: "r_now D s1 = (start, s2)" by force
  with hung_now [OF assms(1) s1] have s2: "world s2 \<in> W" by simp
  obtain fd s3 where op: "r_open D device s2 = (Inr fd, s3)" "world s3 \<in> W"
    using assms(1) s2 by (fastforce simp: r_open_def hung_device_def Let_def split: prod.splits)
  let ?p = "poll_params base_params no_inj max_delay"
  from assms(1) op(2) obtain w' where w': "w' \<in> W" "o_send D fd ?p (world s3) = Some (0, w')"
    unfolding hung_device_def by blast
  then have "send_loop D fd ?p max_retries retry_delay_ms 0 s3 = Some (0, says (Sent fd ?p 0) (s3\<lparr>world := w'\<rparr>))"
    by (subst send_loop.simps) (simp add: r_send_def)
  with hung_poll [OF assms(1,3)] w'(1)
  have "send_and_poll_fd D F fd ?p start max_delay no_inj max_retries retry_delay_ms poll_interval_ms s3 = None"
    by (simp add: send_and_poll_fd_def)
  with now op show ?thesis by (simp add: run_send_and_poll_def Let_def flip: s1_def)
qed

text \<open>A device without state, for the examples: it opens, accepts a message, and answers \<open>r\<close>.\<close>

definition demo_device :: "int + fij_result \<Rightarrow> unit device_os" where
  "demo_device r = \<lparr>o_open = \<lambda>_ w. (Inr 3, w), o_close = \<lambda>_ w. w, o_send = \<lambda>_ _ w. Some (0, w),
     o_receive = \<lambda>_ w. Some (r, w), o_kill = \<lambda>_ w. Some w, o_exec = \<lambda>_ m w. Some (Inr m, w),
     o_sleep = \<lambda>_ w. w, o_now = \<lambda>w. (0, w)\<rparr>"

theorem hung_baseline_never_returns_witness:
  "run_send_and_poll (demo_device (Inl EAGAIN)) demo_fpu ''/dev/fij'' zero_params 0 1 0 5 50 1
     \<lparr>world = (), rlog = []\<rparr> = None"
  by (rule hung_baseline_never_returns [of _ _ UNIV]) (simp_all add: hung_device_def demo_device_def)

text \<open>What a run needs of the device to come back: every call returns, and each time it asks for another
  attempt a measure of what is still to come has become smaller.\<close>

definition device_progress :: "'w device_os \<Rightarrow> ('w \<Rightarrow> nat) \<Rightarrow> bool" where
  "device_progress D m \<longleftrightarrow> (\<forall>w fd.
     m (snd (o_now D w)) \<le> m w \<and>
     (\<forall>p. o_send D fd p w \<noteq> None) \<and>
     (\<exists>w'. o_kill D fd w = Some w' \<and> m w' \<le> m w) \<and>
     (\<exists>r w'. o_receive D fd w = Some (r, w') \<and>
        (r \<in> {Inl EAGAIN, Inl EBUSY} \<longrightarrow> (\<forall>ms. m (o_sleep D ms w') < m w))))"

lemma turn_progress:
  assumes "device_progress D m"
  shows "\<exists>k r s'. poll_turn D fd start md no_inj killed s = Some (k, r, s') \<and>
    (r \<in> {Inl EAGAIN, Inl EBUSY} \<longrightarrow> (\<forall>ms. m (world (r_sleep D ms s')) < m (world s)))"
proof -
  obtain now s1 where now: "r_now D s = (now, s1)" by force
  then have s1: "m (world s1) \<le> m (world s)"
    using assms by (auto simp: r_now_def device_progress_def split: prod.splits dest!: spec [of _ "world s"])
  have rcv: "\<exists>r s'. r_receive D fd s2 = Some (r, s') \<and>
      (r \<in> {Inl EAGAIN, Inl EBUSY} \<longrightarrow> (\<forall>ms. m (world (r_sleep D ms s')) < m (world s)))"
    if "m (world s2) \<le> m (world s)" for s2
  proof -
    from assms obtain r w' where r: "o_receive D fd (world s2) = Some (r, w')"
        "r \<in> {Inl EAGAIN, Inl EBUSY} \<longrightarrow> (\<forall>ms. m (o_sleep D ms w') < m (world s2))"
      unfolding device_progress_def by metis
    with that show ?thesis by (auto simp: r_receive_def r_sleep_def intro: order.strict_trans2)
  qed
  show ?thesis
  proof (cases "s32 (10 * md) \<le> ms_of_ns (now - start) \<and> no_inj = 0 \<and> \<not> killed")
    case True
    from assms obtain w' where w': "o_kill D fd (world s1) = Some w'" "m w' \<le> m (world s1)"
      unfolding device_progress_def by metis
    let ?s2 = "says (Killed fd) (s1\<lparr>world := w'\<rparr>)"
    have kill: "r_kill D fd s1 = Some ?s2" using w' by (simp add: r_kill_def)
    obtain r s' where "r_receive D fd ?s2 = Some (r, s')"
        "r \<in> {Inl EAGAIN, Inl EBUSY} \<longrightarrow> (\<forall>ms. m (world (r_sleep D ms s')) < m (world s))"
      using rcv [of ?s2] w' s1 by auto
    with True now kill show ?thesis by (auto simp: poll_turn_def)
  next
    case False
    obtain r s' where "r_receive D fd s1 = Some (r, s')"
        "r \<in> {Inl EAGAIN, Inl EBUSY} \<longrightarrow> (\<forall>ms. m (world (r_sleep D ms s')) < m (world s))"
      using rcv [of s1] s1 by auto
    with False now show ?thesis by (auto simp: poll_turn_def)
  qed
qed

lemma poll_returns:
  assumes "device_progress D m"
  shows "poll_loop D fd start md no_inj rd pi killed mr s \<noteq> None"
proof (induction "m (world s)" arbitrary: killed mr s rule: less_induct)
  case less
  from turn_progress [OF assms] obtain k r s' where
    turn: "poll_turn D fd start md no_inj killed s = Some (k, r, s')"
      "r \<in> {Inl EAGAIN, Inl EBUSY} \<longrightarrow> (\<forall>ms. m (world (r_sleep D ms s')) < m (world s))" by blast
  then show ?case using less by (subst poll_loop.simps) (auto split: sum.splits)
qed

lemma send_loop_returns:
  assumes "device_progress D m"
  shows "send_loop D fd p mr rd attempt s \<noteq> None"
  using assms
proof (induction D fd p mr rd attempt s rule: send_loop.induct)
  case (1 D fd p mr rd attempt s)
  from 1(2) obtain e w' where snd: "o_send D fd p (world s) = Some (e, w')"
    unfolding device_progress_def by (metis option.exhaust surj_pair)
  let ?s = "says (Sent fd p e) (s\<lparr>world := w'\<rparr>)"
  have sent: "r_send D fd p s = Some (e, ?s)" using snd by (simp add: r_send_def)
  show ?case
  proof (cases "e = EBUSY \<and> attempt < mr")
    case True
    have "send_loop D fd p mr rd (attempt + 1) (r_sleep D rd ?s) \<noteq> None"
      using 1(1) [OF sent refl _ True 1(2)] True by simp
    with sent True show ?thesis by (subst send_loop.simps) simp
  qed (use sent in \<open>subst send_loop.simps, auto\<close>)
qed



end
