(* ===== verification/Run_Json.thy ===== *)
theory Run_Json
  imports Run_Std "HOL-Library.AList"
begin

text \<open>
  \<open>nlohmann::json\<close>, which the runner uses for its configuration, its logs and the analysis, is not part
  of the repository: its values are a type \<open>'j\<close> and the members the runner calls a record of functions.
  \<open>'d\<close> is the type of a \<open>double\<close>. A member that may throw returns a sum. The documented laws on which a
  property rests are the named predicates below; \<open>djson\<close> is a concrete instance for the witnesses.
\<close>

record ('j, 'd) json_lib =
  j_null :: 'j \<comment> \<open>\<open>json x;\<close>\<close>
  j_object :: 'j \<comment> \<open>\<open>json::object()\<close>\<close>
  j_array :: "'j list \<Rightarrow> 'j"
  j_of_int :: "int \<Rightarrow> 'j"
  j_of_string :: "string \<Rightarrow> 'j"
  j_of_double :: "'d \<Rightarrow> 'j"
  j_find :: "'j \<Rightarrow> string \<Rightarrow> 'j option" \<comment> \<open>\<open>find\<close>, \<open>contains\<close> and, on a key that is there, \<open>[]\<close>\<close>
  j_set :: "'j \<Rightarrow> string \<Rightarrow> 'j \<Rightarrow> exn + 'j" \<comment> \<open>\<open>j[key] = v\<close>\<close>
  j_items :: "'j \<Rightarrow> exn + (string \<times> 'j) list" \<comment> \<open>\<open>key()\<close> and \<open>value()\<close> from \<open>begin()\<close> to \<open>end()\<close>\<close>
  j_elems :: "'j \<Rightarrow> 'j list" \<comment> \<open>the range of a \<open>for\<close>\<close>
  j_value :: "'j \<Rightarrow> string \<Rightarrow> 'j \<Rightarrow> exn + 'j" \<comment> \<open>\<open>value(key, default)\<close>, at the type of the default\<close>
  j_value_int :: "'j \<Rightarrow> string \<Rightarrow> int \<Rightarrow> exn + int"
  j_value_string :: "'j \<Rightarrow> string \<Rightarrow> string \<Rightarrow> exn + string"
  j_is_object :: "'j \<Rightarrow> bool"
  j_is_boolean :: "'j \<Rightarrow> bool"
  j_is_number :: "'j \<Rightarrow> bool"
  j_is_string :: "'j \<Rightarrow> bool"
  j_get_bool :: "'j \<Rightarrow> exn + bool"
  j_get_nonzero :: "'j \<Rightarrow> exn + bool" \<comment> \<open>\<open>get<double>() != 0.0\<close>\<close>
  j_get_string :: "'j \<Rightarrow> exn + string"
  j_get_int64 :: "'j \<Rightarrow> exn + int" \<comment> \<open>\<open>get<long long>()\<close>\<close>
  j_dump :: "'j \<Rightarrow> string \<times> exn option" \<comment> \<open>\<open>ofs << setw(2) << j\<close>: what is written, and whether it threw\<close>
  j_parse :: "string \<Rightarrow> exn + 'j"

definition j_contains :: "('j, 'd) json_lib \<Rightarrow> 'j \<Rightarrow> string \<Rightarrow> bool" where
  "j_contains J j k \<longleftrightarrow> j_find J j k \<noteq> None"

text \<open>Assigning a member of an object succeeds, and reading gives the last value assigned; \<open>null\<close>
  becomes an object.\<close>

definition json_set_law :: "('j, 'd) json_lib \<Rightarrow> bool" where
  "json_set_law J \<longleftrightarrow> (\<forall>j k v j'. j_set J j k v = Inr j' \<longrightarrow>
      j_is_object J j' \<and> (\<forall>k'. j_find J j' k' = (if k' = k then Some v else j_find J j k'))) \<and>
     (\<forall>j k v. j_is_object J j \<or> j = j_null J \<longrightarrow> (\<exists>j'. j_set J j k v = Inr j'))"

text \<open>The iteration over an object goes once over its members.\<close>

definition json_items_law :: "('j, 'd) json_lib \<Rightarrow> bool" where
  "json_items_law J \<longleftrightarrow> (\<forall>j kvs. j_items J j = Inr kvs \<longrightarrow>
      distinct (map fst kvs) \<and> j_find J j = map_of kvs)"

text \<open>\<open>value\<close> reads an integer member back and falls back to the default.\<close>

definition json_value_law :: "('j, 'd) json_lib \<Rightarrow> bool" where
  "json_value_law J \<longleftrightarrow> (\<forall>j k n. j_is_object J j \<longrightarrow>
      (\<forall>i. j_find J j k = Some (j_of_int J i) \<longrightarrow> j_value_int J j k n = Inr i) \<and>
      (j_find J j k = None \<longrightarrow> j_value_int J j k n = Inr n))"

text \<open>What is written, with a newline behind it, is read back.\<close>

definition json_dump_law :: "('j, 'd) json_lib \<Rightarrow> bool" where
  "json_dump_law J \<longleftrightarrow> (\<forall>j c. j_dump J j = (c, None) \<longrightarrow> j_parse J (c @ [CHR 0x0A]) = Inr j)"

lemma json_setD:
  "json_set_law J \<Longrightarrow> j_set J j k v = Inr j' \<Longrightarrow>
     j_is_object J j' \<and> j_find J j' k' = (if k' = k then Some v else j_find J j k')"
  by (simp add: json_set_law_def)

lemma json_set_ok:
  "json_set_law J \<Longrightarrow> j_is_object J j \<or> j = j_null J \<Longrightarrow> \<exists>j'. j_set J j k v = Inr j'"
  by (auto simp: json_set_law_def)

section \<open>Assigning many members\<close>

text \<open>A sequence of assignments \<open>j[key] = value\<close>.\<close>

definition set_members :: "('j, 'd) json_lib \<Rightarrow> (string \<times> 'j) list \<Rightarrow> 'j \<Rightarrow> exn + 'j" where
  "set_members J kvs = ok_fold (\<lambda>(k, v) j. j_set J j k v) kvs"

lemma set_members_ok:
  assumes "json_set_law J"
  shows "j_is_object J j \<or> j = j_null J \<Longrightarrow> \<exists>j'. set_members J kvs j = Inr j'"
proof (induction kvs arbitrary: j)
  case (Cons kv kvs)
  obtain k v where kv: "kv = (k, v)" by force
  from json_set_ok [OF assms Cons.prems] obtain j1 where j1: "j_set J j k v = Inr j1" by blast
  with json_setD [OF assms j1] Cons.IH [of j1] show ?case by (simp add: set_members_def kv)
qed (simp add: set_members_def)

lemma set_members_find:
  assumes "json_set_law J"
  shows "set_members J kvs j = Inr j' \<Longrightarrow> j_find J j' k =
    (case map_of (rev kvs) k of Some v \<Rightarrow> Some v | None \<Rightarrow> j_find J j k)"
proof (induction kvs arbitrary: j)
  case (Cons kv kvs)
  obtain l v where kv: "kv = (l, v)" by force
  from Cons.prems obtain j1 where j1: "j_set J j l v = Inr j1" "set_members J kvs j1 = Inr j'"
    by (auto simp: set_members_def kv ok_bind_Inr)
  from Cons.IH [OF j1(2)] json_setD [OF assms j1(1), of k] show ?case
    by (auto simp: kv map_add_def split: option.splits)
qed (simp add: set_members_def)

lemma set_members_object:
  assumes "json_set_law J" "set_members J kvs j = Inr j'" "j_is_object J j \<or> kvs \<noteq> []"
  shows "j_is_object J j'"
  using assms(2,3)
proof (induction kvs arbitrary: j)
  case (Cons kv kvs)
  obtain l v where kv: "kv = (l, v)" by force
  from Cons.prems obtain j1 where j1: "j_set J j l v = Inr j1" "set_members J kvs j1 = Inr j'"
    by (auto simp: set_members_def kv ok_bind_Inr)
  from Cons.IH [OF j1(2)] json_setD [OF assms(1) j1(1)] show ?case by simp
qed (simp add: set_members_def)

section \<open>An instance\<close>

datatype djson = DNull | DBool bool | DNum int | DStr string | DArr "djson list" | DObj "(string \<times> djson) list"

definition d_find :: "djson \<Rightarrow> string \<Rightarrow> djson option" where
  "d_find j k = (case j of DObj kvs \<Rightarrow> map_of kvs k | _ \<Rightarrow> None)"

definition d_set :: "djson \<Rightarrow> string \<Rightarrow> djson \<Rightarrow> exn + djson" where
  "d_set j k v = (case j of DNull \<Rightarrow> Inr (DObj [(k, v)]) | DObj kvs \<Rightarrow> Inr (DObj (AList.update k v kvs))
     | _ \<Rightarrow> Inl JsonError)"

text \<open>The text of a value is left abstract: the instance keeps a list of values, a text names one by its
  length.\<close>

fun position :: "djson \<Rightarrow> djson list \<Rightarrow> nat option" where
  "position j [] = None"
| "position j (x # xs) = (if x = j then Some 0 else map_option Suc (position j xs))"

lemma position_Some: "position j tab = Some i \<Longrightarrow> i < length tab \<and> tab ! i = j"
  by (induction j tab arbitrary: i rule: position.induct) (auto split: if_split_asm)

definition demo_json :: "djson list \<Rightarrow> (djson, int) json_lib" where
  "demo_json tab = \<lparr>j_null = DNull, j_object = DObj [], j_array = DArr, j_of_int = DNum,
     j_of_string = DStr, j_of_double = DNum, j_find = d_find, j_set = d_set,
     j_items = (\<lambda>j. case j of DObj kvs \<Rightarrow> Inr (AList.clearjunk kvs) | DNull \<Rightarrow> Inr [] | _ \<Rightarrow> Inl JsonError),
     j_elems = (\<lambda>j. case j of DArr js \<Rightarrow> js | DObj kvs \<Rightarrow> map snd kvs | DNull \<Rightarrow> [] | _ \<Rightarrow> [j]),
     j_value = (\<lambda>j k v. case j of DObj _ \<Rightarrow> Inr (case d_find j k of Some w \<Rightarrow> w | None \<Rightarrow> v) | _ \<Rightarrow> Inl JsonError),
     j_value_int = (\<lambda>j k v. case j of DObj _ \<Rightarrow> (case d_find j k of None \<Rightarrow> Inr v | Some (DNum i) \<Rightarrow> Inr i
        | _ \<Rightarrow> Inl JsonError) | _ \<Rightarrow> Inl JsonError),
     j_value_string = (\<lambda>j k v. case j of DObj _ \<Rightarrow> (case d_find j k of None \<Rightarrow> Inr v | Some (DStr i) \<Rightarrow> Inr i
        | _ \<Rightarrow> Inl JsonError) | _ \<Rightarrow> Inl JsonError),
     j_is_object = (\<lambda>j. case j of DObj _ \<Rightarrow> True | _ \<Rightarrow> False),
     j_is_boolean = (\<lambda>j. case j of DBool _ \<Rightarrow> True | _ \<Rightarrow> False),
     j_is_number = (\<lambda>j. case j of DNum _ \<Rightarrow> True | _ \<Rightarrow> False),
     j_is_string = (\<lambda>j. case j of DStr _ \<Rightarrow> True | _ \<Rightarrow> False),
     j_get_bool = (\<lambda>j. case j of DBool b \<Rightarrow> Inr b | _ \<Rightarrow> Inl JsonError),
     j_get_nonzero = (\<lambda>j. case j of DNum i \<Rightarrow> Inr (i \<noteq> 0) | _ \<Rightarrow> Inl JsonError),
     j_get_string = (\<lambda>j. case j of DStr t \<Rightarrow> Inr t | _ \<Rightarrow> Inl JsonError),
     j_get_int64 = (\<lambda>j. case j of DNum i \<Rightarrow> Inr i | DBool b \<Rightarrow> Inr (of_bool b) | _ \<Rightarrow> Inl JsonError),
     j_dump = (\<lambda>j. case position j tab of Some i \<Rightarrow> (replicate i NUL, None) | None \<Rightarrow> ([], Some JsonError)),
     j_parse = (\<lambda>t. if 0 < length t \<and> length t \<le> length tab then Inr (tab ! (length t - 1)) else Inl JsonError)\<rparr>"


lemma demo_json_laws:
  "json_set_law (demo_json tab)" "json_items_law (demo_json tab)" "json_value_law (demo_json tab)" "json_dump_law (demo_json tab)"
  by (auto simp: json_set_law_def json_items_law_def json_value_law_def json_dump_law_def demo_json_def d_set_def d_find_def
    update_conv distinct_clearjunk map_of_clearjunk fun_eq_iff dest!: position_Some split: djson.splits option.splits)

end
