(* ===== verification/Run_Files.thy ===== *)
theory Run_Files
  imports Run_Std "HOL-Library.AList"
begin

text \<open>
  \<open>std::filesystem\<close> as the runner uses it, and \<open>create_dir_in_path\<close> of \<open>fij_core.cpp\<close>.

  The file system is a list of paths with what is there; a path is compared as a string, so two
  spellings of one file are two paths (the runner never mixes spellings). The order of the list is
  the order in which a directory is listed, which POSIX leaves open. \<open>refusal\<close> is the rest of the
  operating system: which operation on which path fails, and with which errno.
\<close>

section \<open>Paths\<close>

definition path_filename :: "string \<Rightarrow> string" where
  "path_filename p = rev (takeWhile (\<lambda>c. c \<noteq> CHR ''/'') (rev p))"

definition path_parent :: "string \<Rightarrow> string" where
  "path_parent p = rev (drop 1 (dropWhile (\<lambda>c. c \<noteq> CHR ''/'') (rev p)))"

text \<open>\<open>p / q\<close>.\<close>

definition path_join :: "string \<Rightarrow> string \<Rightarrow> string" where
  "path_join p q =
     (if q \<noteq> [] \<and> hd q = CHR ''/'' then q
      else if p = [] \<or> last p = CHR ''/'' then p @ q
      else p @ ''/'' @ q)"

definition path_extension :: "string \<Rightarrow> string" where
  "path_extension p =
     (let f = path_filename p; r = takeWhile (\<lambda>c. c \<noteq> CHR ''.'') (rev f)
      in if f = ''.'' \<or> f = ''..'' \<or> length f \<le> length r + 1 then [] else CHR ''.'' # rev r)"

definition path_stem :: "string \<Rightarrow> string" where
  "path_stem p = (let f = path_filename p in take (length f - length (path_extension p)) f)"

definition fs_absolute :: "string \<Rightarrow> string \<Rightarrow> string" where
  "fs_absolute cwd p = path_join cwd p"

text \<open>A name of one component.\<close>

definition plain :: "string \<Rightarrow> bool" where
  "plain q \<longleftrightarrow> CHR ''/'' \<notin> set q"

text \<open>A path to which a name can be joined.\<close>

definition joinable :: "string \<Rightarrow> bool" where
  "joinable p \<longleftrightarrow> p \<noteq> [] \<and> last p \<noteq> CHR ''/''"

lemma path_join_plain: "plain q \<Longrightarrow> joinable p \<Longrightarrow> path_join p q = p @ ''/'' @ q"
  by (cases q) (auto simp: path_join_def plain_def joinable_def)

lemma takeWhile_plain: "plain q \<Longrightarrow> takeWhile (\<lambda>c. c \<noteq> CHR ''/'') (rev q @ CHR ''/'' # r) = rev q"
  by (subst takeWhile_append2) (auto simp: plain_def)

lemma dropWhile_plain: "plain q \<Longrightarrow> dropWhile (\<lambda>c. c \<noteq> CHR ''/'') (rev q @ CHR ''/'' # r) = CHR ''/'' # r"
  by (subst dropWhile_append2) (auto simp: plain_def)

lemma filename_join: "plain q \<Longrightarrow> joinable p \<Longrightarrow> path_filename (path_join p q) = q"
  by (simp add: path_join_plain path_filename_def takeWhile_plain)

lemma parent_join: "plain q \<Longrightarrow> joinable p \<Longrightarrow> path_parent (path_join p q) = p"
  by (simp add: path_join_plain path_parent_def dropWhile_plain)

lemma path_join_inject:
  "plain q \<Longrightarrow> plain q' \<Longrightarrow> joinable p \<Longrightarrow> joinable p' \<Longrightarrow>
     path_join p q = path_join p' q' \<longleftrightarrow> p = p' \<and> q = q'"
  by (metis filename_join parent_join)

lemma plain_digits: "2 \<le> b \<Longrightarrow> b \<le> 16 \<Longrightarrow> plain (digits_in b n)"
proof (induction b n rule: digits_in.induct)
  case (1 b n)
  have "digit_value (CHR ''/'') = None" by (simp add: digit_value_def)
  with digit_value_digit have d: "k < 16 \<Longrightarrow> plain [digit k]" for k
    by (auto simp: plain_def)
  show ?case
  proof (cases "n < b")
    case True
    with 1 d [of n] show ?thesis by (simp add: digits_in.simps)
  next
    case False
    from 1 have "n mod b < 16" using mod_less_divisor [of b n] by linarith
    with False 1 d [of "n mod b"] show ?thesis by (simp add: digits_in.simps [of b n] plain_def)
  qed
qed

lemma plain_to_string: "plain (to_string i)"
  using plain_digits [of 10] by (auto simp: to_string_def plain_def)

lemma plain_append [simp]: "plain (p @ q) \<longleftrightarrow> plain p \<and> plain q"
  by (auto simp: plain_def)

section \<open>The file system\<close>

datatype node = Dir | File string

type_synonym disk = "(string \<times> node) list"

datatype fsop = OpStat | OpMkdir | OpRead | OpWrite | OpList | OpRemove

type_synonym refusal = "fsop \<Rightarrow> string \<Rightarrow> int option"

definition EEXIST :: int where "EEXIST = 17"

definition ENOTDIR :: int where "ENOTDIR = 20"

definition fs_exists :: "refusal \<Rightarrow> string \<Rightarrow> disk \<Rightarrow> exn + bool" where
  "fs_exists R p d = (case R OpStat p of Some e \<Rightarrow> Inl (SystemError e)
     | None \<Rightarrow> Inr (map_of d p \<noteq> None))"

text \<open>\<open>create_directory(p, ec)\<close>: \<open>true\<close>; \<open>false\<close> and no error, for a directory that is there; \<open>false\<close>
  and an error.\<close>

datatype mkdir_result = Created | Existed | NotCreated int

definition fs_create_directory :: "refusal \<Rightarrow> string \<Rightarrow> disk \<Rightarrow> mkdir_result \<times> disk" where
  "fs_create_directory R p d = (case R OpMkdir p of
       Some e \<Rightarrow> (NotCreated e, d)
     | None \<Rightarrow> (case map_of d p of
           Some Dir \<Rightarrow> (Existed, d)
         | Some (File _) \<Rightarrow> (NotCreated EEXIST, d)
         | None \<Rightarrow>
             if path_parent p \<noteq> [] \<and> map_of d (path_parent p) = None then (NotCreated ENOENT, d)
             else if path_parent p \<noteq> [] \<and> map_of d (path_parent p) \<noteq> Some Dir then (NotCreated ENOTDIR, d)
             else (Created, AList.update p Dir d)))"

definition path_prefixes :: "string \<Rightarrow> string list" where
  "path_prefixes p = map (\<lambda>i. take i p)
     (filter (\<lambda>i. 0 < i \<and> (i = length p \<or> p ! i = CHR ''/'')) [0..<length p + 1])"

definition fs_create_directories :: "refusal \<Rightarrow> string \<Rightarrow> disk \<Rightarrow> (exn + unit) \<times> disk" where
  "fs_create_directories R p d = foldl
     (\<lambda>(r, d) q. case r of Inl e \<Rightarrow> (Inl e, d)
        | Inr _ \<Rightarrow> if map_of d q = Some Dir then (Inr (), d)
            else (case fs_create_directory R q d of
                (NotCreated e, d) \<Rightarrow> (Inl (SystemError e), d) | (_, d) \<Rightarrow> (Inr (), d)))
     (Inr (), d) (path_prefixes p)"

text \<open>What an \<open>ifstream\<close> on \<open>p\<close> reads; \<open>None\<close> is a stream that has failed to open.\<close>

definition fs_read :: "refusal \<Rightarrow> string \<Rightarrow> disk \<Rightarrow> string option" where
  "fs_read R p d = (case R OpRead p of Some _ \<Rightarrow> None
     | None \<Rightarrow> (case map_of d p of Some (File c) \<Rightarrow> Some c | _ \<Rightarrow> None))"

text \<open>An \<open>ofstream\<close> on \<open>p\<close>; one that does not open swallows what is written.\<close>

definition fs_write :: "refusal \<Rightarrow> string \<Rightarrow> string \<Rightarrow> disk \<Rightarrow> disk" where
  "fs_write R p c d =
     (if R OpWrite p \<noteq> None \<or> map_of d p = Some Dir \<or>
         (path_parent p \<noteq> [] \<and> map_of d (path_parent p) \<noteq> Some Dir) then d
      else AList.update p (File c) d)"

definition fs_copy_file :: "refusal \<Rightarrow> string \<Rightarrow> string \<Rightarrow> disk \<Rightarrow> (exn + unit) \<times> disk" where
  "fs_copy_file R src dst d = (case fs_read R src d of
       None \<Rightarrow> (Inl (SystemError (case R OpRead src of Some e \<Rightarrow> e | None \<Rightarrow> ENOENT)), d)
     | Some c \<Rightarrow>
         if R OpWrite dst \<noteq> None then (Inl (SystemError (the (R OpWrite dst))), d)
         else if map_of d dst = Some Dir \<or>
             (path_parent dst \<noteq> [] \<and> map_of d (path_parent dst) \<noteq> Some Dir)
           then (Inl (SystemError ENOENT), d)
         else (Inr (), AList.update dst (File c) d))"

definition fs_list :: "refusal \<Rightarrow> string \<Rightarrow> disk \<Rightarrow> exn + string list" where
  "fs_list R p d = (case R OpList p of Some e \<Rightarrow> Inl (SystemError e)
     | None \<Rightarrow> if map_of d p = Some Dir then Inr (filter (\<lambda>q. path_parent q = p) (remdups (map fst d)))
         else Inl (SystemError ENOENT))"

definition fs_remove_all :: "refusal \<Rightarrow> string \<Rightarrow> disk \<Rightarrow> (exn + unit) \<times> disk" where
  "fs_remove_all R p d = (case R OpRemove p of Some e \<Rightarrow> (Inl (SystemError e), d)
     | None \<Rightarrow> (Inr (), filter (\<lambda>(q, _). q \<noteq> p \<and> take (length p + 1) q \<noteq> p @ ''/'') d))"

section \<open>create-dir-in-path\<close>

text \<open>The loop of lines 264 to 275. A name for which \<open>mkdir\<close> always answers \<open>EEXIST\<close> would keep it
  going; the counter is an \<open>int\<close>.\<close>

partial_function (option) mkdir_loop ::
  "refusal \<Rightarrow> string \<Rightarrow> string \<Rightarrow> string \<Rightarrow> string \<Rightarrow> int \<Rightarrow> disk \<Rightarrow> ((exn + string) \<times> disk) option" where
  "mkdir_loop R cwd base_path final_folder candidate i d =
     (let target = path_join base_path candidate
      in case fs_create_directory R (fs_absolute cwd target) d of
           (Created, d) \<Rightarrow> Some (Inr (fs_absolute cwd target), d)
         | (Existed, d) \<Rightarrow>
             mkdir_loop R cwd base_path final_folder (final_folder @ ''('' @ to_string i @ '')'') (i + 1) d
         | (NotCreated e, d) \<Rightarrow>
             if e \<noteq> EEXIST then Some (Inl (SystemError e), d)
             else mkdir_loop R cwd base_path final_folder (final_folder @ ''('' @ to_string i @ '')'') (i + 1) d)"

definition create_dir_in_path ::
  "refusal \<Rightarrow> string \<Rightarrow> string \<Rightarrow> string \<Rightarrow> disk \<Rightarrow> ((exn + string) \<times> disk) option" where
  "create_dir_in_path R cwd base_path final_folder d =
     (case fs_create_directories R (fs_absolute cwd base_path) d of
        (Inl e, d) \<Rightarrow> Some (Inl e, d)
      | (Inr _, d) \<Rightarrow> mkdir_loop R cwd base_path final_folder final_folder 1 d)"

text \<open>The candidate of the \<open>n\<close>-th attempt.\<close>

definition candidate :: "string \<Rightarrow> nat \<Rightarrow> string" where
  "candidate final_folder n =
     (if n = 0 then final_folder else final_folder @ ''('' @ to_string (int n) @ '')'')"


lemma candidate_inject: "candidate f m = candidate f n \<longleftrightarrow> m = n"
  by (auto simp: candidate_def to_string_inject)

lemma candidate_plain: "plain f \<Longrightarrow> plain (candidate f n)"
  using plain_to_string [of "int n"] by (auto simp: candidate_def plain_def)

text \<open>An operation that only adds to the file system.\<close>

definition disk_grows :: "disk \<Rightarrow> disk \<Rightarrow> bool" where
  "disk_grows d d' \<longleftrightarrow> (\<forall>q n. map_of d q = Some n \<longrightarrow> map_of d' q = Some n)"

lemma disk_grows_refl [simp]: "disk_grows d d"
  by (simp add: disk_grows_def)

lemma disk_grows_trans: "disk_grows d d1 \<Longrightarrow> disk_grows d1 d2 \<Longrightarrow> disk_grows d d2"
  by (simp add: disk_grows_def)

lemma disk_grows_update: "map_of d p = None \<Longrightarrow> disk_grows d (AList.update p n d)"
  by (auto simp: disk_grows_def update_conv)

lemma create_directory_grows: "disk_grows d (snd (fs_create_directory R p d))"
  by (auto simp: fs_create_directory_def disk_grows_update split: option.splits node.splits)

lemma create_directories_grow: "disk_grows d (snd (fs_create_directories R p d))"
proof -
  define go where "go = (\<lambda>(r :: exn + unit, d) q. case r of Inl e \<Rightarrow> (Inl e, d)
        | Inr _ \<Rightarrow> if map_of d q = Some Dir then (Inr (), d)
            else (case fs_create_directory R q d of
                (NotCreated e, d) \<Rightarrow> (Inl (SystemError e), d) | (_, d) \<Rightarrow> (Inr (), d)))"
  have one: "disk_grows (snd x) (snd (go x q))" for x q
    using create_directory_grows [of "snd x" R q]
    by (auto simp: go_def split: sum.splits prod.splits mkdir_result.splits)
  have "disk_grows (snd x) (snd (foldl go x qs))" for x qs
  proof (induction qs arbitrary: x)
    case (Cons q qs)
    from disk_grows_trans [OF one Cons.IH] show ?case by simp
  qed simp
  from this [of "(Inr (), d)" "path_prefixes p"] show ?thesis
    by (simp add: fs_create_directories_def go_def)
qed

text \<open>What is asked of the arguments: the folder is one component and the directory a proper path.\<close>

definition dir_args :: "string \<Rightarrow> string \<Rightarrow> string \<Rightarrow> bool" where
  "dir_args cwd base_path f \<longleftrightarrow> plain f \<and> joinable base_path \<and> joinable (fs_absolute cwd base_path)"

lemma absolute_join:
  assumes "dir_args cwd base_path f"
  shows "fs_absolute cwd (path_join base_path (candidate f n)) =
    path_join (fs_absolute cwd base_path) (candidate f n)"
  using assms candidate_plain [of f n]
  by (auto simp: dir_args_def path_join_plain) (auto simp: fs_absolute_def path_join_def joinable_def)

text \<open>The operating system never answers \<open>EEXIST\<close> for a name that is not there.\<close>

definition no_false_eexist :: "refusal \<Rightarrow> bool" where
  "no_false_eexist R \<longleftrightarrow> (\<forall>q. R OpMkdir q \<noteq> Some EEXIST)"

lemma no_false_eexistD: "no_false_eexist R \<Longrightarrow> R OpMkdir q = Some e \<Longrightarrow> e \<noteq> EEXIST"
  by (auto simp: no_false_eexist_def)

lemma create_directory_Created:
  "fs_create_directory R p d = (Created, d') \<Longrightarrow> map_of d p = None \<and> d' = AList.update p Dir d"
  by (auto simp: fs_create_directory_def split: option.splits node.splits if_split_asm)

lemma create_directory_Existed:
  "fs_create_directory R p d = (Existed, d') \<Longrightarrow> map_of d p \<noteq> None \<and> d' = d"
  by (auto simp: fs_create_directory_def split: option.splits node.splits if_split_asm)

lemma create_directory_NotCreated:
  "fs_create_directory R p d = (NotCreated e, d') \<Longrightarrow> no_false_eexist R \<Longrightarrow>
     d' = d \<and> (e = EEXIST \<longrightarrow> map_of d p \<noteq> None)"
  by (auto simp: fs_create_directory_def EEXIST_def ENOTDIR_def no_false_eexist_def
    split: option.splits node.splits if_split_asm)

definition fresh_dir :: "string \<Rightarrow> string \<Rightarrow> nat \<Rightarrow> disk \<Rightarrow> exn + string \<Rightarrow> disk \<Rightarrow> bool" where
  "fresh_dir B f n d r d' \<longleftrightarrow> (case r of
       Inl e \<Rightarrow> d' = d
     | Inr p \<Rightarrow> \<exists>m \<ge> n. p = path_join B (candidate f m) \<and> map_of d p = None \<and> d' = AList.update p Dir d \<and>
         (\<forall>k. n \<le> k \<and> k < m \<longrightarrow> map_of d (path_join B (candidate f k)) \<noteq> None))"

lemma fresh_dir_next:
  assumes "map_of d (path_join B (candidate f n)) \<noteq> None" "fresh_dir B f (Suc n) d r d'"
  shows "fresh_dir B f n d r d'"
proof (cases r)
  case (Inr p)
  with assms(2) obtain m where m: "Suc n \<le> m" "p = path_join B (candidate f m)" "map_of d p = None"
      "d' = AList.update p Dir d"
      "\<And>k. Suc n \<le> k \<Longrightarrow> k < m \<Longrightarrow> map_of d (path_join B (candidate f k)) \<noteq> None"
    by (auto simp: fresh_dir_def)
  have "map_of d (path_join B (candidate f k)) \<noteq> None" if "n \<le> k" "k < m" for k
    using that assms(1) m(5) by (cases "k = n") auto
  with Inr m show ?thesis by (auto simp: fresh_dir_def intro!: exI [of _ m])
qed (use assms in \<open>simp add: fresh_dir_def\<close>)

lemma mkdir_loop_fresh:
  assumes args: "dir_args cwd base_path f" and "no_false_eexist R"
  shows "wp (mkdir_loop R cwd base_path f (candidate f n) (int n + 1) d)
    (\<lambda>(r, d'). fresh_dir (fs_absolute cwd base_path) f n d r d')"
proof (induction "card {k. n \<le> k \<and> map_of d (path_join (fs_absolute cwd base_path) (candidate f k)) \<noteq> None}"
    arbitrary: n rule: less_induct)
  case less
  let ?B = "fs_absolute cwd base_path"
  let ?used = "\<lambda>n. {k. n \<le> k \<and> map_of d (path_join ?B (candidate f k)) \<noteq> None}"
  let ?t = "path_join ?B (candidate f n)"
  have plain: "plain (candidate f k)" "joinable ?B" for k
    using args candidate_plain by (auto simp: dir_args_def)
  have "inj (\<lambda>k. path_join ?B (candidate f k))"
    using plain by (auto simp: inj_def path_join_inject candidate_inject)
  moreover have "?used n \<subseteq> (\<lambda>k. path_join ?B (candidate f k)) -` (fst ` set d)"
    by (auto simp: map_of_eq_None_iff)
  ultimately have fin: "finite (?used n)"
    by (meson finite_vimageI finite_imageI finite_set finite_subset)
  have next_try: "wp (mkdir_loop R cwd base_path f (f @ ''('' @ to_string (int n + 1) @ '')'')
      (int n + 1 + 1) d) (\<lambda>(r, d'). fresh_dir ?B f n d r d')" if used: "map_of d ?t \<noteq> None"
  proof -
    have "n \<in> ?used n" "n \<notin> ?used (Suc n)" "?used (Suc n) \<subseteq> ?used n" using used by auto
    then have "?used (Suc n) \<subset> ?used n" by blast
    then have "card (?used (Suc n)) < card (?used n)" using fin by (rule psubset_card_mono [rotated])
    from less [OF this] have "wp (mkdir_loop R cwd base_path f (f @ ''('' @ to_string (int n + 1) @ '')'')
        (int n + 1 + 1) d) (\<lambda>(r, d'). fresh_dir ?B f (Suc n) d r d')"
      by (simp add: candidate_def add.commute)
    then show ?thesis by (rule wp_mono) (auto intro: fresh_dir_next [OF used])
  qed
  obtain r d' where mk: "fs_create_directory R ?t d = (r, d')" by force
  show ?case
  proof (cases r)
    case Created
    with mk create_directory_Created have new: "map_of d ?t = None" "d' = AList.update ?t Dir d" by blast+
    then have "fresh_dir ?B f n d (Inr ?t) d'" by (auto simp: fresh_dir_def)
    with Created mk show ?thesis
      by (subst mkdir_loop.simps) (simp add: absolute_join [OF args] Let_def)
  next
    case Existed
    with mk create_directory_Existed have "map_of d ?t \<noteq> None" "d' = d" by blast+
    with mk next_try Existed show ?thesis
      by (subst mkdir_loop.simps) (simp add: absolute_join [OF args] Let_def)
  next
    case (NotCreated e)
    with mk create_directory_NotCreated assms(2) have "d' = d" "e = EEXIST \<Longrightarrow> map_of d ?t \<noteq> None" by blast+
    moreover have "fresh_dir ?B f n d (Inl (SystemError e)) d" by (simp add: fresh_dir_def)
    ultimately show ?thesis using mk next_try NotCreated
      by (subst mkdir_loop.simps) (simp add: absolute_join [OF args] Let_def)
  qed
qed

lemma create_dir_fresh:
  assumes "dir_args cwd base_path f" and "no_false_eexist R"
  shows "wp (create_dir_in_path R cwd base_path f d) (\<lambda>(r, d'). disk_grows d d' \<and>
    (case r of Inl e \<Rightarrow> True | Inr p \<Rightarrow> map_of d p = None \<and> map_of d' p = Some Dir))"
proof (cases "fs_create_directories R (fs_absolute cwd base_path) d")
  case (Pair r d1)
  with create_directories_grow [of d R "fs_absolute cwd base_path"] have grow: "disk_grows d d1" by simp
  show ?thesis
  proof (cases r)
    case (Inr u)
    have "wp (mkdir_loop R cwd base_path f f 1 d1) (\<lambda>(r, d'). fresh_dir (fs_absolute cwd base_path) f 0 d1 r d')"
      using mkdir_loop_fresh [OF assms, of 0 d1] by (simp add: candidate_def)
    then have "wp (mkdir_loop R cwd base_path f f 1 d1) (\<lambda>(r, d'). disk_grows d d' \<and>
        (case r of Inl e \<Rightarrow> True | Inr p \<Rightarrow> map_of d p = None \<and> map_of d' p = Some Dir))"
    proof (rule wp_mono, clarify, intro conjI)
      fix r d'
      assume fresh: "fresh_dir (fs_absolute cwd base_path) f 0 d1 r d'"
      then have "disk_grows d1 d'" by (auto simp: fresh_dir_def disk_grows_update split: sum.splits)
      with grow show "disk_grows d d'" by (rule disk_grows_trans)
      show "case r of Inl e \<Rightarrow> True | Inr p \<Rightarrow> map_of d p = None \<and> map_of d' p = Some Dir"
        using fresh grow
        by (auto simp: fresh_dir_def disk_grows_def update_conv split: sum.splits)
          (metis not_None_eq)
    qed
    with Pair Inr show ?thesis by (simp add: create_dir_in_path_def)
  qed (use Pair grow in \<open>simp add: create_dir_in_path_def\<close>)
qed

end
