(* ===== verification/Run_Core.thy ===== *)
theory Run_Core
  imports Fij_Types Run_Json Run_Files
begin

text \<open>
  \<open>fij.hpp\<close> and \<open>fij_core.cpp\<close> of the runner: the \<open>char\<close> arrays of \<open>struct fij_params\<close>, register names,
  the defaults of the parameters, configuration values, the log of one injection. The architecture,
  which the C preprocessor selects, is an argument; \<open>create_dir_in_path\<close> is in \<open>Run_Files\<close>.
\<close>

section \<open>Arrays of char\<close>

text \<open>\<open>strnlen\<close> stops at the first NUL or at the end of the array.\<close>

definition cstr_from_fixed :: "string \<Rightarrow> string" where
  "cstr_from_fixed buf = takeWhile (\<lambda>c. c \<noteq> NUL) buf"

text \<open>The array before the call is the first argument, its length is \<open>N\<close>.\<close>

definition set_cstring :: "string \<Rightarrow> string \<Rightarrow> string" where
  "set_cstring field val =
     (let max_len = length field;
          len = length val;
          len = (if len \<ge> max_len then max_len - 1 else len);
          field = take len val @ drop len field;
          field = field[len := NUL]
      in if len + 1 < max_len
         then take (len + 1) field @ replicate (max_len - len - 1) NUL
         else field)"

lemma set_cstring_bytes:
  "field \<noteq> [] \<Longrightarrow> set_cstring field val =
     take (length field - 1) val @ replicate (length field - min (length val) (length field - 1)) NUL"
proof -
  assume "field \<noteq> []"
  then obtain k where k: "length field = Suc k" by (cases field) auto
  define w where "w = take k val"
  have w: "length w \<le> k" "length w = min (length val) k" by (simp_all add: w_def)
  then have len: "(if Suc k \<le> length val then Suc k - 1 else length val) = length w" by auto
  have tk: "take (length w) val = w" by (simp add: w_def min_def)
  obtain c r where c: "drop (length w) field = c # r"
    using w(1) k by (cases "drop (length w) field") auto
  have r: "length r = k - length w" by (metis c k diff_Suc_1 length_drop length_tl list.sel(3) diff_commute)
  have "(w @ c # r)[length w := NUL] = w @ NUL # r" by (simp add: list_update_append)
  then have "set_cstring field val = (if length w + 1 < Suc k
      then w @ NUL # replicate (Suc k - length w - 1) NUL else w @ NUL # r)"
    unfolding set_cstring_def Let_def k len tk c by simp
  also have "\<dots> = w @ replicate (Suc k - length w) NUL"
    using w(1) r by (auto simp: Suc_diff_le)
  finally show ?thesis using k w by (simp add: w_def)
qed

text \<open>A field of \<open>fij_params\<close> is the string up to its NUL: what a write of \<open>val\<close> into an array of
  \<open>n\<close> bytes leaves there.\<close>

definition put_cstring :: "nat \<Rightarrow> string \<Rightarrow> string" where
  "put_cstring n val = cstr_from_fixed (set_cstring (replicate n NUL) val)"

lemma cstr_set_cstring:
  assumes "field \<noteq> []"
  shows "cstr_from_fixed (set_cstring field val) = takeWhile (\<lambda>c. c \<noteq> NUL) (take (length field - 1) val)"
proof -
  have "takeWhile (\<lambda>c. c \<noteq> NUL) (s @ replicate k NUL) = takeWhile (\<lambda>c. c \<noteq> NUL) s" for s :: string and k
    by (induction s) (cases k, auto)
  then show ?thesis using assms by (simp add: cstr_from_fixed_def set_cstring_bytes)
qed

lemma put_cstring: "0 < n \<Longrightarrow> put_cstring n val = takeWhile (\<lambda>c. c \<noteq> NUL) (take (n - 1) val)"
  by (simp add: put_cstring_def cstr_set_cstring)

text \<open>A string that fits and holds no NUL comes back; whatever is stored fills the whole array,
  ends with a NUL and does not depend on what was there.\<close>

theorem set_cstring_roundtrip:
  assumes "field \<noteq> []"
  shows "length (set_cstring field val) = length field \<and> last (set_cstring field val) = NUL \<and>
    cstr_from_fixed (set_cstring field val) = takeWhile (\<lambda>c. c \<noteq> NUL) (take (length field - 1) val) \<and>
    (length field' = length field \<longrightarrow> set_cstring field' val = set_cstring field val) \<and>
    (length val < length field \<and> NUL \<notin> set val \<longrightarrow> cstr_from_fixed (set_cstring field val) = val)"
proof -
  obtain k where k: "length field = Suc k" using assms by (cases field) auto
  then have "Suc k - min (length val) k = Suc (k - min (length val) k)" by simp
  then have rep: "replicate (Suc k - min (length val) k) NUL = replicate (k - min (length val) k) NUL @ [NUL]"
    by (simp only: replicate_append_same replicate_Suc)
  have "length (set_cstring field val) = length field \<and> last (set_cstring field val) = NUL"
    using assms k rep by (simp add: set_cstring_bytes)
  moreover have "length field' = length field \<longrightarrow> set_cstring field' val = set_cstring field val"
  proof
    assume "length field' = length field"
    with assms have "field' \<noteq> []" by auto
    with assms \<open>length field' = length field\<close> show "set_cstring field' val = set_cstring field val"
      by (simp add: set_cstring_bytes)
  qed
  moreover have "length val < length field \<and> NUL \<notin> set val \<longrightarrow>
      takeWhile (\<lambda>c. c \<noteq> NUL) (take (length field - 1) val) = val"
    using k by (auto simp: takeWhile_eq_all_conv)
  ultimately show ?thesis using assms by (simp add: cstr_set_cstring)
qed

theorem set_cstring_roundtrip_witness:
  "set_cstring ''abcd'' ''xyz12'' = ''xyz'' @ [NUL] \<and> cstr_from_fixed (set_cstring ''abcd'' ''xy'') = ''xy''"
  using set_cstring_roundtrip [of "''abcd''" "''xy''" "[]"]
  by (simp add: set_cstring_def)

definition set_process_name_from_path :: "fij_params \<Rightarrow> fij_params" where
  "set_process_name_from_path p =
     (let path = process_path p
      in if path = [] then p else p\<lparr>process_name := put_cstring 256 (path_filename path)\<rparr>)"

section \<open>Register names\<close>

definition x86_reg_ids :: "(string \<times> int) list" where
  "x86_reg_ids =
    [(''rax'', x86_id RAX), (''rbx'', x86_id RBX), (''rcx'', x86_id RCX),
     (''rdx'', x86_id RDX), (''rsi'', x86_id RSI), (''rdi'', x86_id RDI),
     (''rbp'', x86_id RBP), (''rsp'', x86_id RSP), (''pc'', x86_id RIP),
     (''rip'', x86_id RIP), (''r8'', x86_id R8), (''r9'', x86_id R9),
     (''r10'', x86_id R10), (''r11'', x86_id R11), (''r12'', x86_id R12),
     (''r13'', x86_id R13), (''r14'', x86_id R14), (''r15'', x86_id R15)]"

definition arm64_reg_ids :: "(string \<times> int) list" where
  "arm64_reg_ids =
    [(''x0'', arm64_id X0), (''x1'', arm64_id X1), (''x2'', arm64_id X2),
     (''x3'', arm64_id X3), (''x4'', arm64_id X4), (''x5'', arm64_id X5),
     (''x6'', arm64_id X6), (''x7'', arm64_id X7), (''x8'', arm64_id X8),
     (''x9'', arm64_id X9), (''x10'', arm64_id X10), (''x11'', arm64_id X11),
     (''x12'', arm64_id X12), (''x13'', arm64_id X13), (''x14'', arm64_id X14),
     (''x15'', arm64_id X15), (''x16'', arm64_id X16), (''x17'', arm64_id X17),
     (''x18'', arm64_id X18), (''x19'', arm64_id X19), (''x20'', arm64_id X20),
     (''x21'', arm64_id X21), (''x22'', arm64_id X22), (''x23'', arm64_id X23),
     (''x24'', arm64_id X24), (''x25'', arm64_id X25), (''x26'', arm64_id X26),
     (''x27'', arm64_id X27), (''x28'', arm64_id X28), (''x29'', arm64_id X29),
     (''x30'', arm64_id X30), (''fp'', arm64_id X29), (''lr'', arm64_id X30),
     (''sp'', arm64_id ASP), (''pc'', arm64_id APC)]"

definition riscv_reg_ids :: "(string \<times> int) list" where
  "riscv_reg_ids =
    [(''zero'', riscv_id ZERO), (''x0'', riscv_id ZERO), (''ra'', riscv_id RA),
     (''x1'', riscv_id RA), (''sp'', riscv_id SP), (''x2'', riscv_id SP),
     (''gp'', riscv_id GP), (''x3'', riscv_id GP), (''tp'', riscv_id TP),
     (''x4'', riscv_id TP), (''t0'', riscv_id T0), (''x5'', riscv_id T0),
     (''t1'', riscv_id T1), (''x6'', riscv_id T1), (''t2'', riscv_id T2),
     (''x7'', riscv_id T2), (''s0'', riscv_id S0), (''fp'', riscv_id S0),
     (''x8'', riscv_id S0), (''s1'', riscv_id S1), (''x9'', riscv_id S1),
     (''a0'', riscv_id A0), (''x10'', riscv_id A0), (''a1'', riscv_id A1),
     (''x11'', riscv_id A1), (''a2'', riscv_id A2), (''x12'', riscv_id A2),
     (''a3'', riscv_id A3), (''x13'', riscv_id A3), (''a4'', riscv_id A4),
     (''x14'', riscv_id A4), (''a5'', riscv_id A5), (''x15'', riscv_id A5),
     (''a6'', riscv_id A6), (''x16'', riscv_id A6), (''a7'', riscv_id A7),
     (''x17'', riscv_id A7), (''s2'', riscv_id S2), (''x18'', riscv_id S2),
     (''s3'', riscv_id S3), (''x19'', riscv_id S3), (''s4'', riscv_id S4),
     (''x20'', riscv_id S4), (''s5'', riscv_id S5), (''x21'', riscv_id S5),
     (''s6'', riscv_id S6), (''x22'', riscv_id S6), (''s7'', riscv_id S7),
     (''x23'', riscv_id S7), (''s8'', riscv_id S8), (''x24'', riscv_id S8),
     (''s9'', riscv_id S9), (''x25'', riscv_id S9), (''s10'', riscv_id S10),
     (''x26'', riscv_id S10), (''s11'', riscv_id S11), (''x27'', riscv_id S11),
     (''t3'', riscv_id T3), (''x28'', riscv_id T3), (''t4'', riscv_id T4),
     (''x29'', riscv_id T4), (''t5'', riscv_id T5), (''x30'', riscv_id T5),
     (''t6'', riscv_id T6), (''x31'', riscv_id T6), (''pc'', riscv_id PC)]"

definition reg_name_to_id :: "arch \<Rightarrow> string \<Rightarrow> int" where
  "reg_name_to_id A nm =
     (case map_of (case A of CONFIG_X86 \<Rightarrow> x86_reg_ids | CONFIG_ARM64 \<Rightarrow> arm64_reg_ids
         | CONFIG_RISCV \<Rightarrow> riscv_reg_ids | CONFIG_NONE \<Rightarrow> []) nm of
        None \<Rightarrow> 0 | Some i \<Rightarrow> i)"

text \<open>What is checked of each register: its reported name in lower case is accepted, the name
  as it is reported is accepted on RISC-V only.\<close>

definition name_ok :: "arch \<Rightarrow> int \<Rightarrow> bool" where
  "name_ok A i \<longleftrightarrow> reg_name_to_id A (map c_tolower (fij_reg_name A i)) = i \<and>
     reg_name_to_id A (fij_reg_name A i) = (if A = CONFIG_RISCV then i else 0)"

lemma list_all_upto: "list_all P [a..b] \<Longrightarrow> a \<le> i \<and> i \<le> b \<Longrightarrow> P (i :: int)"
  by (simp add: list_all_iff)

lemma name_ok_x86: "list_all (name_ok CONFIG_X86) [1..17]"
  by code_simp

lemma name_ok_arm64: "list_all (name_ok CONFIG_ARM64) [1..16]" "list_all (name_ok CONFIG_ARM64) [17..33]"
  by code_simp+

lemma name_ok_riscv: "list_all (name_ok CONFIG_RISCV) [1..16]" "list_all (name_ok CONFIG_RISCV) [17..33]"
  by code_simp+

lemma reg_ids_range:
  "list_all (\<lambda>p. 1 \<le> snd p \<and> snd p < 18) x86_reg_ids"
  "list_all (\<lambda>p. 1 \<le> snd p \<and> snd p < 34) arm64_reg_ids"
  "list_all (\<lambda>p. 1 \<le> snd p \<and> snd p < 34) riscv_reg_ids"
  by code_simp+

lemma map_of_range: "list_all (\<lambda>p. P (snd p)) l \<Longrightarrow> map_of l k = Some v \<Longrightarrow> P v"
  by (auto simp: list_all_iff dest!: map_of_SomeD)

lemma reg_name_to_id_range: "0 \<le> reg_name_to_id A nm \<and> reg_name_to_id A nm < reg_max A"
  by (cases A) (auto simp: reg_name_to_id_def reg_max_def split: option.splits
    dest: map_of_range [OF reg_ids_range(1)] map_of_range [OF reg_ids_range(2)] map_of_range [OF reg_ids_range(3)])

text \<open>C39: Every register of the module can be named in a configuration by its reported name in lower
  case, every accepted name is an identifier of the architecture, and any other string silently becomes
  \<open>FIJ_REG_NONE\<close>, a random register: on x86 and ARM64 this includes the names as the results report them.\<close>

theorem reg_name_roundtrip:
  assumes "1 \<le> i" and "i < reg_max A"
  shows "reg_name_to_id A (map c_tolower (fij_reg_name A i)) = i \<and>
    reg_name_to_id A (fij_reg_name A i) = (if A = CONFIG_RISCV then i else 0) \<and>
    0 \<le> reg_name_to_id A nm \<and> reg_name_to_id A nm < reg_max A"
proof -
  have "name_ok A i"
  proof (cases A)
    case CONFIG_X86
    with assms list_all_upto [OF name_ok_x86] show ?thesis by (simp add: reg_max_def)
  next
    case CONFIG_ARM64
    with assms list_all_upto [OF name_ok_arm64(1)] list_all_upto [OF name_ok_arm64(2)]
    show ?thesis by (cases "i \<le> 16") (simp_all add: reg_max_def)
  next
    case CONFIG_RISCV
    with assms list_all_upto [OF name_ok_riscv(1)] list_all_upto [OF name_ok_riscv(2)]
    show ?thesis by (cases "i \<le> 16") (simp_all add: reg_max_def)
  qed (use assms in \<open>simp add: reg_max_def\<close>)
  with reg_name_to_id_range show ?thesis by (simp add: name_ok_def)
qed

theorem reg_name_roundtrip_witness:
  "reg_name_to_id CONFIG_X86 ''rip'' = 9 \<and> reg_name_to_id CONFIG_X86 ''RIP'' = 0"
proof -
  have names: "fij_reg_name CONFIG_X86 9 = ''RIP''" "map c_tolower ''RIP'' = ''rip''" by code_simp+
  from reg_name_roundtrip [of 9 CONFIG_X86 "[]"]
  have "reg_name_to_id CONFIG_X86 (map c_tolower (fij_reg_name CONFIG_X86 9)) = 9 \<and>
      reg_name_to_id CONFIG_X86 (fij_reg_name CONFIG_X86 9) = 0" by (simp add: reg_max_def)
  then show ?thesis by (simp only: names simp_thms)
qed

section \<open>Defaults\<close>

definition norm_bool :: "int \<Rightarrow> int" where
  "norm_bool v = (if v \<noteq> 0 then 1 else 0)"

text \<open>Lines 183 to 188; 190 to 213; the assignments of a group concern different fields.\<close>

definition default_bools :: "fij_params \<Rightarrow> fij_params" where
  "default_bools p =
     (let p = (if process_name p = [] \<and> process_path p \<noteq> [] then set_process_name_from_path p else p)
      in p\<lparr>only_mem := norm_bool (only_mem p),
           thread_present := norm_bool (thread_present p),
           all_threads := norm_bool (all_threads p),
           process_present := norm_bool (process_present p),
           no_injection := norm_bool (no_injection p)\<rparr>)"

definition default_ranges :: "fij_params \<Rightarrow> fij_params" where
  "default_ranges p =
     p\<lparr>weight_mem := (if weight_mem p < 0 then 0 else weight_mem p),
       target_reg := (if target_reg p = 0 then 0 else target_reg p),
       thread := (if thread_present p = 0 then 0 else thread p),
       reg_bit := (if reg_bit_present p = 0 then 0
         else if reg_bit p < 0 then 0
         else if 63 < reg_bit p then 63
         else reg_bit p),
       target_pc_off := (if target_pc_present p = 0 then 0 else target_pc_off p)\<rparr>"

definition fij_params_apply_defaults :: "fij_params \<Rightarrow> fij_params" where
  "fij_params_apply_defaults p =
     (let p = default_ranges (default_bools p)
      in if min_delay_ms p \<noteq> 0 \<and> max_delay_ms p \<noteq> 0 \<and> max_delay_ms p < min_delay_ms p
         then p\<lparr>min_delay_ms := max_delay_ms p, max_delay_ms := min_delay_ms p\<rparr> else p)"

text \<open>The parameters the module may rely on after the defaults.\<close>

definition params_normal :: "fij_params \<Rightarrow> bool" where
  "params_normal p \<longleftrightarrow>
     (process_name p = [] \<longrightarrow> put_cstring 256 (path_filename (process_path p)) = []) \<and>
     only_mem p \<in> {0, 1} \<and> thread_present p \<in> {0, 1} \<and> all_threads p \<in> {0, 1} \<and>
     process_present p \<in> {0, 1} \<and> no_injection p \<in> {0, 1} \<and> 0 \<le> weight_mem p \<and>
     (thread_present p = 0 \<longrightarrow> thread p = 0) \<and>
     0 \<le> reg_bit p \<and> reg_bit p \<le> 63 \<and> (reg_bit_present p = 0 \<longrightarrow> reg_bit p = 0) \<and>
     (target_pc_present p = 0 \<longrightarrow> target_pc_off p = 0) \<and>
     (min_delay_ms p = 0 \<or> max_delay_ms p = 0 \<or> min_delay_ms p \<le> max_delay_ms p)"

lemma put_cstring_Nil: "put_cstring 256 [] = []"
  by (simp add: put_cstring)

lemma name_normal:
  "process_name (default_bools p) = [] \<Longrightarrow> put_cstring 256 (path_filename (process_path (default_bools p))) = []"
  by (auto simp: default_bools_def set_process_name_from_path_def Let_def path_filename_def put_cstring_Nil
    split: if_split_asm)

lemma bools_normal:
  "only_mem (default_bools p) \<in> {0, 1}" "thread_present (default_bools p) \<in> {0, 1}"
  "all_threads (default_bools p) \<in> {0, 1}" "process_present (default_bools p) \<in> {0, 1}"
  "no_injection (default_bools p) \<in> {0, 1}"
  by (simp_all add: default_bools_def Let_def norm_bool_def)

lemma defaults_normal: "params_normal (fij_params_apply_defaults p)"
  using name_normal [of p] bools_normal [of p]
  by (simp add: fij_params_apply_defaults_def default_ranges_def params_normal_def Let_def)

lemma bools_id:
  assumes "params_normal p"
  shows "default_bools p = p"
proof -
  have name: "(if process_name p = [] \<and> process_path p \<noteq> [] then set_process_name_from_path p else p) = p"
  proof (cases "process_name p = [] \<and> process_path p \<noteq> []")
    case True
    with assms have "put_cstring 256 (path_filename (process_path p)) = process_name p"
      by (simp add: params_normal_def)
    with True show ?thesis by (simp add: set_process_name_from_path_def Let_def)
  qed (simp only: if_False)
  have bool: "norm_bool v = v" if "v \<in> {0, 1}" for v using that by (auto simp: norm_bool_def)
  have "norm_bool (only_mem p) = only_mem p" "norm_bool (thread_present p) = thread_present p"
    "norm_bool (all_threads p) = all_threads p" "norm_bool (process_present p) = process_present p"
    "norm_bool (no_injection p) = no_injection p"
    using assms unfolding params_normal_def by (blast intro: bool)+
  then show ?thesis by (simp only: default_bools_def name Let_def) simp
qed

lemma ranges_id:
  assumes "params_normal p"
  shows "default_ranges p = p"
proof -
  have "(if weight_mem p < 0 then 0 else weight_mem p) = weight_mem p"
    "(if thread_present p = 0 then 0 else thread p) = thread p"
    "(if reg_bit_present p = 0 then 0 else if reg_bit p < 0 then 0
       else if 63 < reg_bit p then 63 else reg_bit p) = reg_bit p"
    "(if target_pc_present p = 0 then 0 else target_pc_off p) = target_pc_off p"
    "(if target_reg p = 0 then 0 else target_reg p) = target_reg p"
    using assms by (simp_all add: params_normal_def)
  then show ?thesis by (simp only: default_ranges_def) simp
qed

lemma defaults_id:
  assumes "params_normal p"
  shows "fij_params_apply_defaults p = p"
proof -
  have "min_delay_ms p = 0 \<or> max_delay_ms p = 0 \<or> min_delay_ms p \<le> max_delay_ms p"
    using assms by (simp only: params_normal_def)
  then have "\<not> (min_delay_ms p \<noteq> 0 \<and> max_delay_ms p \<noteq> 0 \<and> max_delay_ms p < min_delay_ms p)"
    by linarith
  then show ?thesis
    by (simp only: fij_params_apply_defaults_def bools_id [OF assms] ranges_id [OF assms] Let_def if_False)
qed

text \<open>The defaults put the parameters of a run into their normal form whatever the configuration
  held, applying them again changes nothing, and they never touch what is already normal.\<close>

theorem params_defaults_normal:
  "params_normal (fij_params_apply_defaults p) \<and>
   fij_params_apply_defaults (fij_params_apply_defaults p) = fij_params_apply_defaults p \<and>
   (fij_params_apply_defaults p = p \<longleftrightarrow> params_normal p)"
  using defaults_normal [of p] defaults_id [of p] defaults_id [of "fij_params_apply_defaults p"] by metis

section \<open>Configuration values\<close>

definition bool_int :: "('j, 'd) json_lib \<Rightarrow> 'j \<Rightarrow> exn + int" where
  "bool_int J v =
     (if j_is_boolean J v then ok_bind (j_get_bool J v) (\<lambda>b. Inr (if b then 1 else 0))
      else if j_is_number J v then ok_bind (j_get_nonzero J v) (\<lambda>b. Inr (if b then 1 else 0))
      else if j_is_string J v then ok_bind (j_get_string J v) (\<lambda>s.
        let lower = map c_tolower s
        in Inr (if lower = ''1'' \<or> lower = ''true'' \<or> lower = ''yes'' \<or> lower = ''on'' then 1 else 0))
      else Inr 0)"

text \<open>The pointer to member \<open>field\<close> is the update of the member; \<open>static_cast<int>\<close> keeps 32 bits.\<close>

definition apply_field_if_present ::
  "('j, 'd) json_lib \<Rightarrow> 'j \<Rightarrow> string \<Rightarrow> (int \<Rightarrow> fij_params \<Rightarrow> fij_params) \<Rightarrow> bool \<Rightarrow> fij_params \<Rightarrow> exn + fij_params"
  where
  "apply_field_if_present J cfg key field boolean p = (case j_find J cfg key of
       None \<Rightarrow> Inr p
     | Some v \<Rightarrow>
         if boolean then ok_bind (bool_int J v) (\<lambda>i. Inr (field i p))
         else ok_bind (j_get_int64 J v) (\<lambda>i. Inr (field (s32 i) p)))"

lemma bool_int_01: "bool_int J v = Inr i \<Longrightarrow> i \<in> {0, 1}"
  by (auto simp: bool_int_def ok_bind_Inr Let_def split: if_split_asm)

section \<open>The log of an injection\<close>

definition label_from_params :: "fij_params \<Rightarrow> string" where
  "label_from_params p =
     (let path = process_path p; args = process_args p
      in if path \<noteq> [] \<and> args \<noteq> [] then path @ '' '' @ [CHR 0x27] @ args @ [CHR 0x27]
         else if path \<noteq> [] then path
         else ''<unknown>'')"

definition to_hex64 :: "u64 \<Rightarrow> string" where
  "to_hex64 v = (let ds = digits_in 16 (unat v) in ''0x'' @ replicate (16 - length ds) (CHR ''0'') @ ds)"

definition run_name :: "int \<Rightarrow> string" where
  "run_name i = ''injection_'' @ to_string i"

text \<open>Lines 291 to 319; \<open>memory_flip\<close> and \<open>injection_time_ns\<close> are unsigned.\<close>

definition raw_result :: "('j, 'd) json_lib \<Rightarrow> fij_result \<Rightarrow> exn + 'j" where
  "raw_result J res = set_members J
     [(''iteration_number'', j_of_int J (res_iteration_number res)),
      (''fault_injected'', j_of_int J (fault_injected res)),
      (''signal'', j_of_int J (sigal res)),
      (''process_hanged'', j_of_int J (process_hanged res)),
      (''exit_code'', j_of_int J (exit_code res)),
      (''target_tgid'', j_of_int J (res_target_tgid res)),
      (''pid_idx'', j_of_int J (pid_idx res)),
      (''thread_idx'', j_of_int J (thread_idx res)),
      (''injection_time_ns'', j_of_int J (uint (injection_time_ns res))),
      (''memory_flip'', j_of_int J (uint (memory_flip res))),
      (''target_address'', j_of_string J (to_hex64 (target_address res))),
      (''target_before'', j_of_string J (to_hex64 (target_before res))),
      (''target_after'', j_of_string J (to_hex64 (target_after res))),
      (''register_name'', j_of_string J (register_name res))] (j_null J)"

text \<open>Lines 321 to 337; \<open>timestamp\<close> is the text of the clock.\<close>

definition log_payload ::
  "('j, 'd) json_lib \<Rightarrow> 'd fpu \<Rightarrow> string \<Rightarrow> int \<Rightarrow> 'd \<Rightarrow> fij_result \<Rightarrow> exn + 'j" where
  "log_payload J F timestamp i dt_seconds res =
     ok_bind (raw_result J res) (\<lambda>raw.
       set_members J
         [(''iteration'', j_of_int J i),
          (''timestamp'', j_of_string J timestamp),
          (''duration_ms'', j_of_double J (f_ms F dt_seconds)),
          (''result'', raw)] (j_null J))"

definition log_file :: "string \<Rightarrow> int \<Rightarrow> string" where
  "log_file base_path i = path_join (path_join base_path (run_name i)) (run_name i @ ''.json'')"

definition log_injection_iteration ::
  "refusal \<Rightarrow> ('j, 'd) json_lib \<Rightarrow> 'd fpu \<Rightarrow> string \<Rightarrow> string \<Rightarrow> int \<Rightarrow> 'd \<Rightarrow> fij_result \<Rightarrow> disk \<Rightarrow>
    (exn + unit) \<times> disk" where
  "log_injection_iteration R J F timestamp base_path i dt_seconds res d =
     (let folder = path_join base_path (run_name i)
      in case fs_create_directories R folder d of
           (Inl e, d) \<Rightarrow> (Inl e, d)
         | (Inr _, d) \<Rightarrow> (case log_payload J F timestamp i dt_seconds res of
               Inl e \<Rightarrow> (Inl e, d)
             | Inr payload \<Rightarrow> (case j_dump J payload of
                   (c, Some e) \<Rightarrow> (Inl e, fs_write R (log_file base_path i) c d)
                 | (c, None) \<Rightarrow> (Inr (), fs_write R (log_file base_path i) (c @ [CHR 0x0A]) d))))"

lemma digits_length: "2 \<le> b \<Longrightarrow> n < b ^ k \<Longrightarrow> 0 < k \<Longrightarrow> length (digits_in b n) \<le> k"
proof (induction b n arbitrary: k rule: digits_in.induct)
  case (1 b n)
  show ?case
  proof (cases "n < b")
    case True
    with 1 show ?thesis by (simp add: digits_in.simps)
  next
    case False
    from 1(4) obtain m where k: "k = Suc m" by (cases k) auto
    with False 1(3) have "0 < m" by (cases m) auto
    note m = k this
    with 1(3) have "n div b < b ^ m" by (simp add: less_mult_imp_div_less mult.commute)
    with 1(1) [of m] 1(2) False m show ?thesis by (simp add: digits_in.simps [of b n])
  qed
qed

text \<open>An address or a value in the log is \<open>0x\<close> and sixteen digits, and can be read back.\<close>

theorem hex64_roundtrip:
  "length (to_hex64 v) = 18 \<and> value_in 16 (drop 2 (to_hex64 v)) = unat v"
proof -
  have "unat v < 16 ^ 16" using unsigned_less [of v] by simp
  then have len: "length (digits_in 16 (unat v)) \<le> 16" by (intro digits_length) simp_all
  have "digit_value (CHR ''0'') = Some 0" by (simp add: digit_value_def)
  then have "foldl (\<lambda>a c. a * 16 + (case digit_value c of Some d \<Rightarrow> d | None \<Rightarrow> 0)) 0 (replicate k (CHR ''0'')) = (0 :: nat)" for k
    by (induction k) simp_all
  then have "value_in 16 (replicate k (CHR ''0'') @ s) = value_in 16 s" for k s
    by (simp add: value_in_def)
  with len show ?thesis by (simp add: to_hex64_def Let_def digits_value)
qed

end
