(* ===== verification/Run_Config.thy ===== *)
theory Run_Config
  imports Run_Core
begin

text \<open>
  \<open>fij_config.cpp\<close>: from the configuration file to the list of jobs. The members of a job are the
  global defaults, overwritten by those of the target, overwritten by those of one argument set.
  The messages of line 108 are left out.
\<close>

section \<open>Jobs\<close>

record fij_job =
  job_path :: string
  job_args :: string
  job_runs :: int
  job_baseline_runs :: int
  job_params :: fij_params
  job_workers :: int

text \<open>The loops of lines 20 to 25 and 67 to 72.\<close>

definition base_placeholder :: string where
  "base_placeholder = ''{base_path}''"

definition expand_base :: "string \<Rightarrow> string \<Rightarrow> string" where
  "expand_base base_path s =
     (if base_path \<noteq> [] then replace_loop base_placeholder base_path s 0 else s)"

text \<open>\<open>for (it : over) base[it.key()] = it.value()\<close>; lines 35 to 39 and 48 to 52 do it for the defaults
  of the target.\<close>

definition merge_members :: "('j, 'd) json_lib \<Rightarrow> 'j \<Rightarrow> 'j \<Rightarrow> exn + 'j" where
  "merge_members J over base = ok_bind (j_items J over) (\<lambda>kvs. set_members J kvs base)"

definition merge_target_defaults :: "('j, 'd) json_lib \<Rightarrow> 'j \<Rightarrow> 'j \<Rightarrow> exn + 'j" where
  "merge_target_defaults J t base = (case j_find J t ''defaults'' of
       None \<Rightarrow> Inr base
     | Some dflt \<Rightarrow> if j_is_object J dflt then merge_members J dflt base else Inr base)"

definition merged_config :: "('j, 'd) json_lib \<Rightarrow> 'j \<Rightarrow> 'j \<Rightarrow> 'j \<Rightarrow> exn + 'j" where
  "merged_config J global_defaults t arg_cfg =
     ok_bind (merge_target_defaults J t global_defaults) (merge_members J arg_cfg)"

definition get_member_string :: "('j, 'd) json_lib \<Rightarrow> 'j \<Rightarrow> string \<Rightarrow> (string \<Rightarrow> exn + 'a) \<Rightarrow> exn + 'a \<Rightarrow> exn + 'a" where
  "get_member_string J j k f m = (case j_find J j k of None \<Rightarrow> m | Some v \<Rightarrow> ok_bind (j_get_string J v) f)"

text \<open>Lines 58 to 73.\<close>

definition config_args :: "('j, 'd) json_lib \<Rightarrow> string \<Rightarrow> 'j \<Rightarrow> exn + string" where
  "config_args J base_path merged =
     ok_bind (get_member_string J merged ''value'' Inr (get_member_string J merged ''args'' Inr (Inr [])))
       (\<lambda>arg_val. Inr (expand_base base_path arg_val))"

text \<open>Lines 85 to 93 and 112 to 115: a number and the flag that it is present.\<close>

definition config_present ::
  "('j, 'd) json_lib \<Rightarrow> 'j \<Rightarrow> string \<Rightarrow> (int \<Rightarrow> fij_params \<Rightarrow> fij_params) \<Rightarrow> fij_params \<Rightarrow> exn + fij_params" where
  "config_present J merged key f p = (case j_find J merged key of
       None \<Rightarrow> Inr p | Some v \<Rightarrow> ok_bind (j_get_int64 J v) (\<lambda>n. Inr (f (s32 n) p)))"

text \<open>Lines 95 to 103.\<close>

definition config_pc :: "('j, 'd) json_lib \<Rightarrow> 'j \<Rightarrow> fij_params \<Rightarrow> exn + fij_params" where
  "config_pc J merged p = (case j_find J merged ''pc'' of
       None \<Rightarrow> Inr p
     | Some v \<Rightarrow>
         let p = p\<lparr>target_pc_present := 1\<rparr>
         in if j_is_string J v
            then ok_bind (j_get_string J v) (\<lambda>s. ok_bind (stoi s) (\<lambda>n. Inr (p\<lparr>target_pc_off := n\<rparr>)))
            else ok_bind (j_get_int64 J v) (\<lambda>n. Inr (p\<lparr>target_pc_off := s32 n\<rparr>)))"

text \<open>Lines 76 to 117, from a structure that holds the path, the name and the arguments.\<close>

definition config_fields :: "arch \<Rightarrow> ('j, 'd) json_lib \<Rightarrow> 'j \<Rightarrow> fij_params \<Rightarrow> exn + fij_params" where
  "config_fields A J merged p =
     ok_bind (apply_field_if_present J merged ''weight_mem'' (\<lambda>i p. p\<lparr>weight_mem := i\<rparr>) False p) (\<lambda>p.
     ok_bind (apply_field_if_present J merged ''min_delay_ms'' (\<lambda>i p. p\<lparr>min_delay_ms := i\<rparr>) False p) (\<lambda>p.
     ok_bind (apply_field_if_present J merged ''max_delay_ms'' (\<lambda>i p. p\<lparr>max_delay_ms := i\<rparr>) False p) (\<lambda>p.
     ok_bind (apply_field_if_present J merged ''only_mem'' (\<lambda>i p. p\<lparr>only_mem := i\<rparr>) True p) (\<lambda>p.
     ok_bind (apply_field_if_present J merged ''no_injection'' (\<lambda>i p. p\<lparr>no_injection := i\<rparr>) True p) (\<lambda>p.
     ok_bind (apply_field_if_present J merged ''all_threads'' (\<lambda>i p. p\<lparr>all_threads := i\<rparr>) True p) (\<lambda>p.
     ok_bind (config_present J merged ''thread'' (\<lambda>n p. p\<lparr>thread_present := 1, thread := n\<rparr>) p) (\<lambda>p.
     ok_bind (config_present J merged ''nprocess'' (\<lambda>n p. p\<lparr>process_present := 1, nprocess := n\<rparr>) p) (\<lambda>p.
     ok_bind (config_pc J merged p) (\<lambda>p.
     ok_bind (get_member_string J merged ''reg'' (\<lambda>regname. Inr (p\<lparr>target_reg := reg_name_to_id A regname\<rparr>)) (Inr p)) (\<lambda>p.
     ok_bind (config_present J merged ''bit'' (\<lambda>n p. p\<lparr>reg_bit_present := 1, reg_bit := n\<rparr>) p) (\<lambda>p.
     Inr (fij_params_apply_defaults p))))))))))))"

text \<open>Lines 54 to 56 and 74.\<close>

definition config_names :: "string \<Rightarrow> string \<Rightarrow> fij_params" where
  "config_names path arg_val =
     (set_process_name_from_path (zero_params\<lparr>process_path := put_cstring 1024 path\<rparr>))
       \<lparr>process_args := put_cstring 4096 arg_val\<rparr>"

text \<open>The body of the inner loop, lines 40 to 127.\<close>

definition build_job ::
  "arch \<Rightarrow> ('j, 'd) json_lib \<Rightarrow> 'j \<Rightarrow> string \<Rightarrow> int \<Rightarrow> int \<Rightarrow> 'j \<Rightarrow> string \<Rightarrow> 'j \<Rightarrow> fij_job list \<Rightarrow> exn + fij_job list"
  where
  "build_job A J global_defaults base_path baseline_runs workers t path arg_cfg jobs =
     ok_bind (merged_config J global_defaults t arg_cfg) (\<lambda>merged.
     ok_bind (j_value_int J merged ''runs'' 1) (\<lambda>runs.
     if runs \<le> 0 then Inr jobs
     else ok_bind (config_args J base_path merged) (\<lambda>arg_val.
       ok_bind (config_fields A J merged (config_names path arg_val)) (\<lambda>p.
         Inr (jobs @ [\<lparr>job_path = path, job_args = arg_val, job_runs = runs,
           job_baseline_runs = baseline_runs, job_params = p, job_workers = workers\<rparr>])))))"

text \<open>The body of the outer loop, lines 12 to 128; the \<open>target_defaults\<close> of lines 28 to 33 are computed
  and not used.\<close>

definition build_target ::
  "arch \<Rightarrow> ('j, 'd) json_lib \<Rightarrow> 'j \<Rightarrow> string \<Rightarrow> int \<Rightarrow> int \<Rightarrow> 'j \<Rightarrow> fij_job list \<Rightarrow> exn + fij_job list" where
  "build_target A J global_defaults base_path baseline_runs workers t jobs = (case j_find J t ''path'' of
       None \<Rightarrow> Inl (RuntimeError (''Each target must have a '' @ [CHR 0x27] @ ''path'' @ [CHR 0x27]))
     | Some raw \<Rightarrow>
         ok_bind (j_get_string J raw) (\<lambda>raw_path.
         let path = expand_base base_path raw_path
         in ok_bind (merge_target_defaults J t global_defaults) (\<lambda>target_defaults.
            ok_bind (j_value J t ''args'' (j_array J [])) (\<lambda>args_list.
            let args_list = (if j_elems J args_list = [] then j_array J [j_object J] else args_list)
            in ok_fold (build_job A J global_defaults base_path baseline_runs workers t path)
                 (j_elems J args_list) jobs))))"

definition build_fij_jobs_from_config :: "arch \<Rightarrow> ('j, 'd) json_lib \<Rightarrow> 'j \<Rightarrow> exn + fij_job list" where
  "build_fij_jobs_from_config A J config =
     ok_bind (j_value J config ''defaults'' (j_object J)) (\<lambda>global_defaults.
     ok_bind (j_value J config ''targets'' (j_array J [])) (\<lambda>targets.
     ok_bind (j_value_string J config ''base_path'' []) (\<lambda>base_path.
     ok_bind (j_value_int J config ''baseline_runs'' 100) (\<lambda>baseline_runs.
     ok_bind (j_value_int J config ''workers'' 1) (\<lambda>workers.
     ok_fold (build_target A J global_defaults base_path baseline_runs workers) (j_elems J targets) [])))))"

section \<open>The file\<close>

definition strip_line :: "string \<Rightarrow> string" where
  "strip_line l = (case str_find l ''//'' 0 of None \<Rightarrow> l | Some pos \<Rightarrow> take pos l)"

text \<open>Lines 139 to 148.\<close>

definition strip_comments :: "string \<Rightarrow> string" where
  "strip_comments text = concat (map (\<lambda>l. strip_line l @ [CHR 0x0A]) (getlines text))"

definition load_fij_jobs_from_file ::
  "refusal \<Rightarrow> arch \<Rightarrow> ('j, 'd) json_lib \<Rightarrow> string \<Rightarrow> disk \<Rightarrow> exn + fij_job list" where
  "load_fij_jobs_from_file R A J config_path d = (case fs_read R config_path d of
       None \<Rightarrow> Inl (RuntimeError (''Cannot open config file: '' @ config_path))
     | Some text \<Rightarrow> ok_bind (j_parse J (strip_comments text)) (build_fij_jobs_from_config A J))"


section \<open>What holds of every job\<close>

text \<open>The fields that \<open>config_fields\<close> does not touch, and the range of the register.\<close>

definition same_names :: "arch \<Rightarrow> fij_params \<Rightarrow> fij_params \<Rightarrow> bool" where
  "same_names A p q \<longleftrightarrow> process_path q = process_path p \<and> process_args q = process_args p \<and> log_path q = log_path p \<and>
     0 \<le> target_reg q \<and> target_reg q < reg_max A"

lemma apply_field_post:
  assumes "same_names A p q" "\<And>i. same_names A p (f i q)"
  shows "ok_post (apply_field_if_present J cfg key f b q) (same_names A p)"
  using assms by (auto simp: apply_field_if_present_def ok_post_def ok_bind_Inr split: option.splits if_split_asm)

lemma present_post:
  assumes "same_names A p q" "\<And>i. same_names A p (f i q)"
  shows "ok_post (config_present J cfg key f q) (same_names A p)"
  using assms by (auto simp: config_present_def ok_post_def ok_bind_Inr split: option.splits)

lemma pc_post:
  assumes "same_names A p q"
  shows "ok_post (config_pc J cfg q) (same_names A p)"
  using assms by (auto simp: config_pc_def same_names_def ok_post_def ok_bind_Inr Let_def split: option.splits if_split_asm)

lemma reg_post:
  assumes "same_names A p q"
  shows "ok_post (get_member_string J cfg ''reg'' (\<lambda>r. Inr (q\<lparr>target_reg := reg_name_to_id A r\<rparr>)) (Inr q)) (same_names A p)"
  using assms reg_name_to_id_range [of A]
  by (auto simp: get_member_string_def same_names_def ok_post_def ok_bind_Inr split: option.splits)

lemma defaults_same_names:
  assumes "same_names A p q"
  shows "same_names A p (fij_params_apply_defaults q)"
  using assms
  by (auto simp: same_names_def fij_params_apply_defaults_def default_ranges_def default_bools_def
    set_process_name_from_path_def Let_def)

lemma config_fields_post:
  assumes "same_names A p p"
  shows "ok_post (config_fields A J merged p) (\<lambda>q. params_normal q \<and> same_names A p q)"
  unfolding config_fields_def
  by (intro ok_post_bind [where P = "same_names A p"] apply_field_post present_post pc_post reg_post)
    (use assms defaults_normal defaults_same_names in \<open>auto simp: same_names_def\<close>)

definition job_ok :: "arch \<Rightarrow> fij_job \<Rightarrow> bool" where
  "job_ok A job \<longleftrightarrow> 0 < job_runs job \<and> params_normal (job_params job) \<and>
     process_path (job_params job) = put_cstring 1024 (job_path job) \<and>
     process_args (job_params job) = put_cstring 4096 (job_args job) \<and>
     0 \<le> target_reg (job_params job) \<and> target_reg (job_params job) < reg_max A"

lemma config_names_fields [simp]:
  "process_path (config_names path args) = put_cstring 1024 path"
  "process_args (config_names path args) = put_cstring 4096 args"
  "target_reg (config_names path args) = 0"
  by (simp_all add: config_names_def set_process_name_from_path_def Let_def zero_params_def)

lemma names_ok: "same_names A (config_names path args) (config_names path args)"
  by (cases A) (simp_all add: same_names_def reg_max_def)

lemma build_job_post:
  assumes "list_all (job_ok A) jobs"
  shows "ok_post (build_job A J g b br w t path arg_cfg jobs) (list_all (job_ok A))"
proof -
  have job: "ok_post (ok_bind (config_fields A J merged (config_names path args)) (\<lambda>p.
      Inr (jobs @ [\<lparr>job_path = path, job_args = args, job_runs = runs, job_baseline_runs = br,
        job_params = p, job_workers = w\<rparr>]))) (list_all (job_ok A))" if "0 < runs" for merged args runs
    by (rule ok_post_bind [OF config_fields_post [OF names_ok]])
      (use assms that in \<open>simp add: job_ok_def same_names_def\<close>)
  show ?thesis
    unfolding build_job_def
    by (rule ok_post_bind_any, rule ok_post_bind_any, simp add: assms, intro impI, rule ok_post_bind_any,
      rule job, simp)
qed

lemma ok_post_fold:
  "P b \<Longrightarrow> (\<And>x b. P b \<Longrightarrow> ok_post (f x b) P) \<Longrightarrow> ok_post (ok_fold f xs b) P"
  by (induction xs arbitrary: b) (auto intro: ok_post_bind)

lemma build_target_post:
  "list_all (job_ok A) jobs \<Longrightarrow> ok_post (build_target A J g b br w t jobs) (list_all (job_ok A))"
  unfolding build_target_def Let_def
  by (cases "j_find J t ''path''")
    (auto intro!: ok_post_bind_any ok_post_fold build_job_post)



section \<open>Placeholders and comments\<close>

text \<open>C38: The loop that expands a placeholder always ends, and it is the one-pass replacement of every
  occurrence from the left; what it inserts is not searched again, so a base path that itself holds the
  placeholder does not make it run on.\<close>

theorem expand_base_is_replace_all:
  "expand_base base_path s =
     (if base_path = [] then s else replace_all base_placeholder base_path s) \<and>
   expand_base base_placeholder s = s"
proof
  show "expand_base base_path s = (if base_path = [] then s else replace_all base_placeholder base_path s)"
    by (simp add: expand_base_def replace_loop_is_replace_all)
  have "replace_all ph ph s = s" for ph s :: string
  proof (induction "length s" arbitrary: s rule: less_induct)
    case less
    show ?case
    proof (cases "ph = [] \<or> s = []")
      case True
      then show ?thesis by (subst replace_all.simps) (auto simp: replace_all.simps [of _ _ "[]"])
    next
      case False
      then obtain c t where s: "s = c # t" by (cases s) auto
      show ?thesis
      proof (cases "take (length ph) s = ph")
        case True
        have "replace_all ph ph (drop (length ph) s) = drop (length ph) s" using False by (intro less) auto
        with True False show ?thesis by (subst replace_all.simps) (metis append_take_drop_id)
      qed (use False less [of t] s in \<open>subst replace_all.simps, simp\<close>)
    qed
  qed
  then show "expand_base base_placeholder s = s"
    by (simp add: expand_base_def replace_loop_is_replace_all)
qed

lemma getlines_line: "CHR 0x0A \<notin> set l \<Longrightarrow> getlines (l @ CHR 0x0A # t) = l # getlines t"
  by (induction l) auto

lemma getlines_no_newline: "l \<in> set (getlines t) \<Longrightarrow> CHR 0x0A \<notin> set l"
  by (induction t arbitrary: l rule: getlines.induct) (auto split: if_split_asm list.splits)

lemma find_sub_take:
  assumes "find_sub pat s = Some p" "pat \<noteq> []"
  shows "find_sub pat (take p s) = None"
proof (rule ccontr)
  assume "find_sub pat (take p s) \<noteq> None"
  then obtain q where q: "find_sub pat (take p s) = Some q" by blast
  from find_sub_Some [OF this] find_sub_Some [OF assms(1)]
  have le: "q + length pat \<le> p" "take (length pat) (drop q (take p s)) = pat" by auto
  then have "take (length pat) (drop q s) = pat" by (simp add: drop_take)
  with find_sub_Some [OF assms(1)] have "\<not> q < p" by blast
  with le(1) assms(2) show False by (cases pat) auto
qed

lemma strip_line_find: "strip_line l = (case find_sub ''//'' l of None \<Rightarrow> l | Some p \<Rightarrow> take p l)"
  by (simp add: strip_line_def str_find_def option.map_comp split: option.splits)

lemma strip_line_clean: "find_sub ''//'' (strip_line l) = None"
  by (simp add: strip_line_find find_sub_take split: option.splits)

lemma getlines_strip: "getlines (strip_comments text) = map strip_line (getlines text)"
proof -
  have "CHR 0x0A \<notin> set (strip_line l)" if "CHR 0x0A \<notin> set l" for l
    using that by (auto simp: strip_line_find split: option.splits dest: in_set_takeD)
  then have "(\<forall>l \<in> set ls. CHR 0x0A \<notin> set l) \<Longrightarrow>
      getlines (concat (map (\<lambda>l. strip_line l @ [CHR 0x0A]) ls)) = map strip_line ls" for ls
    by (induction ls) (simp_all add: getlines_line)
  with getlines_no_newline show ?thesis by (simp add: strip_comments_def)
qed

text \<open>Reading a configuration cuts every line at the first \<open>//\<close>, nothing else: no line keeps a comment,
  no line is lost, and a line without \<open>//\<close> is as it was. The cut does not look at quotes, so a string
  that holds \<open>//\<close>, a URL for one, is cut too and the text is no longer JSON.\<close>

theorem strip_comments_by_line:
  assumes "i < length (getlines text)"
  shows "length (getlines (strip_comments text)) = length (getlines text) \<and>
    (\<exists>rest. getlines text ! i = getlines (strip_comments text) ! i @ rest \<and> (rest = [] \<or> take 2 rest = ''//'')) \<and>
    find_sub ''//'' (getlines (strip_comments text) ! i) = None"
proof (intro conjI)
  let ?l = "getlines text ! i"
  have i: "getlines (strip_comments text) ! i = strip_line ?l" using assms by (simp add: getlines_strip)
  show "length (getlines (strip_comments text)) = length (getlines text)" by (simp add: getlines_strip)
  show "find_sub ''//'' (getlines (strip_comments text) ! i) = None" unfolding i by (rule strip_line_clean)
  show "\<exists>rest. ?l = getlines (strip_comments text) ! i @ rest \<and> (rest = [] \<or> take 2 rest = ''//'')"
  proof (cases "find_sub ''//'' ?l")
    case (Some p)
    with find_sub_Some [OF Some] show ?thesis
      unfolding i by (intro exI [of _ "drop p ?l"]) (simp add: strip_line_find numeral_2_eq_2)
  qed (simp add: i strip_line_find)
qed

theorem strip_comments_by_line_witness:
  "strip_comments ''{u: http://x}'' = ''{u: http:'' @ [CHR 0x0A] \<and>
   find_sub ''//'' (getlines (strip_comments ''{u: http://x}'') ! 0) = None"
proof -
  have "getlines ''{u: http://x}'' = [''{u: http://x}'']" by simp
  with strip_comments_by_line [of 0 "''{u: http://x}''"] show ?thesis
    by (simp add: strip_comments_def strip_line_def str_find_def find_sub.simps)
qed

section \<open>Precedence and errors\<close>

lemma map_of_rev_distinct: "distinct (map fst kvs) \<Longrightarrow> map_of (rev kvs) = map_of kvs"
  by (simp add: map_of_inject_set rev_map [symmetric])

lemma merge_members_find:
  assumes "json_set_law J" "json_items_law J" "merge_members J over base = Inr m"
  shows "j_find J m k = (case j_find J over k of Some v \<Rightarrow> Some v | None \<Rightarrow> j_find J base k)"
proof -
  from assms(3) obtain kvs where kvs: "j_items J over = Inr kvs" "set_members J kvs base = Inr m"
    by (auto simp: merge_members_def ok_bind_Inr)
  with assms(2) have "distinct (map fst kvs)" "j_find J over = map_of kvs" by (auto simp: json_items_law_def)
  with set_members_find [OF assms(1) kvs(2)] show ?thesis by (simp add: map_of_rev_distinct)
qed

text \<open>What a target says in its own defaults.\<close>

definition target_default :: "('j, 'd) json_lib \<Rightarrow> 'j \<Rightarrow> string \<Rightarrow> 'j option" where
  "target_default J t k = (case j_find J t ''defaults'' of
     Some dflt \<Rightarrow> if j_is_object J dflt then j_find J dflt k else None | None \<Rightarrow> None)"

text \<open>C27: A member of the configuration of a job is the one of the argument set; if that has none, the
  one of the target's defaults; if that has none either, the global default.\<close>

theorem config_precedence:
  assumes "json_set_law J" and "json_items_law J"
    and "merged_config J global_defaults t arg_cfg = Inr merged"
  shows "j_find J merged k = (case j_find J arg_cfg k of Some v \<Rightarrow> Some v
    | None \<Rightarrow> (case target_default J t k of Some v \<Rightarrow> Some v | None \<Rightarrow> j_find J global_defaults k))"
proof -
  from assms(3) obtain m where m: "merge_target_defaults J t global_defaults = Inr m"
      "merge_members J arg_cfg m = Inr merged"
    by (auto simp: merged_config_def ok_bind_Inr)
  have "j_find J m k = (case target_default J t k of Some v \<Rightarrow> Some v | None \<Rightarrow> j_find J global_defaults k)"
    using m(1) merge_members_find [OF assms(1,2)]
    by (auto simp: merge_target_defaults_def target_default_def split: option.splits if_split_asm)
  with merge_members_find [OF assms(1,2) m(2), of k] show ?thesis by (simp split: option.splits)
qed

lemma ok_fold_fails:
  "x \<in> set xs \<Longrightarrow> (\<And>b. \<exists>e. f x b = Inl e) \<Longrightarrow> \<exists>e. ok_fold f xs b = Inl e"
proof (induction xs arbitrary: b)
  case (Cons y ys)
  then show ?case by (cases "f y b") (auto, metis Inl_Inr_False)
qed simp

text \<open>One target without a path, wherever it stands in the list, and no job of the configuration runs.\<close>

theorem config_needs_paths:
  assumes "j_value J config ''targets'' (j_array J []) = Inr ts"
    and "t \<in> set (j_elems J ts)" and "j_find J t ''path'' = None"
  shows "\<exists>e. build_fij_jobs_from_config A J config = Inl e"
proof -
  have "\<exists>e. ok_fold (build_target A J g b br w) (j_elems J ts) [] = Inl e" for g b br w
    by (rule ok_fold_fails [OF assms(2)]) (simp add: build_target_def assms(3))
  then have "build_fij_jobs_from_config A J config \<noteq> Inr jobs" for jobs
    using assms(1) by (auto simp: build_fij_jobs_from_config_def ok_bind_Inr) (metis Inl_Inr_False)
  then show ?thesis by (metis sum.exhaust)
qed

section \<open>An example\<close>

definition demo_config :: djson where
  "demo_config = DObj [(''baseline_runs'', DNum 4),
     (''defaults'', DObj [(''runs'', DNum 2), (''weight_mem'', DNum (- 3))]),
     (''targets'', DArr [DObj [(''path'', DStr ''/bin/ls''), (''args'', DArr [DObj [(''bit'', DNum 70)]])]])]"

lemma demo_config_jobs:
  "\<exists>job. build_fij_jobs_from_config CONFIG_X86 (demo_json []) demo_config = Inr [job] \<and>
     job_path job = ''/bin/ls'' \<and> job_runs job = 2 \<and> job_baseline_runs job = 4 \<and>
     reg_bit (job_params job) = 63 \<and> weight_mem (job_params job) = 0"
  by (simp add: demo_config_def build_fij_jobs_from_config_def demo_json_def d_find_def build_target_def Let_def
    expand_base_def merge_target_defaults_def build_job_def merged_config_def merge_members_def set_members_def d_set_def
    config_args_def get_member_string_def config_fields_def apply_field_if_present_def config_present_def config_pc_def
    s32_id is_s32_def fij_params_apply_defaults_def default_ranges_def default_bools_def config_names_def zero_params_def
    set_process_name_from_path_def path_filename_def put_cstring norm_bool_def)


theorem config_precedence_witness:
  "\<exists>m. merged_config (demo_json []) (DObj [(''runs'', DNum 2), (''bit'', DNum 1)])
       (DObj [(''defaults'', DObj [(''bit'', DNum 5)])]) (DObj [(''bit'', DNum 7)]) = Inr m \<and>
     d_find m ''bit'' = Some (DNum 7) \<and> d_find m ''runs'' = Some (DNum 2)"
proof -
  let ?J = "demo_json []" and ?g = "DObj [(''runs'', DNum 2), (''bit'', DNum 1)]"
    and ?t = "DObj [(''defaults'', DObj [(''bit'', DNum 5)])]" and ?a = "DObj [(''bit'', DNum 7)]"
  obtain m where m: "merged_config ?J ?g ?t ?a = Inr m"
    by (simp add: merged_config_def merge_target_defaults_def merge_members_def set_members_def demo_json_def d_find_def d_set_def)
  note find = config_precedence [OF demo_json_laws(1,2) m]
  have "j_find ?J = d_find" "j_is_object ?J (DObj kvs)" for kvs by (simp_all add: demo_json_def)
  with m find [of "''bit''"] find [of "''runs''"] show ?thesis
    by (simp add: d_find_def target_default_def)
qed

theorem config_needs_paths_witness:
  "\<exists>e. build_fij_jobs_from_config CONFIG_X86 (demo_json [])
     (DObj [(''targets'', DArr [DObj [(''path'', DStr ''/bin/ls'')], DObj []])]) = Inl e"
  by (rule config_needs_paths [where ts = "DArr [DObj [(''path'', DStr ''/bin/ls'')], DObj []]" and t = "DObj []"])
    (simp_all add: demo_json_def d_find_def)

end
