(* ===== verification/Run_Analyzer.thy ===== *)
theory Run_Analyzer
  imports Run_Core "HOL-Library.Multiset"
begin

text \<open>
  \<open>fij_analyzer/campaign_analyzer.cpp\<close>: reads the logs of a campaign, classifies every run with an
  injection as crash, hang, silent data corruption or benign, and writes \<open>summary.csv\<close>.

  The runs are the iterations of a parallel loop. An iteration reads its own directory and the golden
  one, writes its own directory below \<open>diff\<close> and updates the statistics in a critical section, so the
  loop is modelled as the iterations one after the other, in an arbitrary order. An exception that
  leaves the body of the loop ends the program: \<open>None\<close>. Messages to \<open>cout\<close> are left out.

  OpenCV is a record of functions over its matrices; what an \<open>ifstream\<close> on a directory compares as is
  left to the operating system.
\<close>

section \<open>Comparing files\<close>

record 'm cv_lib =
  cv_imread :: "string option \<Rightarrow> 'm" \<comment> \<open>from the bytes of the file, if it can be opened\<close>
  cv_is_empty :: "'m \<Rightarrow> bool"
  cv_same_size :: "'m \<Rightarrow> 'm \<Rightarrow> bool"
  cv_same_type :: "'m \<Rightarrow> 'm \<Rightarrow> bool"
  cv_is_16u :: "'m \<Rightarrow> bool"
  cv_is_float :: "'m \<Rightarrow> bool" \<comment> \<open>\<open>CV_32F\<close> or \<open>CV_64F\<close>\<close>
  cv_from_16u :: "'m \<Rightarrow> exn + 'm" \<comment> \<open>\<open>convertTo(CV_8U, 1.0 / 257.0)\<close>\<close>
  cv_from_float :: "'m \<Rightarrow> exn + 'm" \<comment> \<open>\<open>convertTo(CV_8U, 255.0)\<close>\<close>
  cv_channels :: "'m \<Rightarrow> int"
  cv_gray2bgr :: "'m \<Rightarrow> exn + 'm"
  cv_absdiff :: "'m \<Rightarrow> 'm \<Rightarrow> exn + 'm"
  cv_bgr2gray :: "'m \<Rightarrow> exn + 'm"
  cv_threshold :: "'m \<Rightarrow> exn + 'm"
  cv_countNonZero :: "'m \<Rightarrow> exn + int"
  cv_total :: "'m \<Rightarrow> int"
  cv_encode :: "'m \<Rightarrow> string" \<comment> \<open>what \<open>imwrite\<close> writes\<close>

text \<open>All the analysis depends on.\<close>

record ('j, 'd, 'm) ana_env =
  a_refusal :: refusal
  a_json :: "('j, 'd) json_lib"
  a_fpu :: "'d fpu"
  a_cv :: "'m cv_lib"
  a_dir_compare :: "string \<Rightarrow> string \<Rightarrow> exn + bool"
  a_what :: "int \<Rightarrow> string" \<comment> \<open>\<open>e.what()\<close> of a \<open>filesystem_error\<close>\<close>

definition are_files_identical_binary ::
  "('j, 'd, 'm) ana_env \<Rightarrow> string \<Rightarrow> string \<Rightarrow> disk \<Rightarrow> exn + bool" where
  "are_files_identical_binary E p1 p2 d =
     (let R = a_refusal E;
          opens = (\<lambda>p. R OpRead p = None \<and> map_of d p \<noteq> None)
      in if \<not> opens p1 \<or> \<not> opens p2 then Inr False
         else if map_of d p1 = Some Dir \<or> map_of d p2 = Some Dir then a_dir_compare E p1 p2
         else case (fs_read R p1 d, fs_read R p2 d) of
             (Some c1, Some c2) \<Rightarrow> Inr (length c1 = length c2 \<and> c1 = c2)
           | _ \<Rightarrow> Inr False)"

record diff_result =
  is_image :: bool
  has_diff :: bool
  diff_desc :: string

text \<open>Lines 53 to 64, on both images.\<close>

definition cv_normalize :: "'m cv_lib \<Rightarrow> 'm \<Rightarrow> 'm \<Rightarrow> exn + 'm \<times> 'm" where
  "cv_normalize C a b =
     (let both = (\<lambda>f a b. ok_bind (f a) (\<lambda>a. ok_bind (f b) (\<lambda>b. Inr (a, b))))
      in ok_bind (if cv_is_16u C a then both (cv_from_16u C) a b
                  else if cv_is_float C a then both (cv_from_float C) a b
                  else Inr (a, b))
           (\<lambda>(a, b). if cv_channels C a = 1 then both (cv_gray2bgr C) a b else Inr (a, b)))"

text \<open>The text of line 84; \<open>pct\<close> is \<open>count / total * 100.0\<close>.\<close>

definition diff_text :: "'d fpu \<Rightarrow> int \<Rightarrow> int \<Rightarrow> string" where
  "diff_text F cnt tot =
     (let pct = f_mul F (f_div F (f_of_int F cnt) (f_of_int F tot)) (f_of_int F 100)
      in ''Img Diff: '' @ to_string cnt @ '' px ('' @ f_fixed F 4 pct @ ''%)'')"

definition try_visual_diff ::
  "('j, 'd, 'm) ana_env \<Rightarrow> string \<Rightarrow> string \<Rightarrow> string \<Rightarrow> disk \<Rightarrow> (exn + diff_result) \<times> disk" where
  "try_visual_diff E p_golden p_inj mask_out d =
     (let R = a_refusal E; C = a_cv E;
          a = cv_imread C (fs_read R p_golden d);
          b = cv_imread C (fs_read R p_inj d)
      in if cv_is_empty C a \<or> cv_is_empty C b then (Inr \<lparr>is_image = False, has_diff = False, diff_desc = []\<rparr>, d)
         else if \<not> cv_same_size C a b \<or> \<not> cv_same_type C a b
         then (Inr \<lparr>is_image = True, has_diff = True, diff_desc = ''Size/Type mismatch''\<rparr>, d)
         else case ok_bind (cv_normalize C a b) (\<lambda>(a, b).
                ok_bind (cv_absdiff C a b) (\<lambda>diff.
                ok_bind (cv_bgr2gray C diff) (\<lambda>msk.
                ok_bind (cv_threshold C msk) (\<lambda>msk.
                ok_bind (cv_countNonZero C msk) (\<lambda>cnt. Inr (msk, cnt)))))) of
             Inl e \<Rightarrow> (Inl e, d)
           | Inr (msk, cnt) \<Rightarrow>
               if cnt = 0
               then (Inr \<lparr>is_image = True, has_diff = False, diff_desc = ''Images Identical (Visual)''\<rparr>, d)
               else (Inr \<lparr>is_image = True, has_diff = True, diff_desc = diff_text (a_fpu E) cnt (cv_total C msk)\<rparr>,
                     fs_write R mask_out (cv_encode C msk) d))"

section \<open>Statistics and records\<close>

record analyze_stats =
  total_injected :: int
  crashed :: int
  hanged :: int
  sdc :: int
  benign :: int
  errors :: int
  crashed_reg :: int
  crashed_mem :: int
  hanged_reg :: int
  hanged_mem :: int
  sdc_reg :: int
  sdc_mem :: int
  benign_reg :: int
  benign_mem :: int

definition zero_stats :: analyze_stats where
  "zero_stats = \<lparr>total_injected = 0, crashed = 0, hanged = 0, sdc = 0, benign = 0, errors = 0,
     crashed_reg = 0, crashed_mem = 0, hanged_reg = 0, hanged_mem = 0, sdc_reg = 0, sdc_mem = 0,
     benign_reg = 0, benign_mem = 0\<rparr>"

record csv_record =
  rec_index :: string
  rec_type :: string
  rec_location :: string
  rec_details :: string
  rec_json :: string

datatype status = BENIGN | HANG | CRASH | SDC

fun status_text :: "status \<Rightarrow> string" where
  "status_text BENIGN = ''BENIGN''"
| "status_text HANG = ''HANG''"
| "status_text CRASH = ''CRASH''"
| "status_text SDC = ''SDC''"

text \<open>Lines 265 to 278.\<close>

definition count_status :: "status \<Rightarrow> bool \<Rightarrow> analyze_stats \<Rightarrow> analyze_stats" where
  "count_status t is_memory s =
     (let s = s\<lparr>total_injected := total_injected s + 1\<rparr>
      in case t of
           BENIGN \<Rightarrow>
             (let s = s\<lparr>benign := benign s + 1\<rparr>
              in if is_memory then s\<lparr>benign_mem := benign_mem s + 1\<rparr> else s\<lparr>benign_reg := benign_reg s + 1\<rparr>)
         | HANG \<Rightarrow>
             (let s = s\<lparr>hanged := hanged s + 1\<rparr>
              in if is_memory then s\<lparr>hanged_mem := hanged_mem s + 1\<rparr> else s\<lparr>hanged_reg := hanged_reg s + 1\<rparr>)
         | CRASH \<Rightarrow>
             (let s = s\<lparr>crashed := crashed s + 1\<rparr>
              in if is_memory then s\<lparr>crashed_mem := crashed_mem s + 1\<rparr> else s\<lparr>crashed_reg := crashed_reg s + 1\<rparr>)
         | SDC \<Rightarrow>
             (let s = s\<lparr>sdc := sdc s + 1\<rparr>
              in if is_memory then s\<lparr>sdc_mem := sdc_mem s + 1\<rparr> else s\<lparr>sdc_reg := sdc_reg s + 1\<rparr>))"

section \<open>One run\<close>

definition diff_root :: "string \<Rightarrow> string" where
  "diff_root base_path = path_join base_path ''diff''"

definition golden_dir :: "string \<Rightarrow> string" where
  "golden_dir base_path = path_join (path_join base_path ''no_inj'') ''injection_0''"

definition diff_dir :: "string \<Rightarrow> int \<Rightarrow> string" where
  "diff_dir base_path i = path_join (diff_root base_path) (''diff_'' @ to_string i)"

definition ensure_dir :: "refusal \<Rightarrow> string \<Rightarrow> disk \<Rightarrow> (exn + unit) \<times> disk" where
  "ensure_dir R p d = (case fs_exists R p d of
       Inl e \<Rightarrow> (Inl e, d)
     | Inr True \<Rightarrow> (Inr (), d)
     | Inr False \<Rightarrow> fs_create_directories R p d)"

text \<open>Lines 228 to 240, the body of the \<open>try\<close>.\<close>

definition keep_difference ::
  "('j, 'd, 'm) ana_env \<Rightarrow> string \<Rightarrow> string \<Rightarrow> string \<Rightarrow> disk \<Rightarrow> (exn + string) \<times> disk" where
  "keep_difference E exp_dir g_file i_file d =
     (let R = a_refusal E;
          g_name = path_stem g_file @ ''_GOLDEN'' @ path_extension g_file;
          i_name = path_stem i_file @ ''_INJ'' @ path_extension i_file
      in case fs_copy_file R g_file (path_join exp_dir g_name) d of
           (Inl e, d) \<Rightarrow> (Inl e, d)
         | (Inr _, d) \<Rightarrow> (case fs_copy_file R i_file (path_join exp_dir i_name) d of
               (Inl e, d) \<Rightarrow> (Inl e, d)
             | (Inr _, d) \<Rightarrow>
                 (case try_visual_diff E g_file i_file (path_join exp_dir (''diff_mask_'' @ path_filename g_file)) d of
                    (Inl e, d) \<Rightarrow> (Inl e, d)
                  | (Inr img, d) \<Rightarrow>
                      (Inr (if is_image img then ''SDC '' @ path_filename g_file @ '' ['' @ diff_desc img @ '']''
                            else ''SDC '' @ path_filename g_file @ '' (Binary Mismatch)''), d))))"

text \<open>Lines 209 to 250, one file of the golden run: the note if it differs. Only a \<open>filesystem_error\<close>
  is caught.\<close>

definition check_file ::
  "('j, 'd, 'm) ana_env \<Rightarrow> string \<Rightarrow> string \<Rightarrow> string \<Rightarrow> disk \<Rightarrow> (exn + string option) \<times> disk" where
  "check_file E inj_dir exp_dir g_file d =
     (if path_extension g_file = ''.json'' then (Inr None, d)
      else let i_file = path_join inj_dir (path_filename g_file)
           in case fs_exists (a_refusal E) i_file d of
                Inl e \<Rightarrow> (Inl e, d)
              | Inr False \<Rightarrow> (Inr (Some (''MISSING: '' @ path_filename g_file)), d)
              | Inr True \<Rightarrow> (case are_files_identical_binary E g_file i_file d of
                    Inl e \<Rightarrow> (Inl e, d)
                  | Inr True \<Rightarrow> (Inr None, d)
                  | Inr False \<Rightarrow> (case ensure_dir (a_refusal E) exp_dir d of
                        (Inl e, d) \<Rightarrow> (Inl e, d)
                      | (Inr _, d) \<Rightarrow> (case keep_difference E exp_dir g_file i_file d of
                            (Inl (SystemError e), d) \<Rightarrow> (Inr (Some (''SDC (Copy Error): '' @ a_what E e)), d)
                          | (Inl e, d) \<Rightarrow> (Inl e, d)
                          | (Inr note, d) \<Rightarrow> (Inr (Some note), d)))))"

primrec check_files ::
  "('j, 'd, 'm) ana_env \<Rightarrow> string \<Rightarrow> string \<Rightarrow> string list \<Rightarrow> string list \<Rightarrow> disk \<Rightarrow> (exn + string list) \<times> disk" where
  "check_files E inj_dir exp_dir [] notes d = (Inr notes, d)"
| "check_files E inj_dir exp_dir (g # gs) notes d = (case check_file E inj_dir exp_dir g d of
       (Inl e, d) \<Rightarrow> (Inl e, d)
     | (Inr None, d) \<Rightarrow> check_files E inj_dir exp_dir gs notes d
     | (Inr (Some note), d) \<Rightarrow> check_files E inj_dir exp_dir gs (notes @ [note]) d)"

text \<open>Lines 255 to 258.\<close>

fun join_notes :: "string list \<Rightarrow> string" where
  "join_notes [] = []"
| "join_notes [n] = n"
| "join_notes (n # m # ns) = n @ '' | '' @ join_notes (m # ns)"

text \<open>Lines 190 to 260.\<close>

definition classify ::
  "('j, 'd, 'm) ana_env \<Rightarrow> string \<Rightarrow> int \<Rightarrow> int \<Rightarrow> int \<Rightarrow> disk \<Rightarrow> (exn + status \<times> string) \<times> disk" where
  "classify E base_path i ec hang d =
     (if ec \<noteq> 0 then
        (if hang = 1 then (Inr (HANG, ''Exit: '' @ to_string ec @ '', Hanged: 1''), d)
         else (Inr (CRASH, ''Exit: '' @ to_string ec), d))
      else case fs_list (a_refusal E) (golden_dir base_path) d of
          Inl e \<Rightarrow> (Inl e, d)
        | Inr gs \<Rightarrow>
            (case check_files E (path_join base_path (run_name i)) (diff_dir base_path i) gs [] d of
               (Inl e, d) \<Rightarrow> (Inl e, d)
             | (Inr notes, d) \<Rightarrow>
                 (if notes \<noteq> [] then (Inr (SDC, join_notes notes), d) else (Inr (BENIGN, []), d))))"

text \<open>Lines 175 to 188: \<open>None\<close> when the run has no injected fault; else the location, the exit code and
  whether it hung. \<open>meta_data["result"]\<close> of a value that is neither an object nor null throws.\<close>

definition read_result :: "('j, 'd) json_lib \<Rightarrow> 'j \<Rightarrow> exn + (bool \<times> int \<times> int) option" where
  "read_result J meta =
     (if \<not> j_is_object J meta \<and> meta \<noteq> j_null J then Inl JsonError
      else let res = (case j_find J meta ''result'' of Some r \<Rightarrow> r | None \<Rightarrow> j_null J)
      in ok_bind (j_value_int J res ''fault_injected'' 0) (\<lambda>fi.
         if fi \<noteq> 1 then Inr None
         else ok_bind (j_value_int J res ''memory_flip'' (- 1)) (\<lambda>mem.
              ok_bind (if mem = - 1 then j_value_int J meta ''memory_flip'' 0 else Inr mem) (\<lambda>mem.
              ok_bind (j_value_int J res ''exit_code'' 0) (\<lambda>ec.
              ok_bind (j_value_int J res ''process_hanged'' 0) (\<lambda>hang.
              Inr (Some (mem = 1, ec, hang))))))))"

definition error_record :: "int \<Rightarrow> string \<Rightarrow> csv_record" where
  "error_record i what = \<lparr>rec_index = to_string i, rec_type = ''ERROR'', rec_location = ''UNKNOWN'',
     rec_details = what, rec_json = run_name i @ ''.json''\<rparr>"

type_synonym tally = "analyze_stats \<times> csv_record list"

definition tally_error :: "int \<Rightarrow> string \<Rightarrow> tally \<Rightarrow> tally" where
  "tally_error i what t = ((fst t)\<lparr>errors := errors (fst t) + 1\<rparr>, snd t @ [error_record i what])"

text \<open>Lines 263 to 288, the critical section.\<close>

definition tally_run ::
  "('j, 'd, 'm) ana_env \<Rightarrow> string \<Rightarrow> int \<Rightarrow> bool \<Rightarrow> status \<Rightarrow> string \<Rightarrow> tally \<Rightarrow> disk \<Rightarrow> (tally \<times> disk) option" where
  "tally_run E base_path i is_memory t details acc d =
     (let stats = count_status t is_memory (fst acc)
      in if t = BENIGN then Some ((stats, snd acc), d)
         else case ensure_dir (a_refusal E) (diff_dir base_path i) d of
             (Inl e, d) \<Rightarrow> None
           | (Inr _, d) \<Rightarrow>
               (case fs_copy_file (a_refusal E) (log_file base_path i)
                   (path_join (diff_dir base_path i) (run_name i @ ''.json'')) d of
                  (Inl e, d) \<Rightarrow> None
                | (Inr _, d) \<Rightarrow> Some ((stats, snd acc @ [\<lparr>rec_index = to_string i, rec_type = status_text t,
                    rec_location = (if is_memory then ''Memory'' else ''Register''),
                    rec_details = details, rec_json = run_name i @ ''.json''\<rparr>]), d)))"

text \<open>The body of the loop.\<close>

definition analyze_run ::
  "('j, 'd, 'm) ana_env \<Rightarrow> string \<Rightarrow> int \<Rightarrow> tally \<Rightarrow> disk \<Rightarrow> (tally \<times> disk) option" where
  "analyze_run E base_path i acc d = (case fs_exists (a_refusal E) (path_join base_path (run_name i)) d of
       Inl e \<Rightarrow> None
     | Inr False \<Rightarrow> Some (acc, d)
     | Inr True \<Rightarrow> (case fs_read (a_refusal E) (log_file base_path i) d of
           None \<Rightarrow> Some (tally_error i ''JSON missing/corrupt'' acc, d)
         | Some c \<Rightarrow> (case j_parse (a_json E) c of
               Inl e \<Rightarrow> Some (tally_error i ''JSON Parse Error'' acc, d)
             | Inr meta \<Rightarrow> (case read_result (a_json E) meta of
                   Inl e \<Rightarrow> None
                 | Inr None \<Rightarrow> Some (acc, d)
                 | Inr (Some (is_memory, ec, hang)) \<Rightarrow> (case classify E base_path i ec hang d of
                       (Inl e, d) \<Rightarrow> None
                     | (Inr (t, details), d) \<Rightarrow> tally_run E base_path i is_memory t details acc d)))))"

primrec analyze_runs ::
  "('j, 'd, 'm) ana_env \<Rightarrow> string \<Rightarrow> int list \<Rightarrow> tally \<Rightarrow> disk \<Rightarrow> (tally \<times> disk) option" where
  "analyze_runs E base_path [] acc d = Some (acc, d)"
| "analyze_runs E base_path (i # is) acc d = (case analyze_run E base_path i acc d of
       None \<Rightarrow> None | Some (acc, d) \<Rightarrow> analyze_runs E base_path is acc d)"

section \<open>The summary\<close>

definition csv_line :: "csv_record \<Rightarrow> string" where
  "csv_line r = rec_index r @ '','' @ rec_type r @ '','' @ rec_location r @ '','' @
     [CHR 0x22] @ rec_details r @ [CHR 0x22] @ '','' @ rec_json r @ [CHR 0x0A]"

text \<open>\<open>get_pct\<close>, line 305.\<close>

definition get_pct :: "'d fpu \<Rightarrow> analyze_stats \<Rightarrow> int \<Rightarrow> 'd" where
  "get_pct F s val =
     (if 0 < total_injected s then f_div F (f_mul F (f_of_int F val) (f_of_int F 100)) (f_of_int F (total_injected s))
      else f_of_int F 0)"

definition stats_line :: "'d fpu \<Rightarrow> analyze_stats \<Rightarrow> string \<Rightarrow> int \<Rightarrow> string" where
  "stats_line F s nm val = ''STATS,'' @ nm @ '','' @ to_string val @ '' ('' @ f_fixed F 2 (get_pct F s val) @ ''%),,'' @ [CHR 0x0A]"

definition breakdown_line :: "string \<Rightarrow> int \<Rightarrow> int \<Rightarrow> int \<Rightarrow> string" where
  "breakdown_line nm tot reg mem =
     nm @ '','' @ to_string tot @ '','' @ to_string reg @ '','' @ to_string mem @ '','' @ [CHR 0x0A]"

text \<open>Lines 295 to 322.\<close>

definition summary_text :: "'d fpu \<Rightarrow> analyze_stats \<Rightarrow> csv_record list \<Rightarrow> string" where
  "summary_text F s recs =
     ''index,type,location,details,json_file'' @ [CHR 0x0A] @
     concat (map csv_line recs) @
     '',,,,'' @ [CHR 0x0A] @
     ''---,---,---,---'' @ [CHR 0x0A] @
     ''STATS,TOTAL INJECTIONS,'' @ to_string (total_injected s) @ '',,'' @ [CHR 0x0A] @
     stats_line F s ''CRASHED'' (crashed s) @
     stats_line F s ''HANGED'' (hanged s) @
     stats_line F s ''SDC'' (sdc s) @
     stats_line F s ''BENIGN'' (benign s) @
     '',,,,'' @ [CHR 0x0A] @
     ''BREAKDOWN BY LOCATION,,,,'' @ [CHR 0x0A] @
     ''TYPE,TOTAL,REGISTER,MEMORY,'' @ [CHR 0x0A] @
     breakdown_line ''CRASH'' (crashed s) (crashed_reg s) (crashed_mem s) @
     breakdown_line ''HANG'' (hanged s) (hanged_reg s) (hanged_mem s) @
     breakdown_line ''SDC'' (sdc s) (sdc_reg s) (sdc_mem s) @
     breakdown_line ''BENIGN'' (benign s) (benign_reg s) (benign_mem s)"

text \<open>The order in which the threads finish the runs.\<close>

definition schedule :: "int \<Rightarrow> int list \<Rightarrow> bool" where
  "schedule n order \<longleftrightarrow> mset order = mset [0..n - 1]"

text \<open>The value is the pair of the local variables at the end.\<close>

definition analyze_injection_campaign ::
  "('j, 'd, 'm) ana_env \<Rightarrow> string \<Rightarrow> int list \<Rightarrow> disk \<Rightarrow> ((exn + tally) \<times> disk) option" where
  "analyze_injection_campaign E base_path order d =
     (let R = a_refusal E; root = diff_root base_path
      in case fs_exists R root d of
           Inl e \<Rightarrow> Some (Inl e, d)
         | Inr found \<Rightarrow> (case (if found then fs_remove_all R root d else (Inr (), d)) of
               (Inl e, d) \<Rightarrow> Some (Inl e, d)
             | (Inr _, d) \<Rightarrow> (case fs_create_directory R root d of
                   (NotCreated e, d) \<Rightarrow> Some (Inl (SystemError e), d)
                 | (_, d) \<Rightarrow> (case analyze_runs E base_path order (zero_stats, []) d of
                       None \<Rightarrow> None
                     | Some ((stats, recs), d) \<Rightarrow>
                         Some (Inr (stats, recs),
                           fs_write R (path_join root ''summary.csv'') (summary_text (a_fpu E) stats recs) d)))))"

section \<open>The counters\<close>

definition stats_add_up :: "tally \<Rightarrow> bool" where
  "stats_add_up t \<longleftrightarrow> (case t of (s, recs) \<Rightarrow>
     total_injected s = crashed s + hanged s + sdc s + benign s \<and>
     crashed s = crashed_reg s + crashed_mem s \<and> hanged s = hanged_reg s + hanged_mem s \<and>
     sdc s = sdc_reg s + sdc_mem s \<and> benign s = benign_reg s + benign_mem s \<and>
     int (length recs) = crashed s + hanged s + sdc s + errors s \<and>
     0 \<le> crashed s \<and> 0 \<le> hanged s \<and> 0 \<le> sdc s \<and> 0 \<le> benign s \<and> 0 \<le> errors s)"

lemma tally_run_adds:
  "tally_run E base i mem t det acc d = Some (acc', d') \<Longrightarrow> stats_add_up acc \<Longrightarrow> stats_add_up acc'"
  by (cases t) (auto simp: tally_run_def stats_add_up_def count_status_def Let_def split: prod.splits sum.splits)

lemma analyze_run_adds:
  "analyze_run E base i acc d = Some (acc', d') \<Longrightarrow> stats_add_up acc \<Longrightarrow> stats_add_up acc'"
  by (auto simp: analyze_run_def tally_error_def stats_add_up_def [of "(_, _)"]
    split: sum.splits bool.splits option.splits prod.splits dest: tally_run_adds)
    (auto simp: stats_add_up_def)

lemma analyze_runs_add:
  "analyze_runs E base order acc d = Some (acc', d') \<Longrightarrow> stats_add_up acc \<Longrightarrow> stats_add_up acc'"
  by (induction order arbitrary: acc d) (auto split: option.splits dest: analyze_run_adds)

text \<open>C40: Whatever the logs hold, the summary adds up: every counted run has exactly one verdict and one
  location, and the table has one line for each run that is not benign and for each unreadable log.\<close>

theorem summary_adds_up:
  assumes "analyze_injection_campaign E base_path order d = Some (Inr t, d')"
  shows "stats_add_up t"
proof -
  have "stats_add_up (zero_stats, [])" by (simp add: stats_add_up_def zero_stats_def)
  with assms show ?thesis
    by (auto simp: analyze_injection_campaign_def Let_def
      split: sum.splits prod.splits mkdir_result.splits option.splits if_split_asm dest: analyze_runs_add)
qed

end
