(* ===== verification/Run_Verdict.thy ===== *)
theory Run_Verdict
  imports Run_Analyzer
begin

text \<open>
  What the analysis computes. \<open>run_verdict\<close> is the verdict on one run as a function of the disk before
  the analysis; each iteration of the loop counts its run by it and writes only below \<open>diff\<close>
  (\<open>good\<close>), so the summary does not depend on the order of the threads. At the end, what the runner
  logs is what the analysis reads back.
\<close>

section \<open>What an iteration leaves alone\<close>

text \<open>Strictly below a directory, and the rest of the disk.\<close>

definition below :: "string \<Rightarrow> string \<Rightarrow> bool" where
  "below root p \<longleftrightarrow> take (length root + 1) p = root @ ''/''"

definition outside :: "string \<Rightarrow> disk \<Rightarrow> disk" where
  "outside root d = filter (\<lambda>(q, _). q \<noteq> root \<and> \<not> below root q) d"

text \<open>All directories on the way to a path, and the path itself, are there.\<close>

definition ready :: "string \<Rightarrow> disk \<Rightarrow> bool" where
  "ready p d \<longleftrightarrow> (\<forall>q \<in> set (path_prefixes p). map_of d q = Some Dir)"

text \<open>The disk \<open>d\<close> is \<open>d0\<close> but for what is below \<open>root\<close>, a directory.\<close>

definition good :: "string \<Rightarrow> disk \<Rightarrow> disk \<Rightarrow> bool" where
  "good root d0 d \<longleftrightarrow> outside root d = outside root d0 \<and> ready root d"

lemma below_longer: "below root p \<Longrightarrow> length root < length p"
  by (auto simp: below_def dest: arg_cong [where f = length])

lemma prefixes_length: "q \<in> set (path_prefixes p) \<Longrightarrow> length q \<le> length p"
  by (auto simp: path_prefixes_def)

lemma outside_update: "q = root \<or> below root q \<Longrightarrow> outside root (AList.update q n d) = outside root d"
  by (induction d) (auto simp: outside_def)

lemma good_update:
  assumes "good root d0 d" "below root p"
  shows "good root d0 (AList.update p n d)"
  using assms below_longer [OF assms(2)] prefixes_length [of _ root]
  by (fastforce simp: good_def outside_update ready_def update_conv)

lemma outside_map_of: "q \<noteq> root \<Longrightarrow> \<not> below root q \<Longrightarrow> map_of (outside root d) q = map_of d q"
  by (induction d) (auto simp: outside_def)

lemma good_map_of: "good root d0 d \<Longrightarrow> q \<noteq> root \<Longrightarrow> \<not> below root q \<Longrightarrow> map_of d q = map_of d0 q"
  by (metis good_def outside_map_of)

lemma outside_keys:
  assumes "\<And>q. P q \<Longrightarrow> q \<noteq> root \<and> \<not> below root q"
  shows "filter P (map fst (outside root d)) = filter P (map fst d)"
  by (induction d) (auto simp: outside_def dest: assms)

lemma good_keys:
  assumes "good root d0 d" "\<And>q. P q \<Longrightarrow> q \<noteq> root \<and> \<not> below root q"
  shows "filter P (remdups (map fst d)) = filter P (remdups (map fst d0))"
  using assms(1) outside_keys [of P root d] outside_keys [of P root d0] assms(2)
  by (simp add: good_def remdups_filter [symmetric])

lemma good_copy: "good root d0 d \<Longrightarrow> below root dst \<Longrightarrow> good root d0 (snd (fs_copy_file R src dst d))"
  by (simp add: fs_copy_file_def good_update split: option.splits)

lemma good_write: "good root d0 d \<Longrightarrow> below root p \<Longrightarrow> good root d0 (fs_write R p c d)"
  by (simp add: fs_write_def good_update)

lemma prefixes_snoc:
  assumes "joinable p" "plain n" "n \<noteq> []"
  shows "path_prefixes (p @ ''/'' @ n) = path_prefixes p @ [p @ ''/'' @ n]"
proof -
  let ?P = "\<lambda>i. 0 < i \<and> (i = length (p @ ''/'' @ n) \<or> (p @ ''/'' @ n) ! i = CHR ''/'')"
  have rng: "[0..<length (p @ ''/'' @ n) + 1] = [0..<length p + 1] @ [length p + 1..<length (p @ ''/'' @ n)] @ [length (p @ ''/'' @ n)]"
    using upt_add_eq_append [of 0 "length p + 1" "length n"] by simp
  have low: "filter ?P [0..<length p + 1] = filter (\<lambda>i. 0 < i \<and> (i = length p \<or> p ! i = CHR ''/'')) [0..<length p + 1]"
    by (rule filter_cong) (auto simp: nth_append)
  have mid: "filter ?P [length p + 1..<length (p @ ''/'' @ n)] = []"
  proof -
    have "(p @ ''/'' @ n) ! i \<noteq> CHR ''/''" if "length p + 1 \<le> i" "i < length (p @ ''/'' @ n)" for i
    proof -
      have "(p @ ''/'' @ n) ! i = n ! (i - length p - 1)" using that by (simp add: nth_append)
      moreover have "n ! (i - length p - 1) \<in> set n" using that by (intro nth_mem) auto
      ultimately show ?thesis using assms(2) by (auto simp: plain_def)
    qed
    then show ?thesis unfolding filter_empty_conv set_upt by (metis atLeastLessThan_iff less_irrefl)
  qed
  have tk: "take i (p @ ''/'' @ n) = take i p" if "i \<in> set [0..<length p + 1]" for i
    using that by auto
  show ?thesis
    unfolding path_prefixes_def rng by (simp only: filter_append low mid map_append) (auto simp: tk)
qed

lemma ready_snoc: "joinable p \<Longrightarrow> plain n \<Longrightarrow> n \<noteq> [] \<Longrightarrow>
    ready (path_join p n) d \<longleftrightarrow> ready p d \<and> map_of d (path_join p n) = Some Dir"
  using prefixes_snoc [of p n] by (auto simp: ready_def path_join_plain)

lemma joinable_join: "joinable p \<Longrightarrow> plain n \<Longrightarrow> n \<noteq> [] \<Longrightarrow> joinable (path_join p n)"
  by (simp add: path_join_plain joinable_def plain_def) (metis last_in_set)

lemma below_join: "joinable p \<Longrightarrow> plain n \<Longrightarrow> below p (path_join p n)"
  by (simp add: path_join_plain below_def)

lemma below_trans: "below p q \<Longrightarrow> below q r \<Longrightarrow> below p r"
proof -
  assume pq: "below p q" and qr: "below q r"
  then have "length p + 1 \<le> length q" using below_longer by fastforce
  then have "take (length p + 1) r = take (length p + 1) (take (length q + 1) r)" by (simp add: min_def)
  also have "\<dots> = take (length p + 1) q"
    using qr \<open>length p + 1 \<le> length q\<close> by (simp add: below_def)
  finally show "below p r" using pq by (simp add: below_def)
qed

lemma good_ensure:
  assumes "good root d0 d" "joinable root" "plain n" "n \<noteq> []"
  shows "good root d0 (snd (ensure_dir R (path_join root n) d))"
proof -
  let ?step = "\<lambda>(r :: exn + unit, d) q. case r of Inl e \<Rightarrow> (Inl e, d)
        | Inr _ \<Rightarrow> if map_of d q = Some Dir then (Inr (), d)
            else (case fs_create_directory R q d of
                (NotCreated e, d) \<Rightarrow> (Inl (SystemError e), d) | (_, d) \<Rightarrow> (Inr (), d))"
  have skip: "foldl ?step (Inr (), d) qs = (Inr (), d)" if "\<forall>q \<in> set qs. map_of d q = Some Dir" for qs
    using that by (induction qs) auto
  have "good root d0 (snd (?step (Inr (), d) (path_join root n)))"
    using good_update [OF assms(1) below_join [OF assms(2,3)], of Dir] assms(1)
    by (auto simp: fs_create_directory_def split: option.splits node.splits)
  then have "good root d0 (snd (fs_create_directories R (path_join root n) d))"
    using assms skip [of "path_prefixes root"]
    unfolding fs_create_directories_def path_join_plain [OF assms(3,2)] prefixes_snoc [OF assms(2,3,4)]
    by (simp add: good_def ready_def)
  with assms(1) show ?thesis by (auto simp: ensure_dir_def split: sum.splits bool.splits)
qed


section \<open>Paths of a campaign\<close>

lemma plain_simps [simp]: "plain []" "plain (c # s) \<longleftrightarrow> c \<noteq> CHR ''/'' \<and> plain s" "plain (to_string i)"
  using plain_to_string by (auto simp: plain_def)

lemma plain_run_name [simp]: "plain (run_name i)"
  by (simp add: run_name_def)

lemma plain_filename [simp]: "plain (path_filename p)"
  by (auto simp: plain_def path_filename_def dest: set_takeWhileD)

lemma name_nonempty [simp]: "run_name i \<noteq> []"
  by (simp add: run_name_def)

lemma not_below_diff:
  assumes "joinable base" "hd x \<noteq> CHR ''d''" "x \<noteq> []"
  shows "base @ ''/'' @ x \<noteq> diff_root base \<and> \<not> below (diff_root base) (base @ ''/'' @ x)"
  using assms by (cases x) (auto simp: diff_root_def path_join_plain below_def)

lemma run_dir_outside:
  assumes "joinable base"
  shows "path_join base (run_name i) @ x \<noteq> diff_root base \<and> \<not> below (diff_root base) (path_join base (run_name i) @ x)"
  using not_below_diff [OF assms, of "run_name i @ x"] assms by (simp add: path_join_plain) (simp add: run_name_def)

lemma path_join_run:
  "joinable base \<Longrightarrow> plain n \<Longrightarrow> path_join (path_join base (run_name i)) n = path_join base (run_name i) @ ''/'' @ n"
  by (intro path_join_plain joinable_join) simp_all

lemma golden_outside:
  assumes "joinable base"
  shows "golden_dir base @ x \<noteq> diff_root base \<and> \<not> below (diff_root base) (golden_dir base @ x)"
proof -
  have "golden_dir base = base @ ''/no_inj/injection_0''"
    using assms joinable_join [of base "''no_inj''"] by (simp add: golden_dir_def path_join_plain)
  with not_below_diff [OF assms, of "''no_inj/injection_0'' @ x"] show ?thesis by simp
qed

lemma parent_of: "path_parent q \<noteq> [] \<Longrightarrow> q = path_parent q @ ''/'' @ path_filename q"
proof -
  assume ne: "path_parent q \<noteq> []"
  let ?w = "dropWhile (\<lambda>c. c \<noteq> CHR ''/'') (rev q)"
  have w: "?w \<noteq> []" using ne by (metis path_parent_def drop_Nil rev.simps(1))
  with hd_dropWhile [OF w] obtain r where r: "?w = CHR ''/'' # r" by (cases ?w) simp_all
  have "rev q = takeWhile (\<lambda>c. c \<noteq> CHR ''/'') (rev q) @ CHR ''/'' # r"
    by (metis r takeWhile_dropWhile_id)
  then have "q = rev r @ CHR ''/'' # rev (takeWhile (\<lambda>c. c \<noteq> CHR ''/'') (rev q))"
    by (metis rev_append rev_rev_ident rev.simps(2) append.assoc append_Cons append_Nil)
  with r show ?thesis by (simp add: path_parent_def path_filename_def)
qed

lemma golden_file_outside:
  assumes "joinable base" "path_parent q = golden_dir base"
  shows "q \<noteq> diff_root base \<and> \<not> below (diff_root base) q"
proof -
  have "golden_dir base \<noteq> []" using assms(1) by (auto simp: golden_dir_def path_join_def)
  with parent_of [of q] assms(2) have "q = golden_dir base @ ''/'' @ path_filename q" by simp
  with golden_outside [OF assms(1), of "''/'' @ path_filename q"] show ?thesis by simp
qed

lemma diff_dir_joinable: "joinable base \<Longrightarrow> joinable (diff_root base) \<and> joinable (diff_dir base i)"
  unfolding diff_root_def diff_dir_def by (intro conjI joinable_join) simp_all

lemma below_diff_file: "joinable base \<Longrightarrow> plain n \<Longrightarrow> below (diff_root base) (path_join (diff_dir base i) n)"
  using diff_dir_joinable [of base i]
  by (auto simp: diff_dir_def intro: below_trans [OF below_join below_join])

section \<open>The verdict on a run\<close>

text \<open>What the campaign means by the verdict on run \<open>i\<close>, as a function of the disk before the analysis:
  a run with an injected fault that exits with an error hung or crashed; otherwise every file of the
  golden run, logs apart, must be there and be the same.\<close>

datatype verdict = Skipped | Unreadable string | Counted bool status

definition differs :: "('j, 'd, 'm) ana_env \<Rightarrow> string \<Rightarrow> string \<Rightarrow> disk \<Rightarrow> bool" where
  "differs E inj_dir g_file d \<longleftrightarrow> path_extension g_file \<noteq> ''.json'' \<and>
     (fs_exists (a_refusal E) (path_join inj_dir (path_filename g_file)) d = Inr False \<or>
      are_files_identical_binary E g_file (path_join inj_dir (path_filename g_file)) d = Inr False)"

definition run_verdict :: "('j, 'd, 'm) ana_env \<Rightarrow> string \<Rightarrow> disk \<Rightarrow> int \<Rightarrow> verdict option" where
  "run_verdict E base_path d i = (case fs_exists (a_refusal E) (path_join base_path (run_name i)) d of
       Inl e \<Rightarrow> None
     | Inr False \<Rightarrow> Some Skipped
     | Inr True \<Rightarrow> (case fs_read (a_refusal E) (log_file base_path i) d of
           None \<Rightarrow> Some (Unreadable ''JSON missing/corrupt'')
         | Some c \<Rightarrow> (case j_parse (a_json E) c of
               Inl e \<Rightarrow> Some (Unreadable ''JSON Parse Error'')
             | Inr meta \<Rightarrow> (case read_result (a_json E) meta of
                   Inl e \<Rightarrow> None
                 | Inr None \<Rightarrow> Some Skipped
                 | Inr (Some (is_memory, ec, hang)) \<Rightarrow>
                     if ec \<noteq> 0 then Some (Counted is_memory (if hang = 1 then HANG else CRASH))
                     else (case fs_list (a_refusal E) (golden_dir base_path) d of
                         Inl e \<Rightarrow> None
                       | Inr gs \<Rightarrow> Some (Counted is_memory
                           (if \<exists>g \<in> set gs. differs E (path_join base_path (run_name i)) g d then SDC else BENIGN)))))))"

definition apply_verdict :: "verdict \<Rightarrow> analyze_stats \<Rightarrow> analyze_stats" where
  "apply_verdict v s = (case v of Skipped \<Rightarrow> s | Unreadable w \<Rightarrow> s\<lparr>errors := errors s + 1\<rparr>
     | Counted m t \<Rightarrow> count_status t m s)"

text \<open>Reading outside \<open>diff\<close> is reading the disk before the analysis.\<close>

lemma good_reads:
  assumes "good root d0 d" "q \<noteq> root" "\<not> below root q"
  shows "fs_exists R q d = fs_exists R q d0" "fs_read R q d = fs_read R q d0" "map_of d q = map_of d0 q"
  unfolding fs_exists_def fs_read_def good_map_of [OF assms] by (rule refl)+

lemma good_identical:
  assumes "good root d0 d" "p \<noteq> root" "\<not> below root p" "q \<noteq> root" "\<not> below root q"
  shows "are_files_identical_binary E p q d = are_files_identical_binary E p q d0"
  unfolding are_files_identical_binary_def Let_def good_reads [OF assms(1-3)] good_reads [OF assms(1,4,5)] by (rule refl)

lemma golden_reads:
  assumes "joinable base" "good (diff_root base) d0 d"
  shows "fs_list R (golden_dir base) d = fs_list R (golden_dir base) d0"
proof -
  from good_reads(3) [OF assms(2)] golden_outside [OF assms(1), of "[]"]
  have m: "map_of d (golden_dir base) = map_of d0 (golden_dir base)" by simp
  have f: "filter (\<lambda>q. path_parent q = golden_dir base) (remdups (map fst d)) =
      filter (\<lambda>q. path_parent q = golden_dir base) (remdups (map fst d0))"
    by (rule good_keys [OF assms(2)]) (rule golden_file_outside [OF assms(1)])
  show ?thesis unfolding fs_list_def m f by (rule refl)
qed

lemma listed_parent: "fs_list R p d = Inr gs \<Longrightarrow> g \<in> set gs \<Longrightarrow> path_parent g = p"
  by (auto simp: fs_list_def split: option.splits if_split_asm)

lemma good_visual: "good root d0 d \<Longrightarrow> below root msk \<Longrightarrow> good root d0 (snd (try_visual_diff E a b msk d))"
  by (auto simp: try_visual_diff_def Let_def good_write split: sum.splits)

lemma stem_plain [simp]: "plain (path_stem p)"
  using plain_filename [of p] by (auto simp: path_stem_def plain_def Let_def dest: in_set_takeD)

lemma extension_plain [simp]: "plain (path_extension p)"
  using plain_filename [of p] by (auto simp: path_extension_def plain_def Let_def dest: set_takeWhileD)

lemma good_keep:
  assumes "joinable base" "good (diff_root base) d0 d"
  shows "good (diff_root base) d0 (snd (keep_difference E (diff_dir base i) g f d))"
proof -
  let ?root = "diff_root base" and ?e = "diff_dir base i"
  have below: "plain n \<Longrightarrow> below ?root (path_join ?e n)" for n
    by (rule below_diff_file [OF assms(1)])
  have copy: "good ?root d0 (snd (fs_copy_file R src (path_join ?e n) d))" if "good ?root d0 d" "plain n" for R src n d
    by (rule good_copy [OF that(1) below [OF that(2)]])
  have visual: "good ?root d0 (snd (try_visual_diff E g f (path_join ?e (''diff_mask_'' @ path_filename g)) d))"
    if "good ?root d0 d" for d
    by (rule good_visual [OF that below]) simp
  obtain r1 d1 where 1: "fs_copy_file (a_refusal E) g (path_join ?e (path_stem g @ ''_GOLDEN'' @ path_extension g)) d = (r1, d1)"
    by force
  with copy [OF assms(2), of "path_stem g @ ''_GOLDEN'' @ path_extension g" "a_refusal E" g]
  have g1: "good ?root d0 d1" by simp
  obtain r2 d2 where 2: "fs_copy_file (a_refusal E) f (path_join ?e (path_stem f @ ''_INJ'' @ path_extension f)) d1 = (r2, d2)"
    by force
  with copy [OF g1, of "path_stem f @ ''_INJ'' @ path_extension f" "a_refusal E" f]
  have g2: "good ?root d0 d2" by simp
  obtain r3 d3 where 3: "try_visual_diff E g f (path_join ?e (''diff_mask_'' @ path_filename g)) d2 = (r3, d3)"
    by force
  with visual [OF g2] have g3: "good ?root d0 d3" by simp
  show ?thesis
    using 1 2 3 g1 g2 g3 by (simp add: keep_difference_def Let_def split: sum.splits)
qed

definition file_checked :: "string \<Rightarrow> disk \<Rightarrow> bool \<Rightarrow> (exn + 'a option) \<times> disk \<Rightarrow> bool" where
  "file_checked root d0 b x \<longleftrightarrow> good root d0 (snd x) \<and> (\<forall>r. fst x = Inr r \<longrightarrow> (r \<noteq> None) = b)"

lemma check_file_spec:
  assumes base: "joinable base" and good: "good (diff_root base) d0 d" and g: "path_parent g = golden_dir base"
  shows "file_checked (diff_root base) d0 (differs E (path_join base (run_name i)) g d0)
    (check_file E (path_join base (run_name i)) (diff_dir base i) g d)"
proof -
  let ?i = "path_join (path_join base (run_name i)) (path_filename g)"
  have out: "?i \<noteq> diff_root base" "\<not> below (diff_root base) ?i" "g \<noteq> diff_root base" "\<not> below (diff_root base) g"
    using run_dir_outside [OF base, of i "''/'' @ path_filename g"] golden_file_outside [OF base g]
    by (simp_all add: path_join_run [OF base])
  note same = good_reads(1) [OF good out(1,2)] good_identical [OF good out(3,4,1,2)]
  have ens: "good (diff_root base) d0 (snd (ensure_dir R (diff_dir base i) d))" for R
    unfolding diff_dir_def using diff_dir_joinable [OF base, of i] by (intro good_ensure [OF good]) simp_all
  obtain re de where e: "ensure_dir (a_refusal E) (diff_dir base i) d = (re, de)" by force
  with ens [of "a_refusal E"] have ge: "good (diff_root base) d0 de" by simp
  obtain rk dk where k: "keep_difference E (diff_dir base i) g ?i de = (rk, dk)" by force
  with good_keep [OF base ge, of E i g ?i] have gk: "good (diff_root base) d0 dk" by simp
  show ?thesis
    unfolding check_file_def Let_def differs_def same e prod.case k
    using good ge gk
    by (auto simp: file_checked_def split: sum.splits bool.splits exn.splits)
qed

definition files_checked :: "string \<Rightarrow> disk \<Rightarrow> bool \<Rightarrow> (exn + 'a list) \<times> disk \<Rightarrow> bool" where
  "files_checked root d0 b x \<longleftrightarrow> good root d0 (snd x) \<and> (\<forall>r. fst x = Inr r \<longrightarrow> (r \<noteq> []) = b)"

lemma check_files_spec:
  assumes base: "joinable base"
  shows "good (diff_root base) d0 d \<Longrightarrow> (\<forall>g \<in> set gs. path_parent g = golden_dir base) \<Longrightarrow>
    files_checked (diff_root base) d0 (ns \<noteq> [] \<or> (\<exists>g \<in> set gs. differs E (path_join base (run_name i)) g d0))
      (check_files E (path_join base (run_name i)) (diff_dir base i) gs ns d)"
proof (induction gs arbitrary: ns d)
  case Nil
  then show ?case by (simp add: files_checked_def)
next
  case (Cons g gs)
  obtain r d1 where c: "check_file E (path_join base (run_name i)) (diff_dir base i) g d = (r, d1)" by force
  from check_file_spec [OF base Cons.prems(1), of g E i] Cons.prems(2) c
  have r: "good (diff_root base) d0 d1" "\<And>x. r = Inr x \<Longrightarrow> (x \<noteq> None) = differs E (path_join base (run_name i)) g d0"
    by (auto simp: file_checked_def)
  show ?case
  proof (cases r)
    case (Inl e)
    with c r show ?thesis by (simp add: files_checked_def)
  next
    case (Inr x)
    with r(2) [OF Inr] Cons.IH [OF r(1), of ns] Cons.IH [OF r(1), of "ns @ [the x]"] Cons.prems(2) c
    show ?thesis by (cases x) (auto simp: files_checked_def)
  qed
qed

text \<open>An iteration counts its run as the verdict says, and leaves everything outside \<open>diff\<close> alone.\<close>

lemma classify_spec:
  assumes "joinable base" "good (diff_root base) d0 d"
    and "classify E base i ec hang d = (Inr (t, det), d')"
  shows "good (diff_root base) d0 d' \<and>
    (if ec \<noteq> 0 then t = (if hang = 1 then HANG else CRASH)
     else \<exists>gs. fs_list (a_refusal E) (golden_dir base) d0 = Inr gs \<and>
       t = (if \<exists>g \<in> set gs. differs E (path_join base (run_name i)) g d0 then SDC else BENIGN))"
proof (cases "ec = 0")
  case False
  with assms show ?thesis by (auto simp: classify_def split: if_split_asm)
next
  case True
  with assms(3) golden_reads [OF assms(1,2), of "a_refusal E"] obtain gs where
    gs: "fs_list (a_refusal E) (golden_dir base) d0 = Inr gs" "fs_list (a_refusal E) (golden_dir base) d = Inr gs"
    by (auto simp: classify_def split: sum.splits)
  obtain r d1 where c: "check_files E (path_join base (run_name i)) (diff_dir base i) gs [] d = (r, d1)" by force
  have "\<forall>g \<in> set gs. path_parent g = golden_dir base" using listed_parent [OF gs(2)] by blast
  from check_files_spec [OF assms(1,2) this, of "[]" E i] c
  have "good (diff_root base) d0 d1"
    "\<And>x. r = Inr x \<Longrightarrow> (x \<noteq> []) = (\<exists>g \<in> set gs. differs E (path_join base (run_name i)) g d0)"
    by (auto simp: files_checked_def)
  with True assms(3) gs c show ?thesis
    by (auto simp: classify_def split: sum.splits if_split_asm)
qed

lemma tally_run_spec:
  assumes "joinable base" "good (diff_root base) d0 d"
    and "tally_run E base i m t det acc d = Some (acc', d')"
  shows "good (diff_root base) d0 d' \<and> fst acc' = count_status t m (fst acc)"
proof -
  obtain re de where e: "ensure_dir (a_refusal E) (diff_dir base i) d = (re, de)" by force
  have "good (diff_root base) d0 (snd (ensure_dir (a_refusal E) (diff_dir base i) d))"
    unfolding diff_dir_def using diff_dir_joinable [OF assms(1), of i] by (intro good_ensure [OF assms(2)]) simp_all
  with e have ge: "good (diff_root base) d0 de" by simp
  let ?dst = "path_join (diff_dir base i) (run_name i @ ''.json'')"
  have "plain (run_name i @ ''.json'')" by simp
  then have below: "below (diff_root base) ?dst" by (rule below_diff_file [OF assms(1)])
  obtain rc dc where c: "fs_copy_file (a_refusal E) (log_file base i) ?dst de = (rc, dc)" by force
  with good_copy [OF ge below, of "a_refusal E" "log_file base i"] have gc: "good (diff_root base) d0 dc" by simp
  show ?thesis
    using assms(2,3) e c ge gc
    by (cases "t = BENIGN"; cases re; cases rc) (auto simp: tally_run_def Let_def)
qed

lemma analyze_run_spec:
  assumes base: "joinable base" and good: "good (diff_root base) d0 d"
    and run: "analyze_run E base i acc d = Some (acc', d')"
  shows "good (diff_root base) d0 d' \<and>
    (\<exists>v. run_verdict E base d0 i = Some v \<and> fst acc' = apply_verdict v (fst acc))"
proof -
  have log: "log_file base i = path_join base (run_name i) @ ''/'' @ run_name i @ ''.json''"
    unfolding log_file_def by (rule path_join_run [OF base]) simp
  have out: "path_join base (run_name i) \<noteq> diff_root base" "\<not> below (diff_root base) (path_join base (run_name i))"
    "log_file base i \<noteq> diff_root base" "\<not> below (diff_root base) (log_file base i)"
    using run_dir_outside [OF base, of i "[]"] run_dir_outside [OF base, of i "''/'' @ run_name i @ ''.json''"]
    by (simp_all add: log)
  note same = good_reads(1) [OF good out(1,2)] good_reads(2) [OF good out(3,4)]
  consider (err) e where "fs_exists (a_refusal E) (path_join base (run_name i)) d0 = Inl e"
    | (gone) "fs_exists (a_refusal E) (path_join base (run_name i)) d0 = Inr False"
    | (nolog) "fs_exists (a_refusal E) (path_join base (run_name i)) d0 = Inr True"
        "fs_read (a_refusal E) (log_file base i) d0 = None"
    | (log) c where "fs_exists (a_refusal E) (path_join base (run_name i)) d0 = Inr True"
        "fs_read (a_refusal E) (log_file base i) d0 = Some c"
    by (metis (full_types) old.sum.exhaust option.exhaust)
  then show ?thesis
  proof cases
    case (log c)
    show ?thesis
    proof (cases "j_parse (a_json E) c")
      case (Inl e)
      with run log good show ?thesis
        by (simp add: analyze_run_def run_verdict_def same apply_verdict_def tally_error_def) auto
    next
      case (Inr meta)
      show ?thesis
      proof (cases "read_result (a_json E) meta")
        case (Inr x)
        show ?thesis
        proof (cases x)
          case None
          with run log good Inr \<open>j_parse _ _ = _\<close> show ?thesis
            by (auto simp: analyze_run_def run_verdict_def same apply_verdict_def)
        next
          case (Some y)
          obtain m ec hang where y: "y = (m, ec, hang)" by (cases y)
          obtain r d1 where c: "classify E base i ec hang d = (r, d1)" by force
          with run log Inr Some y \<open>j_parse _ _ = _\<close> obtain t det where
            r: "r = Inr (t, det)" and tal: "tally_run E base i m t det acc d1 = Some (acc', d')"
            by (auto simp: analyze_run_def same split: sum.splits)
          from classify_spec [OF base good c [unfolded r]]
          have g1: "good (diff_root base) d0 d1" and t: "if ec \<noteq> 0 then t = (if hang = 1 then HANG else CRASH)
              else \<exists>gs. fs_list (a_refusal E) (golden_dir base) d0 = Inr gs \<and>
                t = (if \<exists>g \<in> set gs. differs E (path_join base (run_name i)) g d0 then SDC else BENIGN)"
            by blast+
          have "run_verdict E base d0 i = Some (Counted m t)"
            using log Inr Some y \<open>j_parse _ _ = _\<close> t by (auto simp: run_verdict_def split: if_split_asm)
          with tally_run_spec [OF base g1 tal] show ?thesis by (auto simp: apply_verdict_def)
        qed
      qed (use run log \<open>j_parse _ _ = _\<close> in \<open>simp add: analyze_run_def same\<close>)
    qed
  qed (use run good in \<open>auto simp: analyze_run_def run_verdict_def same apply_verdict_def tally_error_def\<close>)
qed

section \<open>The summary counts the verdicts\<close>

text \<open>The counter of a verdict and a location.\<close>

fun counter :: "status \<Rightarrow> bool \<Rightarrow> analyze_stats \<Rightarrow> int" where
  "counter BENIGN m s = (if m then benign_mem s else benign_reg s)"
| "counter HANG m s = (if m then hanged_mem s else hanged_reg s)"
| "counter CRASH m s = (if m then crashed_mem s else crashed_reg s)"
| "counter SDC m s = (if m then sdc_mem s else sdc_reg s)"

definition unreadable :: "verdict option \<Rightarrow> bool" where
  "unreadable v \<longleftrightarrow> (case v of Some (Unreadable w) \<Rightarrow> True | _ \<Rightarrow> False)"

lemma counter_apply:
  "counter t m (apply_verdict v s) = counter t m s + of_bool (v = Counted m t)"
  by (cases t; cases v) (auto simp: apply_verdict_def count_status_def Let_def split: status.splits)

lemma errors_apply: "errors (apply_verdict v s) = errors s + of_bool (unreadable (Some v))"
  by (cases v) (auto simp: apply_verdict_def count_status_def Let_def unreadable_def split: status.splits)

lemma analyze_runs_spec:
  assumes "joinable base"
  shows "good (diff_root base) d0 d \<Longrightarrow> analyze_runs E base order acc d = Some (acc', d') \<Longrightarrow>
    counter t m (fst acc') = counter t m (fst acc) + int (length (filter (\<lambda>i. run_verdict E base d0 i = Some (Counted m t)) order)) \<and>
    errors (fst acc') = errors (fst acc) + int (length (filter (\<lambda>i. unreadable (run_verdict E base d0 i)) order))"
proof (induction order arbitrary: acc d)
  case (Cons i order)
  from Cons.prems(2) obtain acc1 d1 where
    1: "analyze_run E base i acc d = Some (acc1, d1)" "analyze_runs E base order acc1 d1 = Some (acc', d')"
    by (auto split: option.splits)
  from analyze_run_spec [OF assms Cons.prems(1) 1(1)] obtain v where
    "good (diff_root base) d0 d1" "run_verdict E base d0 i = Some v" "fst acc1 = apply_verdict v (fst acc)" by blast
  with Cons.IH [OF _ 1(2)] show ?case by (simp add: counter_apply errors_apply)
qed simp

lemma schedule_filter: "schedule n order \<Longrightarrow> length (filter P order) = card {i. 0 \<le> i \<and> i < n \<and> P i}"
proof -
  assume "schedule n order"
  then have "mset (filter P order) = mset (filter P [0..n - 1])" by (simp add: schedule_def mset_filter)
  then have "length (filter P order) = length (filter P [0..n - 1])" by (metis size_mset)
  also have "\<dots> = card (set (filter P [0..n - 1]))" by (rule distinct_card [symmetric]) simp
  also have "set (filter P [0..n - 1]) = {i. 0 \<le> i \<and> i < n \<and> P i}" by auto
  finally show ?thesis .
qed

text \<open>A directory of a campaign on a disk in order: its path is proper and its parents are there.\<close>

definition campaign_dir :: "string \<Rightarrow> disk \<Rightarrow> bool" where
  "campaign_dir base_path d \<longleftrightarrow> joinable base_path \<and> ready base_path d"

lemma outside_remove: "fs_remove_all R root d = (Inr u, d') \<Longrightarrow> outside root d' = outside root d"
  by (auto simp: fs_remove_all_def outside_def below_def case_prod_unfold split: option.splits)

lemma analysis_starts_good:
  assumes dir: "campaign_dir base d"
    and rm: "(if found then fs_remove_all R (diff_root base) d else (Inr (), d)) = (Inr u, d1)"
    and mk: "fs_create_directory R (diff_root base) d1 = (r, d2)" "r = Created \<or> r = Existed"
  shows "good (diff_root base) d d2"
proof -
  let ?root = "diff_root base"
  have base: "joinable base" "ready base d" using dir by (simp_all add: campaign_dir_def)
  have root: "?root = path_join base ''diff''" by (simp add: diff_root_def)
  have out1: "outside ?root d1 = outside ?root d"
    using rm outside_remove [of R ?root d u d1] by (auto split: if_split_asm)
  have out2: "outside ?root d2 = outside ?root d1" and dirs: "map_of d2 ?root = Some Dir"
    using mk outside_update [of ?root ?root Dir d1]
    by (auto simp: fs_create_directory_def update_conv split: option.splits node.splits if_split_asm)
  have "map_of d2 q = map_of d q" if "q \<in> set (path_prefixes base)" for q
  proof -
    have "length q < length ?root"
      using prefixes_length [OF that] below_longer [OF below_join [OF base(1), of "''diff''"]] root by simp
    then have "q \<noteq> ?root" "\<not> below ?root q" using below_longer by fastforce+
    then show ?thesis using out1 out2 outside_map_of by metis
  qed
  then have "ready base d2" using base(2) by (simp add: ready_def)
  with dirs base(1) have "ready ?root d2" unfolding root by (subst ready_snoc) simp_all
  with out1 out2 show ?thesis by (simp add: good_def)
qed

theorem summary_counts_verdicts:
  assumes "schedule n order" and "campaign_dir base_path d"
    and "analyze_injection_campaign E base_path order d = Some (Inr (stats, recs), d')"
  shows "counter t m stats = int (card {i. 0 \<le> i \<and> i < n \<and> run_verdict E base_path d i = Some (Counted m t)}) \<and>
    errors stats = int (card {i. 0 \<le> i \<and> i < n \<and> unreadable (run_verdict E base_path d i)})"
proof -
  let ?R = "a_refusal E" and ?root = "diff_root base_path"
  from assms(3) obtain found u d1 r d2 d3 where
    "(if found then fs_remove_all ?R ?root d else (Inr (), d)) = (Inr u, d1)"
    "fs_create_directory ?R ?root d1 = (r, d2)" "r = Created \<or> r = Existed"
    and runs: "analyze_runs E base_path order (zero_stats, []) d2 = Some ((stats, recs), d3)"
    by (fastforce simp: analyze_injection_campaign_def Let_def
      split: sum.splits prod.splits mkdir_result.splits option.splits)
  then have good: "good ?root d d2" by (intro analysis_starts_good [OF assms(2)])
  have "counter t m zero_stats = 0" "errors zero_stats = 0" by (cases t) (simp_all add: zero_stats_def)
  with analyze_runs_spec [OF _ good runs] assms(2) show ?thesis
    by (simp add: schedule_filter [OF assms(1)] campaign_dir_def)
qed

section \<open>Logging and reading back\<close>

lemma create_directories_ready:
  assumes "fs_create_directories R p d = (Inr u, d')"
  shows "ready p d'"
proof -
  define go where "go = (\<lambda>(r :: exn + unit, d) q. case r of Inl e \<Rightarrow> (Inl e, d)
        | Inr _ \<Rightarrow> if map_of d q = Some Dir then (Inr (), d)
            else (case fs_create_directory R q d of
                (NotCreated e, d) \<Rightarrow> (Inl (SystemError e), d) | (_, d) \<Rightarrow> (Inr (), d)))"
  have stuck: "foldl go (Inl e, d) qs = (Inl e, d)" for e d qs
    by (induction qs) (simp_all add: go_def)
  have one: "map_of d1 q = Some Dir \<and> disk_grows d d1" if "go (Inr (), d) q = (Inr v, d1)" for d d1 q v
    using that create_directory_grows [of d R q]
    by (auto simp: go_def fs_create_directory_def update_conv disk_grows_update
      split: if_split_asm option.splits node.splits)
  have "foldl go (Inr (), d) qs = (Inr v, d') \<Longrightarrow> (\<forall>q \<in> set qs. map_of d' q = Some Dir) \<and> disk_grows d d'" for v qs d
  proof (induction qs arbitrary: d)
    case (Cons q qs)
    obtain r d1 where g: "go (Inr (), d) q = (r, d1)" by force
    with Cons.prems stuck obtain w where w: "r = Inr w" by (cases r) auto
    with Cons.IH [of d1] Cons.prems g one [of d q w d1] show ?case
      by (auto simp: disk_grows_def)
  qed simp
  with assms show ?thesis by (simp add: fs_create_directories_def go_def ready_def)
qed

lemma log_payload_result:
  assumes J: "json_set_law J" "json_value_law J"
    and p: "log_payload J F ts i dt res = Inr p"
  shows "read_result J p = Inr (if fault_injected res = 1
    then Some (uint (memory_flip res) = 1, exit_code res, process_hanged res) else None)"
proof -
  from p obtain raw where raw: "raw_result J res = Inr raw"
    and p': "set_members J [(''iteration'', j_of_int J i), (''timestamp'', j_of_string J ts),
          (''duration_ms'', j_of_double J (f_ms F dt)), (''result'', raw)] (j_null J) = Inr p"
    by (auto simp: log_payload_def ok_bind_Inr)
  have obj: "j_is_object J p" "j_is_object J raw"
    using set_members_object [OF J(1) p'] set_members_object [OF J(1) raw [unfolded raw_result_def]] by simp_all
  have res: "j_find J p ''result'' = Some raw" using set_members_find [OF J(1) p'] by simp
  have val: "j_value_int J raw k n = Inr x" if "j_find J raw k = Some (j_of_int J x)" for k n x
    using J(2) obj(2) that by (simp add: json_value_law_def)
  note find = set_members_find [OF J(1) raw [unfolded raw_result_def]]
  have vals: "j_value_int J raw ''fault_injected'' n = Inr (fault_injected res)"
    "j_value_int J raw ''memory_flip'' n = Inr (uint (memory_flip res))"
    "j_value_int J raw ''exit_code'' n = Inr (exit_code res)"
    "j_value_int J raw ''process_hanged'' n = Inr (process_hanged res)" for n
    by (rule val; simp add: find)+
  have "uint (memory_flip res) \<noteq> - 1" using uint_ge_0 [of "memory_flip res"] by linarith
  then show ?thesis using obj res vals by (simp add: read_result_def Let_def)
qed

text \<open>The operating system lets the runner write and read one log.\<close>

definition log_allowed :: "refusal \<Rightarrow> string \<Rightarrow> int \<Rightarrow> disk \<Rightarrow> bool" where
  "log_allowed R base i d \<longleftrightarrow> joinable base \<and> map_of d (log_file base i) \<noteq> Some Dir \<and>
     R OpStat (path_join base (run_name i)) = None \<and> R OpWrite (log_file base i) = None \<and>
     R OpRead (log_file base i) = None"

lemma create_directories_other:
  assumes "q \<notin> set (path_prefixes p)"
  shows "map_of (snd (fs_create_directories R p d)) q = map_of d q"
proof -
  define go where "go = (\<lambda>(r :: exn + unit, d) q. case r of Inl e \<Rightarrow> (Inl e, d)
        | Inr _ \<Rightarrow> if map_of d q = Some Dir then (Inr (), d)
            else (case fs_create_directory R q d of
                (NotCreated e, d) \<Rightarrow> (Inl (SystemError e), d) | (_, d) \<Rightarrow> (Inr (), d)))"
  have one: "map_of (snd (go x q')) q = map_of (snd x) q" if "q' \<noteq> q" for x q'
    using that by (cases x) (auto simp: go_def fs_create_directory_def update_conv split: sum.splits option.splits node.splits)
  have "q \<notin> set qs \<Longrightarrow> map_of (snd (foldl go x qs)) q = map_of (snd x) q" for x qs
    by (induction qs arbitrary: x) (auto simp: one)
  from this [OF assms, of "(Inr (), d)"] show ?thesis by (simp add: fs_create_directories_def go_def)
qed

lemma log_written:
  assumes "log_allowed R base i d"
    and "log_injection_iteration R J F ts base i dt res d = (Inr (), d')"
  obtains payload c where "log_payload J F ts i dt res = Inr payload" "j_dump J payload = (c, None)"
    "fs_exists R (path_join base (run_name i)) d' = Inr True" "fs_read R (log_file base i) d' = Some (c @ [CHR 0x0A])"
proof -
  let ?f = "path_join base (run_name i)" and ?l = "log_file base i"
  have base: "joinable base" using assms(1) by (simp add: log_allowed_def)
  have l: "?l = ?f @ ''/'' @ run_name i @ ''.json''"
    unfolding log_file_def by (rule path_join_run [OF base]) simp
  from assms(2) obtain d1 payload c where mk: "fs_create_directories R ?f d = (Inr (), d1)"
    and p: "log_payload J F ts i dt res = Inr payload" "j_dump J payload = (c, None)"
    and d': "d' = fs_write R ?l (c @ [CHR 0x0A]) d1"
    by (auto simp: log_injection_iteration_def Let_def split: prod.splits sum.splits option.splits)
  have "ready ?f d1" by (rule create_directories_ready [OF mk])
  then have dir: "map_of d1 ?f = Some Dir"
    using ready_snoc [OF base, of "run_name i" d1] by simp
  have parent: "path_parent ?l = ?f"
    unfolding log_file_def by (rule parent_join) (use base joinable_join in simp_all)
  have "?l \<notin> set (path_prefixes ?f)" using prefixes_length [of ?l ?f] l by auto
  with create_directories_other [of ?l ?f R d] mk have "map_of d1 ?l = map_of d ?l" by simp
  with assms(1) dir parent d' have d'': "d' = AList.update ?l (File (c @ [CHR 0x0A])) d1"
    by (simp add: fs_write_def log_allowed_def)
  have "?l \<noteq> ?f" using l by (metis append_self_conv list.distinct(1) append_Cons)
  with d'' dir assms(1) p show ?thesis
    by (intro that [of payload c]) (simp_all add: fs_exists_def fs_read_def update_conv log_allowed_def)
qed


section \<open>An example campaign\<close>

definition demo_cv :: "unit cv_lib" where
  "demo_cv = \<lparr>cv_imread = \<lambda>_. (), cv_is_empty = \<lambda>_. True, cv_same_size = \<lambda>_ _. True, cv_same_type = \<lambda>_ _. True,
     cv_is_16u = \<lambda>_. False, cv_is_float = \<lambda>_. False, cv_from_16u = Inr, cv_from_float = Inr,
     cv_channels = \<lambda>_. 3, cv_gray2bgr = Inr, cv_absdiff = \<lambda>a b. Inr a, cv_bgr2gray = Inr, cv_threshold = Inr,
     cv_countNonZero = \<lambda>_. Inr 0, cv_total = \<lambda>_. 0, cv_encode = \<lambda>_. []\<rparr>"

definition demo_ana :: "djson list \<Rightarrow> (djson, int, unit) ana_env" where
  "demo_ana tab = \<lparr>a_refusal = \<lambda>_ _. None, a_json = demo_json tab, a_fpu = demo_fpu, a_cv = demo_cv,
     a_dir_compare = \<lambda>_ _. Inr True, a_what = \<lambda>_. []\<rparr>"

text \<open>One run that left a file different from the golden one.\<close>

definition demo_meta :: djson where
  "demo_meta = DObj [(''result'', DObj [(''fault_injected'', DNum 1), (''exit_code'', DNum 0)])]"

definition demo_disk :: disk where
  "demo_disk = [(''/c'', Dir), (''/c/no_inj'', Dir), (''/c/no_inj/injection_0'', Dir),
     (''/c/no_inj/injection_0/out'', File ''A''), (''/c/injection_0'', Dir),
     (''/c/injection_0/injection_0.json'', File [CHR 0x0A]), (''/c/injection_0/out'', File ''B'')]"

lemma demo_analysis:
  "case analyze_injection_campaign (demo_ana [demo_meta]) ''/c'' [0] demo_disk of
     Some (Inr (stats, recs), d') \<Rightarrow> sdc_reg stats = 1 \<and> length recs = 1 | _ \<Rightarrow> False"
  by code_simp

lemma demo_analysis_ends:
  obtains stats recs d' where "analyze_injection_campaign (demo_ana [demo_meta]) ''/c'' [0] demo_disk = Some (Inr (stats, recs), d')"
    "sdc_reg stats = 1" "length recs = 1"
  using demo_analysis by (auto split: option.splits prod.splits sum.splits)

theorem summary_adds_up_witness:
  "\<exists>t d'. analyze_injection_campaign (demo_ana [demo_meta]) ''/c'' [0] demo_disk = Some (Inr t, d') \<and>
     stats_add_up t \<and> length (snd t) = 1"
proof -
  obtain stats recs d' where a: "analyze_injection_campaign (demo_ana [demo_meta]) ''/c'' [0] demo_disk = Some (Inr (stats, recs), d')"
    "length recs = 1" by (rule demo_analysis_ends)
  with summary_adds_up [OF a(1)] show ?thesis by auto
qed

theorem summary_counts_verdicts_witness:
  "card {i. 0 \<le> i \<and> i < 1 \<and> run_verdict (demo_ana [demo_meta]) ''/c'' demo_disk i = Some (Counted False SDC)} = 1"
proof -
  obtain stats recs d' where a: "analyze_injection_campaign (demo_ana [demo_meta]) ''/c'' [0] demo_disk = Some (Inr (stats, recs), d')"
    "sdc_reg stats = 1" by (rule demo_analysis_ends)
  have "schedule 1 [0]" by (simp add: schedule_def)
  moreover have "campaign_dir ''/c'' demo_disk" by code_simp
  ultimately show ?thesis using summary_counts_verdicts [OF _ _ a(1), of 1 SDC False] a(2) by simp
qed

definition demo_crash :: fij_result where
  "demo_crash = zero_result\<lparr>fault_injected := 1, exit_code := 139\<rparr>"

definition demo_payload :: djson where
  "demo_payload = (case log_payload (demo_json []) demo_fpu ''now'' 0 5 demo_crash of Inr p \<Rightarrow> p | Inl e \<Rightarrow> DNull)"

lemma demo_logged:
  "fst (log_injection_iteration (\<lambda>_ _. None) (demo_json [demo_payload]) demo_fpu ''now'' ''/c'' 0 5 demo_crash demo_disk) = Inr ()"
  "case fs_list (\<lambda>_ _. None) (golden_dir ''/c'') (snd (log_injection_iteration (\<lambda>_ _. None)
     (demo_json [demo_payload]) demo_fpu ''now'' ''/c'' 0 5 demo_crash demo_disk)) of Inr gs \<Rightarrow> True | Inl e \<Rightarrow> False"
  "log_allowed (\<lambda>_ _. None) ''/c'' 0 demo_disk"
  by code_simp+


end
