(* ===== verification/Run_Campaign.thy ===== *)
theory Run_Campaign
  imports Run_Device Run_Config Run_Verdict
begin

text \<open>
  \<open>fij_run.cpp\<close>, \<open>fij_campaign.cpp\<close> and \<open>main.cpp\<close>: a campaign is a baseline phase without injection,
  an injection phase that repeats every run until a fault has been injected, statistics, and the
  analysis of the logs. Messages and the clock that is only printed are left out.

  Both phases are parallel loops. Their iterations are modelled one after the other in the order in
  which the threads finish them, \<open>e_order\<close>; with one worker, the default, this is the program. An exception
  that leaves an iteration ends the program, and a phase may never end: \<open>None\<close>.
\<close>

section \<open>The environment\<close>

text \<open>\<open>e_touch\<close> is what the target programs write to the disk while a run lasts.\<close>

record ('w, 'j, 'd, 'm) camp_env =
  e_os :: "'w device_os"
  e_ana :: "('j, 'd, 'm) ana_env"
  e_arch :: arch
  e_cwd :: string
  e_touch :: "'w \<Rightarrow> disk \<Rightarrow> disk"
  e_hash :: "string \<Rightarrow> nat"
  e_timestamp :: "'w \<Rightarrow> string"
  e_order :: "string \<Rightarrow> nat \<Rightarrow> int \<Rightarrow> int list"

abbreviation e_refusal :: "('w, 'j, 'd, 'm) camp_env \<Rightarrow> refusal" where
  "e_refusal E \<equiv> a_refusal (e_ana E)"

abbreviation e_json :: "('w, 'j, 'd, 'm) camp_env \<Rightarrow> ('j, 'd) json_lib" where
  "e_json E \<equiv> a_json (e_ana E)"

abbreviation e_fpu :: "('w, 'j, 'd, 'm) camp_env \<Rightarrow> 'd fpu" where
  "e_fpu E \<equiv> a_fpu (e_ana E)"

record 'w camp =
  run_state :: "'w rst"
  files :: disk

record 'd campaign_result =
  cr_baseline_runs :: int
  cr_baseline_success :: int
  cr_max_delay_ms :: int
  cr_injection_requested :: int
  cr_injection_success :: int
  cr_avg_ms :: 'd
  cr_std_ms :: 'd
  cr_inj_times_ms :: "'d list"

text \<open>An operation of the file system on the state.\<close>

definition on_disk :: "(disk \<Rightarrow> 'a \<times> disk) \<Rightarrow> 'w camp \<Rightarrow> 'a \<times> 'w camp" where
  "on_disk f s = (let (r, d) = f (files s) in (r, s\<lparr>files := d\<rparr>))"

definition call_run ::
  "('w, 'j, 'd, 'm) camp_env \<Rightarrow> string \<Rightarrow> fij_params \<Rightarrow> int \<Rightarrow> int \<Rightarrow> int \<Rightarrow> int \<Rightarrow> int \<Rightarrow> 'w camp \<Rightarrow>
    ((exn + 'd \<times> fij_result) \<times> 'w camp) option" where
  "call_run E device p max_delay no_inj pre_delay_ms max_retries retry_delay_ms s = do {
     (r, q) \<leftarrow> run_send_and_poll (e_os E) (e_fpu E) device p max_delay no_inj pre_delay_ms max_retries
       retry_delay_ms 1 (run_state s);
     Some (r, s\<lparr>run_state := q, files := e_touch E (world q) (files s)\<rparr>)
   }"

section \<open>Names\<close>

definition slug_char :: "char \<Rightarrow> bool" where
  "slug_char c \<longleftrightarrow> (let n = of_char c :: nat in
     (65 \<le> n \<and> n \<le> 90) \<or> (97 \<le> n \<and> n \<le> 122) \<or> (48 \<le> n \<and> n \<le> 57) \<or> c \<in> set ''._-'')"

text \<open>\<open>regex_replace\<close> of \<open>[^A-Za-z0-9._-]+\<close> by \<open>_\<close>; the flag says that the match is going on.\<close>

primrec slug_replace :: "bool \<Rightarrow> string \<Rightarrow> string" where
  "slug_replace b [] = []"
| "slug_replace b (c # s) =
     (if slug_char c then c # slug_replace False s
      else if b then slug_replace True s
      else CHR ''_'' # slug_replace True s)"

definition slug :: "string \<Rightarrow> string" where
  "slug s =
     (let out = slug_replace False s;
          out = dropWhile (\<lambda>c. c = CHR ''_'') out;
          out = rev (dropWhile (\<lambda>c. c = CHR ''_'') (rev out))
      in map c_tolower out)"

text \<open>Lines 78 to 103.\<close>

definition logs_folder :: "(string \<Rightarrow> nat) \<Rightarrow> fij_params \<Rightarrow> string" where
  "logs_folder hash p =
     (let f = slug (path_filename (process_path p));
          f = (if process_args p \<noteq> [] then f @ ''_'' @ ''+'' @ ''_'' @ slug (process_args p) else f)
      in if 100 < length f then take 100 f @ ''_'' @ digits_in 16 (hash f) else f)"

text \<open>Lines 139 to 156 and 252 to 269.\<close>

definition expand_run_args :: "string \<Rightarrow> string \<Rightarrow> int \<Rightarrow> string" where
  "expand_run_args args_template campaign_str i =
     replace_loop ''{run}'' (to_string i)
       (replace_loop ''{campaign}'' campaign_str args_template 0) 0"

text \<open>Lines 158 to 164 and 271 to 276.\<close>

definition per_run_params :: "fij_params \<Rightarrow> string \<Rightarrow> string \<Rightarrow> string \<Rightarrow> int \<Rightarrow> fij_params" where
  "per_run_params base_params args_template campaign_str run_dir i =
     base_params\<lparr>process_args := put_cstring 4096 (expand_run_args args_template campaign_str i),
       log_path := put_cstring 1024 (path_join run_dir ''log.txt''),
       iteration_number := i\<rparr>"

section \<open>The baseline\<close>

text \<open>The arguments that stay the same during a campaign.\<close>

record run_args =
  ra_device :: string
  ra_params :: fij_params
  ra_pre_delay_ms :: int
  ra_max_retries :: int
  ra_retry_delay_ms :: int

text \<open>Lines 132 to 203: the times and results collected so far, and the next ones. Every exception of this
  body is a \<open>system_error\<close>.\<close>

definition baseline_run ::
  "('w, 'j, 'd, 'm) camp_env \<Rightarrow> run_args \<Rightarrow> string \<Rightarrow> int \<Rightarrow> ('d \<times> fij_result) list \<Rightarrow> 'w camp \<Rightarrow>
    (('d \<times> fij_result) list \<times> 'w camp) option" where
  "baseline_run E a no_inj_path i acc s =
     (let run_dir = path_join no_inj_path (run_name i)
      in case on_disk (fs_create_directories (e_refusal E) run_dir) s of
           (Inl e, s) \<Rightarrow> Some (acc, s)
         | (Inr _, s) \<Rightarrow> do {
             (r, s) \<leftarrow> call_run E (ra_device a)
               (per_run_params (ra_params a) (process_args (ra_params a)) no_inj_path run_dir i)
               0 1 (ra_pre_delay_ms a) (ra_max_retries a) (ra_retry_delay_ms a) s;
             case r of
               Inl (SystemError e) \<Rightarrow> Some (acc, s)
             | Inl e \<Rightarrow> None
             | Inr x \<Rightarrow> Some (acc @ [x], s)
           })"

primrec baseline_runs_loop ::
  "('w, 'j, 'd, 'm) camp_env \<Rightarrow> run_args \<Rightarrow> string \<Rightarrow> int list \<Rightarrow> ('d \<times> fij_result) list \<Rightarrow> 'w camp \<Rightarrow>
    (('d \<times> fij_result) list \<times> 'w camp) option" where
  "baseline_runs_loop E a no_inj_path [] acc s = Some (acc, s)"
| "baseline_runs_loop E a no_inj_path (i # order) acc s = do {
     (acc, s) \<leftarrow> baseline_run E a no_inj_path i acc s;
     baseline_runs_loop E a no_inj_path order acc s
   }"

text \<open>Lines 210 to 218. \<open>size() - 2\<close> is a \<open>size_t\<close>.\<close>

definition baseline_divisor :: "nat \<Rightarrow> int" where
  "baseline_divisor n = (int n - 2) mod 2 ^ 64"

definition baseline_max_delay :: "'d fpu \<Rightarrow> 'd list \<Rightarrow> int" where
  "baseline_max_delay F ts =
     (let tot_time = foldl (f_add F) (f_of_int F 0) (drop 2 ts);
          avg_s = f_div F tot_time (f_of_int F (baseline_divisor (length ts)));
          max_delay_ms = f_round F (f_ms F avg_s)
      in if max_delay_ms \<le> 0 then 1 else max_delay_ms)"

section \<open>The injections\<close>

type_synonym 'd inj = "'d list \<times> fij_result list"

text \<open>Lines 247 to 323, one attempt: has it been successful. A \<open>system_error\<close> of the log is caught after the
  flag has been set; any other exception is not caught.\<close>

definition inject_turn ::
  "('w, 'j, 'd, 'm) camp_env \<Rightarrow> run_args \<Rightarrow> string \<Rightarrow> int \<Rightarrow> int \<Rightarrow> 'd inj \<Rightarrow> 'w camp \<Rightarrow>
    (bool \<times> 'd inj \<times> 'w camp) option" where
  "inject_turn E a campaign_path max_delay i acc s =
     (let run_dir = path_join campaign_path (run_name i)
      in case on_disk (fs_create_directories (e_refusal E) run_dir) s of
           (Inl e, s) \<Rightarrow> Some (False, acc, s)
         | (Inr _, s) \<Rightarrow> do {
             (r, s) \<leftarrow> call_run E (ra_device a)
               (per_run_params (ra_params a) (process_args (ra_params a)) campaign_path run_dir i)
               max_delay 0 (ra_pre_delay_ms a) (ra_max_retries a) (ra_retry_delay_ms a) s;
             case r of
               Inl (SystemError e) \<Rightarrow> Some (False, acc, s)
             | Inl e \<Rightarrow> None
             | Inr (dt, res) \<Rightarrow>
                 if fault_injected res = 0 then Some (False, acc, s)
                 else let acc = ((fst acc)[nat i := dt], (snd acc)[nat i := res])
                      in case on_disk (log_injection_iteration (e_refusal E) (e_json E) (e_fpu E)
                             (e_timestamp E (world (run_state s))) campaign_path i dt res) s of
                           (Inr _, s) \<Rightarrow> Some (True, acc, s)
                         | (Inl (SystemError e), s) \<Rightarrow> Some (True, acc, s)
                         | (Inl e, s) \<Rightarrow> None
           })"

partial_function (option) inject_loop ::
  "('w, 'j, 'd, 'm) camp_env \<Rightarrow> run_args \<Rightarrow> string \<Rightarrow> int \<Rightarrow> int \<Rightarrow> 'd inj \<Rightarrow> 'w camp \<Rightarrow>
    ('d inj \<times> 'w camp) option" where
  "inject_loop E a campaign_path max_delay i acc s = do {
     (success, acc, s) \<leftarrow> inject_turn E a campaign_path max_delay i acc s;
     if success then Some (acc, s) else inject_loop E a campaign_path max_delay i acc s
   }"

primrec inject_runs ::
  "('w, 'j, 'd, 'm) camp_env \<Rightarrow> run_args \<Rightarrow> string \<Rightarrow> int \<Rightarrow> int list \<Rightarrow> 'd inj \<Rightarrow> 'w camp \<Rightarrow>
    ('d inj \<times> 'w camp) option" where
  "inject_runs E a campaign_path max_delay [] acc s = Some (acc, s)"
| "inject_runs E a campaign_path max_delay (i # order) acc s = do {
     (acc, s) \<leftarrow> inject_loop E a campaign_path max_delay i acc s;
     inject_runs E a campaign_path max_delay order acc s
   }"

text \<open>Lines 237 to 325.\<close>

definition injection_phase ::
  "('w, 'j, 'd, 'm) camp_env \<Rightarrow> run_args \<Rightarrow> string \<Rightarrow> int \<Rightarrow> int \<Rightarrow> 'w camp \<Rightarrow> ('d inj \<times> 'w camp) option" where
  "injection_phase E a campaign_path max_delay runs s =
     inject_runs E a campaign_path max_delay (e_order E campaign_path 1 runs)
       (replicate (nat runs) (f_of_int (e_fpu E) (- 1)), replicate (nat runs) zero_result) s"

section \<open>Statistics\<close>

text \<open>Lines 336 to 348.\<close>

definition mean_and_stddev :: "'d fpu \<Rightarrow> 'd list \<Rightarrow> 'd \<times> 'd" where
  "mean_and_stddev F ts =
     (let n = int (length ts);
          avg = f_div F (foldl (f_add F) (f_of_int F 0) ts) (f_of_int F n);
          var = (if 1 < n
            then f_div F (foldl (\<lambda>v t. f_add F v (f_mul F (f_sub F t avg) (f_sub F t avg))) (f_of_int F 0) ts)
              (f_of_int F (n - 1))
            else f_of_int F 0)
      in (avg, f_sqrt F var))"

text \<open>Lines 363 to 374. The member \<open>baseline_min_ms\<close> is never assigned.\<close>

definition make_result :: "'d fpu \<Rightarrow> int \<Rightarrow> nat \<Rightarrow> int \<Rightarrow> int \<Rightarrow> 'd list \<Rightarrow> 'd campaign_result" where
  "make_result F baseline_runs baseline_ok max_delay runs successful_times =
     (let (avg, stddev) = mean_and_stddev F successful_times
      in \<lparr>cr_baseline_runs = baseline_runs, cr_baseline_success = int baseline_ok,
          cr_max_delay_ms = max_delay, cr_injection_requested = runs,
          cr_injection_success = int (length successful_times), cr_avg_ms = f_ms F avg,
          cr_std_ms = f_ms F stddev, cr_inj_times_ms = map (f_ms F) successful_times\<rparr>)"

section \<open>A campaign\<close>

text \<open>Lines 34 to 56.\<close>

definition check_campaign ::
  "refusal \<Rightarrow> string \<Rightarrow> fij_params \<Rightarrow> int \<Rightarrow> int \<Rightarrow> disk \<Rightarrow> exn + int" where
  "check_campaign R device base_params runs baseline_runs d =
     ok_bind (fs_exists R device d) (\<lambda>found.
     if \<not> found then Inl (SystemError ENOENT)
     else if runs \<le> 0 then Inl InvalidArgument
     else if baseline_runs \<le> 0 then Inl InvalidArgument
     else let baseline_runs = (if baseline_runs \<le> 2 then 3 else baseline_runs)
          in if process_path base_params = [] then Inr baseline_runs
             else ok_bind (fs_exists R (process_path base_params) d) (\<lambda>found.
               if \<not> found then Inl (SystemError ENOENT) else Inr baseline_runs))"

text \<open>Lines 109 to 378, in the directory of the campaign.\<close>

definition campaign_phases ::
  "('w, 'j, 'd, 'm) camp_env \<Rightarrow> run_args \<Rightarrow> string \<Rightarrow> int \<Rightarrow> int \<Rightarrow> 'w camp \<Rightarrow>
    ((exn + 'd campaign_result) \<times> 'w camp) option" where
  "campaign_phases E a campaign_path runs baseline_runs s =
     (let no_inj_path = path_join campaign_path ''no_inj''; F = e_fpu E; label = label_from_params (ra_params a)
      in case on_disk (fs_create_directories (e_refusal E) no_inj_path) s of
           (Inl e, s) \<Rightarrow> Some (Inl e, s)
         | (Inr _, s) \<Rightarrow> do {
             (base, s) \<leftarrow> baseline_runs_loop E a no_inj_path (e_order E campaign_path 0 baseline_runs) [] s;
             if base = [] then Some (Inl (RuntimeError (''All baseline runs failed for target '' @ label @
               ''; cannot determine max_delay_ms.'')), s)
             else do {
               let max_delay = baseline_max_delay F (map fst base);
               (inj, s) \<leftarrow> injection_phase E a campaign_path max_delay runs s;
               let successful_times = filter (f_nonneg F) (fst inj);
               if successful_times = [] then Some (Inl (RuntimeError (''All injection runs failed for target '' @ label @ ''.'')), s)
               else do {
                 (r, d) \<leftarrow> analyze_injection_campaign (e_ana E) campaign_path (e_order E campaign_path 2 runs) (files s);
                 let s = s\<lparr>files := d\<rparr>;
                 case r of
                   Inl e \<Rightarrow> Some (Inl e, s)
                 | Inr t \<Rightarrow> Some (Inr (make_result F baseline_runs (length base) max_delay runs successful_times), s)
               }
             }
           })"

definition run_injection_campaign ::
  "('w, 'j, 'd, 'm) camp_env \<Rightarrow> run_args \<Rightarrow> int \<Rightarrow> int \<Rightarrow> 'w camp \<Rightarrow> ((exn + 'd campaign_result) \<times> 'w camp) option" where
  "run_injection_campaign E a runs baseline_runs s =
     (case check_campaign (e_refusal E) (ra_device a) (ra_params a) runs baseline_runs (files s) of
        Inl e \<Rightarrow> Some (Inl e, s)
      | Inr baseline_runs \<Rightarrow> do {
          (r, d) \<leftarrow> create_dir_in_path (e_refusal E) (e_cwd E) ''../fij_logs'' (logs_folder (e_hash E) (ra_params a))
            (files s);
          let s = s\<lparr>files := d\<rparr>;
          case r of
            Inl e \<Rightarrow> Some (Inl e, s)
          | Inr campaign_path \<Rightarrow> campaign_phases E a campaign_path runs baseline_runs s
        })"

section \<open>All campaigns\<close>

primrec run_jobs ::
  "('w, 'j, 'd, 'm) camp_env \<Rightarrow> string \<Rightarrow> int \<Rightarrow> int \<Rightarrow> int \<Rightarrow> fij_job list \<Rightarrow> 'w camp \<Rightarrow> ((exn + unit) \<times> 'w camp) option" where
  "run_jobs E device pre_delay_ms max_retries retry_delay_ms [] s = Some (Inr (), s)"
| "run_jobs E device pre_delay_ms max_retries retry_delay_ms (job # jobs) s = do {
     (r, s) \<leftarrow> run_injection_campaign E
       \<lparr>ra_device = device, ra_params = job_params job, ra_pre_delay_ms = pre_delay_ms,
        ra_max_retries = max_retries, ra_retry_delay_ms = retry_delay_ms\<rparr>
       (job_runs job) (job_baseline_runs job) s;
     case r of
       Inl e \<Rightarrow> Some (Inl e, s)
     | Inr _ \<Rightarrow> run_jobs E device pre_delay_ms max_retries retry_delay_ms jobs s
   }"

text \<open>With the default arguments of \<open>fij.hpp\<close>.\<close>

definition run_campaigns_from_config ::
  "('w, 'j, 'd, 'm) camp_env \<Rightarrow> string \<Rightarrow> 'w camp \<Rightarrow> ((exn + unit) \<times> 'w camp) option" where
  "run_campaigns_from_config E config_path s =
     (case load_fij_jobs_from_file (e_refusal E) (e_arch E) (e_json E) config_path (files s) of
        Inl e \<Rightarrow> Some (Inl e, s)
      | Inr jobs \<Rightarrow> run_jobs E ''/dev/fij'' 0 5 50 jobs s)"

text \<open>The exit status.\<close>

definition main_program :: "('w, 'j, 'd, 'm) camp_env \<Rightarrow> string list \<Rightarrow> 'w camp \<Rightarrow> (int \<times> 'w camp) option" where
  "main_program E argv s =
     (if length argv \<noteq> 2 then Some (1, s)
      else do {
        (r, s) \<leftarrow> run_campaigns_from_config E (argv ! 1) s;
        Some (case r of Inl e \<Rightarrow> 1 | Inr _ \<Rightarrow> 0, s)
      })"

section \<open>The directory of a campaign\<close>

lemma slug_replace_chars: "c \<in> set (slug_replace b s) \<Longrightarrow> slug_char c \<or> c = CHR ''_''"
  by (induction s arbitrary: b) (auto split: if_split_asm)

lemma slug_plain: "plain (slug s)"
proof -
  have "c \<noteq> CHR ''/''" if "slug_char c \<or> c = CHR ''_''" for c
    using that by (auto simp: slug_char_def Let_def)
  moreover have "c_tolower c \<noteq> CHR ''/''" if "c \<noteq> CHR ''/''" for c
  proof (cases "65 \<le> (of_char c :: nat) \<and> (of_char c :: nat) \<le> 90")
    case True
    then have "of_char (c_tolower c) = (of_char c + 32 :: nat)" by (simp add: c_tolower_def of_char_of)
    with True have "(of_char (c_tolower c) :: nat) \<noteq> of_char (CHR ''/'')" by simp
    then show ?thesis by metis
  next
    case False
    with that show ?thesis unfolding c_tolower_def by (simp only: if_False simp_thms)
  qed
  ultimately have ok: "c_tolower c \<noteq> CHR ''/''" if "c \<in> set (slug_replace False s)" for c
    using slug_replace_chars [OF that] by metis
  show ?thesis unfolding plain_def
  proof
    assume "CHR ''/'' \<in> set (slug s)"
    then obtain c where "c_tolower c = CHR ''/''"
        "c \<in> set (dropWhile (\<lambda>c. c = CHR ''_'') (rev (dropWhile (\<lambda>c. c = CHR ''_'') (slug_replace False s))))"
      unfolding slug_def Let_def by (metis (no_types, lifting) imageE list.set_map set_rev)
    with ok show False by (metis set_dropWhileD set_rev)
  qed
qed

lemma logs_folder_plain: "plain (logs_folder hash p)"
  using slug_plain plain_digits [of 16] by (auto simp: logs_folder_def Let_def plain_def dest: in_set_takeD)


definition demo_old_logs :: disk where
  "demo_old_logs = [(''/h'', Dir), (''/h/..'', Dir), (''/h/../fij_logs'', Dir), (''/h/../fij_logs/ls_x'', Dir)]"

definition demo_target :: fij_params where
  "demo_target = zero_params\<lparr>process_path := ''/bin/Ls x''\<rparr>"

lemma demo_folder: "logs_folder (\<lambda>_. 0) demo_target = ''ls_x''"
  by code_simp


section \<open>What a campaign sends\<close>

text \<open>Descriptors are balanced and the messages sent satisfy \<open>P\<close>.\<close>

definition sends_only :: "(fij_params \<Rightarrow> bool) \<Rightarrow> 'w camp \<Rightarrow> 'w camp \<Rightarrow> bool" where
  "sends_only P s s' \<longleftrightarrow> fds (run_state s') = fds (run_state s) \<and>
     (\<exists>l. sends (run_state s') = sends (run_state s) @ l \<and> list_all P l)"

lemma sends_only_refl [simp]: "sends_only P s s"
  by (simp add: sends_only_def)

lemma sends_only_trans: "sends_only P s s1 \<Longrightarrow> sends_only P s1 s2 \<Longrightarrow> sends_only P s s2"
  by (auto simp: sends_only_def)

lemma on_disk_run_state: "run_state (snd (on_disk f s)) = run_state s"
  by (simp add: on_disk_def split: prod.splits)

lemma on_disk_sends: "on_disk f s = (r, s1) \<Longrightarrow> sends_only P s s1"
  using on_disk_run_state [of f s] by (simp add: sends_only_def)

definition message_of :: "run_args \<Rightarrow> int \<Rightarrow> int \<Rightarrow> fij_params \<Rightarrow> bool" where
  "message_of a no_inj max_delay p \<longleftrightarrow> no_injection p = no_inj \<and> max_delay_ms p = max_delay \<and>
     min_delay_ms p = min_delay_ms (ra_params a) \<and> target_reg p = target_reg (ra_params a) \<and>
     process_path p = process_path (ra_params a)"

lemma call_run_sends:
  "wlp (call_run E (ra_device a) (per_run_params (ra_params a) tmpl c d i) md ni pre mr rd s)
     (\<lambda>(r, s'). sends_only (message_of a ni md) s s')"
proof -
  have "list_all (message_of a ni md) (replicate n ((per_run_params (ra_params a) tmpl c d i)
      \<lparr>no_injection := ni, max_delay_ms := md\<rparr>))" for n
    by (simp add: list_all_iff message_of_def per_run_params_def)
  then show ?thesis
    unfolding call_run_def wlp_simps
    by (intro wlp_mono [OF run_disciplined]) (auto simp: sends_only_def)
qed

lemma baseline_run_sends:
  "wlp (baseline_run E a np i acc s) (\<lambda>(r, s'). sends_only (message_of a 1 0) s s')"
proof -
  obtain r s1 where mk: "on_disk (fs_create_directories (e_refusal E) (path_join np (run_name i))) s = (r, s1)" by force
  note s1 = on_disk_sends [OF mk]
  show ?thesis
  proof (cases r)
    case (Inr u)
    show ?thesis
      using mk Inr s1
      by (auto simp: baseline_run_def Let_def split: sum.splits exn.splits
        intro!: wlp_mono [OF call_run_sends] intro: sends_only_trans [OF s1])
  qed (use mk s1 in \<open>simp add: baseline_run_def Let_def\<close>)
qed

lemma baseline_loop_sends:
  "wlp (baseline_runs_loop E a np order acc s) (\<lambda>(r, s'). sends_only (message_of a 1 0) s s')"
proof (induction order arbitrary: acc s)
  case (Cons i order)
  have "wlp (baseline_runs_loop E a np order acc1 s1) (\<lambda>(r, s'). sends_only (message_of a 1 0) s s')"
    if "sends_only (message_of a 1 0) s s1" for acc1 s1
    by (rule wlp_mono [OF Cons.IH]) (auto intro: sends_only_trans [OF that])
  then show ?case by (auto intro!: wlp_mono [OF baseline_run_sends])
qed simp

text \<open>A successful attempt stores one time and one result with an injected fault.\<close>

definition turn_ok :: "run_args \<Rightarrow> int \<Rightarrow> int \<Rightarrow> 'd inj \<Rightarrow> 'w camp \<Rightarrow> bool \<times> 'd inj \<times> 'w camp \<Rightarrow> bool" where
  "turn_ok a md i acc s x \<longleftrightarrow> (case x of (success, acc', s') \<Rightarrow> sends_only (message_of a 0 md) s s' \<and>
     (if success then \<exists>dt res. fault_injected res \<noteq> 0 \<and> acc' = ((fst acc)[nat i := dt], (snd acc)[nat i := res])
      else acc' = acc))"

lemma inject_turn_post: "wlp (inject_turn E a cp md i acc s) (turn_ok a md i acc s)"
proof -
  obtain r s1 where mk: "on_disk (fs_create_directories (e_refusal E) (path_join cp (run_name i))) s = (r, s1)" by force
  note s1 = on_disk_sends [OF mk]
  show ?thesis
  proof (cases r)
    case (Inr u)
    have log: "sends_only P s s3" if "sends_only P s1 s2" "on_disk f s2 = (r, s3)" for P s2 f r s3
      using sends_only_trans [OF s1 sends_only_trans [OF that(1) on_disk_sends [OF that(2)]]] .
    show ?thesis
      using mk Inr
      by (auto simp: inject_turn_def Let_def turn_ok_def split: sum.splits exn.splits prod.splits
        intro!: wlp_mono [OF call_run_sends] intro: sends_only_trans [OF s1] log)
  qed (use mk s1 in \<open>simp add: inject_turn_def Let_def turn_ok_def\<close>)
qed

text \<open>The rules of the two loops: \<open>I\<close> holds whenever an attempt begins, \<open>J\<close> whenever a run begins, and \<open>R i\<close>
  is what is stored for run \<open>i\<close>.\<close>

lemma inject_loop_rule:
  assumes turn: "\<And>acc s. I acc s \<Longrightarrow>
      wlp (inject_turn E a cp md i acc s) (\<lambda>(ok, acc', s'). if ok then Q acc' s' else I acc' s')"
    and "I acc s"
  shows "wlp (inject_loop E a cp md i acc s) (\<lambda>(acc', s'). Q acc' s')"
proof (rule wlpI)
  fix p
  assume "inject_loop E a cp md i acc s = Some p"
  then have "(E, a, cp, md, i) = (E, a, cp, md, i) \<longrightarrow> I acc s \<longrightarrow> Q (fst p) (snd p)"
  proof (rule inject_loop.raw_induct [where P = "\<lambda>E' a' cp' md' i' acc s p.
      (E', a', cp', md', i') = (E, a, cp, md, i) \<longrightarrow> I acc s \<longrightarrow> Q (fst p) (snd p)", rotated], intro impI)
    fix f E' a' cp' md' i' acc s p
    assume IH: "\<And>E' a' cp' md' i' acc s p. f E' a' cp' md' i' acc s = Some p \<Longrightarrow>
        (E', a', cp', md', i') = (E, a, cp, md, i) \<longrightarrow> I acc s \<longrightarrow> Q (fst p) (snd p)"
      and run: "Option.bind (inject_turn E' a' cp' md' i' acc s) (\<lambda>(success, acc, s).
        if success then Some (acc, s) else f E' a' cp' md' i' acc s) = Some p"
      and eq: "(E', a', cp', md', i') = (E, a, cp, md, i)" and "I acc s"
    from run eq obtain ok acc1 s1 where one: "inject_turn E a cp md i acc s = Some (ok, acc1, s1)"
      by (auto simp: bind_eq_Some_conv)
    from wlpD [OF turn one] \<open>I acc s\<close> have post: "if ok then Q acc1 s1 else I acc1 s1" by simp
    show "Q (fst p) (snd p)"
      using run one eq post IH [of E a cp md i acc1 s1 p] by (cases ok) auto
  qed
  with assms(2) show "case p of (acc', s') \<Rightarrow> Q acc' s'" by (auto split: prod.splits)
qed

lemma inject_runs_rule:
  assumes loop: "\<And>i acc s. i \<in> set order \<Longrightarrow> J s \<Longrightarrow> wlp (inject_loop E a cp md i acc s) (\<lambda>(acc', s').
      J s' \<and> (\<exists>dt res. R i res \<and> acc' = ((fst acc)[nat i := dt], (snd acc)[nat i := res])))"
    and "J s"
  shows "wlp (inject_runs E a cp md order acc s) (\<lambda>(acc', s'). J s' \<and> length (snd acc') = length (snd acc) \<and>
    (\<forall>k < length (snd acc). (\<exists>i \<in> set order. k = nat i \<and> R i (snd acc' ! k)) \<or>
      k \<notin> nat ` set order \<and> snd acc' ! k = snd acc ! k))"
  using assms
proof (induction order arbitrary: acc s)
  case (Cons i order)
  show ?case
  proof (rule wlpI)
    fix p
    assume "inject_runs E a cp md (i # order) acc s = Some p"
    then obtain acc1 s1 where 1: "inject_loop E a cp md i acc s = Some (acc1, s1)"
      and 2: "inject_runs E a cp md order acc1 s1 = Some p"
      by (auto simp: bind_eq_Some_conv)
    from wlpD [OF Cons.prems(1) 1] Cons.prems(2) obtain dt res where
      s1: "J s1" and res: "R i res" and acc1: "acc1 = ((fst acc)[nat i := dt], (snd acc)[nat i := res])" by auto
    from wlpD [OF Cons.IH 2] s1 Cons.prems(1) have ih: "J (snd p)" "length (snd (fst p)) = length (snd acc)"
      "\<And>k. k < length (snd acc) \<Longrightarrow> (\<exists>i \<in> set order. k = nat i \<and> R i (snd (fst p) ! k)) \<or>
        k \<notin> nat ` set order \<and> snd (fst p) ! k = snd acc1 ! k"
      by (auto simp: acc1 split: prod.splits)
    have "(\<exists>i \<in> set (i # order). k = nat i \<and> R i (snd (fst p) ! k)) \<or>
        k \<notin> nat ` set (i # order) \<and> snd (fst p) ! k = snd acc ! k" if "k < length (snd acc)" for k
      using ih(3) [OF that] that res by (cases "k = nat i") (auto simp: acc1)
    then have "\<forall>k < length (snd acc). (\<exists>i \<in> set (i # order). k = nat i \<and> R i (snd (fst p) ! k)) \<or>
        k \<notin> nat ` set (i # order) \<and> snd (fst p) ! k = snd acc ! k" by blast
    with ih(1,2) show "case p of (acc', s') \<Rightarrow> J s' \<and> length (snd acc') = length (snd acc) \<and>
        (\<forall>k < length (snd acc). (\<exists>i \<in> set (i # order). k = nat i \<and> R i (snd acc' ! k)) \<or>
          k \<notin> nat ` set (i # order) \<and> snd acc' ! k = snd acc ! k)"
      by (simp only: case_prod_unfold)
  qed
qed simp

lemma inject_loop_post: "wlp (inject_loop E a cp md i acc s) (\<lambda>p. turn_ok a md i acc s (True, p))"
proof -
  have "wlp (inject_loop E a cp md i acc s) (\<lambda>(acc', s'). turn_ok a md i acc s (True, acc', s'))"
  proof (rule inject_loop_rule [where I = "\<lambda>acc1 s1. turn_ok a md i acc s (False, acc1, s1)"])
    fix acc1 s1
    assume before: "turn_ok a md i acc s (False, acc1, s1)"
    show "wlp (inject_turn E a cp md i acc1 s1) (\<lambda>(ok, acc', s'). if ok then turn_ok a md i acc s (True, acc', s')
        else turn_ok a md i acc s (False, acc', s'))"
      by (rule wlp_mono [OF inject_turn_post]) (use before in \<open>auto simp: turn_ok_def intro: sends_only_trans\<close>)
  qed (simp add: turn_ok_def)
  then show ?thesis by (rule wlp_mono) (simp add: case_prod_unfold)
qed

lemma inject_runs_post:
  "wlp (inject_runs E a cp md order acc s) (\<lambda>(acc', s'). sends_only (message_of a 0 md) s s' \<and>
     length (snd acc') = length (snd acc) \<and>
     (\<forall>k < length (snd acc). (\<exists>i \<in> set order. k = nat i \<and> fault_injected (snd acc' ! k) \<noteq> 0) \<or>
       k \<notin> nat ` set order \<and> snd acc' ! k = snd acc ! k))"
proof (rule inject_runs_rule)
  fix i acc1 s1
  assume "sends_only (message_of a 0 md) s s1"
  then show "wlp (inject_loop E a cp md i acc1 s1) (\<lambda>(acc', s'). sends_only (message_of a 0 md) s s' \<and>
      (\<exists>dt res. fault_injected res \<noteq> 0 \<and> acc' = ((fst acc1)[nat i := dt], (snd acc1)[nat i := res])))"
    by (intro wlp_mono [OF inject_loop_post]) (auto simp: turn_ok_def intro: sends_only_trans)
qed simp

text \<open>The environment runs every iteration of a loop once.\<close>

definition fair_order :: "('w, 'j, 'd, 'm) camp_env \<Rightarrow> bool" where
  "fair_order E \<longleftrightarrow> (\<forall>path phase n. schedule n (e_order E path phase n))"

lemma schedule_set: "schedule n order \<Longrightarrow> set order = {0..n - 1}"
  by (metis schedule_def set_mset_mset set_upto)

lemma fair_set: "fair_order E \<Longrightarrow> set (e_order E path phase n) = {0..n - 1}"
  using schedule_set unfolding fair_order_def by blast

text \<open>C16: When the injection phase ends, every one of the requested runs has a result with an injected
  fault: a campaign never reports fewer.\<close>

theorem injection_phase_injects_all:
  assumes "fair_order E" and "injection_phase E a campaign_path max_delay runs s = Some ((ts, results), s')"
  shows "length results = nat runs \<and> list_all (\<lambda>r. fault_injected r \<noteq> 0) results"
proof -
  have order: "set (e_order E campaign_path 1 runs) = {0..runs - 1}" by (rule fair_set [OF assms(1)])
  note post = wlpD [OF inject_runs_post assms(2) [unfolded injection_phase_def]]
  have "k \<in> nat ` {0..runs - 1}" if "k < nat runs" for k
    by (rule image_eqI [of _ _ "int k"]) (use that in auto)
  with post order show ?thesis by (fastforce simp: list_all_length)
qed

text \<open>A module that reports every run without a fault, for instance because the requested register has no
  slot or the probe is never hit.\<close>

definition never_injects :: "('w, 'j, 'd, 'm) camp_env \<Rightarrow> run_args \<Rightarrow> int \<Rightarrow> bool" where
  "never_injects E a max_delay \<longleftrightarrow> (\<forall>p s dt res s'.
     call_run E (ra_device a) p max_delay 0 (ra_pre_delay_ms a) (ra_max_retries a) (ra_retry_delay_ms a) s =
       Some (Inr (dt, res), s') \<longrightarrow> fault_injected res = 0)"

lemma never_injects_turn:
  assumes "never_injects E a md" "inject_turn E a cp md i acc s = Some (ok, acc', s')"
  shows "\<not> ok"
proof -
  let ?dir = "path_join cp (run_name i)"
  let ?p = "per_run_params (ra_params a) (process_args (ra_params a)) cp ?dir i"
  obtain r s1 where mk: "on_disk (fs_create_directories (e_refusal E) ?dir) s = (r, s1)" by force
  show ?thesis
  proof (cases r)
    case (Inr u)
    with mk assms(2) obtain r2 s2 where
      call: "call_run E (ra_device a) ?p md 0 (ra_pre_delay_ms a) (ra_max_retries a) (ra_retry_delay_ms a) s1 = Some (r2, s2)"
      by (auto simp: inject_turn_def Let_def bind_eq_Some_conv)
    show ?thesis
    proof (cases r2)
      case (Inl e)
      with mk Inr call assms(2) show ?thesis by (cases e) (simp_all add: inject_turn_def Let_def)
    next
      case (Inr x)
      obtain dt res where x: "x = (dt, res)" by force
      with assms(1) call Inr have "fault_injected res = 0" unfolding never_injects_def by blast
      with mk \<open>r = Inr u\<close> Inr call x assms(2) show ?thesis by (simp add: inject_turn_def Let_def)
    qed
  qed (use mk assms(2) in \<open>simp add: inject_turn_def Let_def\<close>)
qed

lemma never_injects_loop:
  assumes "never_injects E a md"
  shows "inject_loop E a cp md i acc s = None"
proof -
  have "wlp (inject_loop E a cp md i acc s) (\<lambda>(acc', s'). False)"
    by (rule inject_loop_rule [where I = "\<lambda>_ _. True"]) (auto intro!: wlpI dest: never_injects_turn [OF assms])
  then show ?thesis by (cases "inject_loop E a cp md i acc s") auto
qed

text \<open>If no run ever reports a fault the campaign does not end: the number of attempts at a run is not
  bounded.\<close>

theorem campaign_may_never_end:
  assumes "fair_order E" and "never_injects E a max_delay" and "0 < runs"
  shows "injection_phase E a campaign_path max_delay runs s = None"
proof -
  have "set (e_order E campaign_path 1 runs) = {0..runs - 1}" by (rule fair_set [OF assms(1)])
  with assms(3) obtain i order where "e_order E campaign_path 1 runs = i # order"
    by (cases "e_order E campaign_path 1 runs") auto
  then show ?thesis by (simp add: injection_phase_def never_injects_loop [OF assms(2)])
qed

lemma max_delay_pos: "1 \<le> baseline_max_delay F ts"
  by (simp add: baseline_max_delay_def Let_def)

text \<open>The baseline drops the first two times to complete and divides by the number of the others; with
  fewer than three successes, which failed runs can cause although at least three are requested, the
  unsigned subtraction wraps and the divisor is 0 or close to \<open>2 ^ 64\<close>. The delay is positive anyway.\<close>

theorem baseline_average_window:
  "baseline_divisor n = (if n = 0 then 2 ^ 64 - 2 else if n = 1 then 2 ^ 64 - 1
     else if n < 2 ^ 64 then int n - 2 else (int n - 2) mod 2 ^ 64) \<and>
   baseline_max_delay F (t1 # t2 # ts) =
     (let m = f_round F (f_ms F (f_div F (foldl (f_add F) (f_of_int F 0) ts)
        (f_of_int F (baseline_divisor (length ts + 2))))) in if m \<le> 0 then 1 else m) \<and>
   1 \<le> baseline_max_delay F ts'"
  by (auto simp: baseline_divisor_def baseline_max_delay_def Let_def)

definition campaign_sends :: "run_args \<Rightarrow> 'w camp \<Rightarrow> exn + 'd campaign_result \<Rightarrow> 'w camp \<Rightarrow> bool" where
  "campaign_sends a s r s' \<longleftrightarrow> (\<exists>l1 l2 delay.
     fds (run_state s') = fds (run_state s) \<and> sends (run_state s') = sends (run_state s) @ l1 @ l2 \<and>
     list_all (message_of a 1 0) l1 \<and> list_all (message_of a 0 delay) l2 \<and> 1 \<le> delay \<and>
     (case r of Inl e \<Rightarrow> True | Inr cr \<Rightarrow> cr_max_delay_ms cr = delay))"

lemma campaign_sends_none: "run_state s' = run_state s \<Longrightarrow> campaign_sends a s (Inl e) s'"
  unfolding campaign_sends_def by (intro exI [of _ "[]"] exI [of _ 1]) simp

lemma campaign_sends_two:
  assumes "sends_only (message_of a 1 0) s s1" "sends_only (message_of a 0 delay) s1 s2" "1 \<le> delay"
    and "run_state s' = run_state s2" "case r of Inl e \<Rightarrow> True | Inr cr \<Rightarrow> cr_max_delay_ms cr = delay"
  shows "campaign_sends a s r s'"
proof -
  from assms(1) obtain l1 where l1: "fds (run_state s1) = fds (run_state s)"
      "sends (run_state s1) = sends (run_state s) @ l1" "list_all (message_of a 1 0) l1"
    by (auto simp: sends_only_def)
  from assms(2) obtain l2 where l2: "fds (run_state s2) = fds (run_state s1)"
      "sends (run_state s2) = sends (run_state s1) @ l2" "list_all (message_of a 0 delay) l2"
    by (auto simp: sends_only_def)
  show ?thesis
    unfolding campaign_sends_def
    by (intro exI [of _ l1] exI [of _ l2] exI [of _ delay]) (use assms(3-5) l1 l2 in simp)
qed

lemma campaign_phases_sends:
  "wlp (campaign_phases E a cp runs br s) (\<lambda>(r, s'). campaign_sends a s r s')"
proof (rule wlpI)
  fix p
  assume run: "campaign_phases E a cp runs br s = Some p"
  obtain r0 s0 where mk: "on_disk (fs_create_directories (e_refusal E) (path_join cp ''no_inj'')) s = (r0, s0)" by force
  then have s0: "run_state s0 = run_state s" by (metis on_disk_run_state snd_conv)
  have one: "1 \<le> (1 :: int)" by simp
  show "case p of (r, s') \<Rightarrow> campaign_sends a s r s'"
  proof (cases r0)
    case (Inl e)
    with run mk s0 show ?thesis by (auto simp: campaign_phases_def Let_def intro: campaign_sends_none)
  next
    case (Inr u)
    with run mk obtain base s1 where
      base: "baseline_runs_loop E a (path_join cp ''no_inj'') (e_order E cp 0 br) [] s0 = Some (base, s1)"
      by (auto simp: campaign_phases_def Let_def bind_eq_Some_conv)
    have "sends_only (message_of a 1 0) s0 s1" using wlpD [OF baseline_loop_sends base] by simp
    with s0 have s1: "sends_only (message_of a 1 0) s s1" by (simp add: sends_only_def)
    show ?thesis
    proof (cases "base = []")
      case True
      with run mk Inr base have "\<exists>e. p = (Inl e, s1)" by (auto simp: campaign_phases_def Let_def)
      then obtain e where p: "p = (Inl e, s1)" by blast
      show ?thesis
        unfolding p prod.case by (rule campaign_sends_two [OF s1 sends_only_refl one refl]) simp
    next
      case False
      let ?d = "baseline_max_delay (e_fpu E) (map fst base)"
      from run mk Inr base False obtain inj s2 where
        inj: "injection_phase E a cp ?d runs s1 = Some (inj, s2)"
        by (auto simp: campaign_phases_def Let_def bind_eq_Some_conv)
      have s2: "sends_only (message_of a 0 ?d) s1 s2"
        using wlpD [OF inject_runs_post inj [unfolded injection_phase_def]] by auto
      note two = campaign_sends_two [OF s1 s2 max_delay_pos]
      show ?thesis
      proof (cases "filter (f_nonneg (e_fpu E)) (fst inj) = []")
        case True
        with run mk Inr base False inj have "\<exists>e. p = (Inl e, s2)" by (auto simp: campaign_phases_def Let_def)
        then obtain e where p: "p = (Inl e, s2)" by blast
        show ?thesis unfolding p prod.case by (rule two [OF refl]) simp
      next
        case ok: False
        with run mk Inr base False inj obtain r d where
          an: "analyze_injection_campaign (e_ana E) cp (e_order E cp 2 runs) (files s2) = Some (r, d)"
          by (auto simp: campaign_phases_def Let_def bind_eq_Some_conv)
        from run mk Inr base False inj ok an
        have "\<exists>x. p = (x, s2\<lparr>files := d\<rparr>) \<and> (\<forall>cr. x = Inr cr \<longrightarrow> cr_max_delay_ms cr = ?d)"
          by (cases r) (auto simp: campaign_phases_def make_result_def Let_def split: prod.splits)
        then obtain x where p: "p = (x, s2\<lparr>files := d\<rparr>)" "\<And>cr. x = Inr cr \<Longrightarrow> cr_max_delay_ms cr = ?d" by blast
        show ?thesis unfolding p(1) prod.case
          by (rule two) (use p(2) in \<open>simp_all split: sum.splits\<close>)
      qed
    qed
  qed
qed

lemma campaign_sends_files: "campaign_sends a (s\<lparr>files := d\<rparr>) r s' \<longleftrightarrow> campaign_sends a s r s'"
  by (simp add: campaign_sends_def)

text \<open>C17: What a campaign as a whole sends: first messages without injection and without a delay, then
  messages with injection, all with the one delay that the baseline has given. The \<open>max_delay_ms\<close> and
  the \<open>no_injection\<close> of the configuration are never used, and all descriptors are closed.\<close>

theorem campaign_messages:
  "wlp (run_injection_campaign E a runs baseline_runs s) (\<lambda>(r, s'). \<exists>l1 l2 delay.
     fds (run_state s') = fds (run_state s) \<and> sends (run_state s') = sends (run_state s) @ l1 @ l2 \<and>
     list_all (message_of a 1 0) l1 \<and> list_all (message_of a 0 delay) l2 \<and> 1 \<le> delay \<and>
     (case r of Inl e \<Rightarrow> True | Inr cr \<Rightarrow> cr_max_delay_ms cr = delay))"
proof -
  have "wlp (run_injection_campaign E a runs baseline_runs s) (\<lambda>(r, s'). campaign_sends a s r s')"
  proof (cases "check_campaign (e_refusal E) (ra_device a) (ra_params a) runs baseline_runs (files s)")
    case (Inr br)
    have "wlp (case r of Inl e \<Rightarrow> Some (Inl e, s\<lparr>files := d\<rparr>) | Inr cp \<Rightarrow> campaign_phases E a cp runs br (s\<lparr>files := d\<rparr>))
        (\<lambda>(r, s'). campaign_sends a s r s')" for r d
      using campaign_phases_sends [of E a _ runs br "s\<lparr>files := d\<rparr>"]
      by (cases r) (auto simp: campaign_sends_files intro: campaign_sends_none)
    then show ?thesis by (auto simp: run_injection_campaign_def Inr Let_def intro!: wlpI dest: wlpD)
  qed (simp add: run_injection_campaign_def campaign_sends_none)
  then show ?thesis by (simp only: campaign_sends_def)
qed

section \<open>Examples\<close>

definition demo_camp :: "fij_result \<Rightarrow> djson list \<Rightarrow> (unit, djson, int, unit) camp_env" where
  "demo_camp res tab = \<lparr>e_os = demo_device (Inr res), e_ana = demo_ana tab, e_arch = CONFIG_X86, e_cwd = ''/h'',
     e_touch = \<lambda>_ d. d, e_hash = \<lambda>_. 0, e_timestamp = \<lambda>_. ''now'', e_order = \<lambda>_ _ n. [0..n - 1]\<rparr>"

definition demo_args :: run_args where
  "demo_args = \<lparr>ra_device = ''/dev/fij'', ra_params = demo_target, ra_pre_delay_ms = 0, ra_max_retries = 5,
     ra_retry_delay_ms = 50\<rparr>"

definition demo_hit :: fij_result where
  "demo_hit = zero_result\<lparr>fault_injected := 1, exit_code := 139\<rparr>"

definition demo_hit_log :: djson where
  "demo_hit_log = (case log_payload (demo_json []) demo_fpu ''now'' 0 0 demo_hit of Inr p \<Rightarrow> p | Inl e \<Rightarrow> DNull)"

definition demo_start :: "unit camp" where
  "demo_start = \<lparr>run_state = \<lparr>world = (), rlog = []\<rparr>, files = [(''/c'', Dir)]\<rparr>"

lemma demo_fair: "fair_order (demo_camp res tab)"
  by (simp add: fair_order_def demo_camp_def schedule_def)

lemma demo_call:
  "\<exists>st. call_run (demo_camp res tab) device p md ni pre mr rd s = Some (Inr (seconds demo_fpu 0, res), s\<lparr>run_state := st\<rparr>)"
proof -
  have "\<exists>st. run_send_and_poll (demo_device (Inr res)) demo_fpu device p md ni pre mr rd 1 (run_state s) =
      Some (Inr (seconds demo_fpu 0, res), st)"
    by (auto simp: run_send_and_poll_def send_and_poll_fd_def send_loop.simps poll_loop.simps poll_turn_def r_now_def
      r_open_def r_close_def r_send_def r_receive_def r_kill_def r_sleep_def demo_device_def Let_def ms_of_ns_def)
  then obtain st where "run_send_and_poll (demo_device (Inr res)) demo_fpu device p md ni pre mr rd 1 (run_state s) =
      Some (Inr (seconds demo_fpu 0, res), st)" by blast
  then show ?thesis by (cases s) (simp add: call_run_def demo_camp_def demo_ana_def)
qed

lemma demo_dirs:
  "fst (fs_create_directories (\<lambda>_ _. None) (path_join ''/c'' (run_name 0)) [(''/c'', Dir)]) = Inr ()"
  "fst (log_injection_iteration (\<lambda>_ _. None) (demo_json [demo_hit_log]) demo_fpu ''now'' ''/c'' 0
     (seconds demo_fpu 0) demo_hit
     (snd (fs_create_directories (\<lambda>_ _. None) (path_join ''/c'' (run_name 0)) [(''/c'', Dir)]))) = Inr ()"
  by code_simp+

lemma demo_turn:
  "\<exists>acc' s'. inject_turn (demo_camp demo_hit [demo_hit_log]) a ''/c'' md 0 acc demo_start = Some (True, acc', s')"
proof -
  obtain d d' where dirs: "fs_create_directories (\<lambda>_ _. None) (path_join ''/c'' (run_name 0)) [(''/c'', Dir)] = (Inr (), d)"
      "log_injection_iteration (\<lambda>_ _. None) (demo_json [demo_hit_log]) demo_fpu ''now'' ''/c'' 0
        (seconds demo_fpu 0) demo_hit d = (Inr (), d')"
    using demo_dirs by (metis prod.collapse)
  let ?E = "demo_camp demo_hit [demo_hit_log]" and ?s = "demo_start\<lparr>files := d\<rparr>"
  have E: "e_refusal ?E = (\<lambda>_ _. None)" "e_json ?E = demo_json [demo_hit_log]" "e_fpu ?E = demo_fpu"
      "e_timestamp ?E = (\<lambda>_. ''now'')"
    by (simp_all add: demo_camp_def demo_ana_def)
  obtain st where "call_run ?E (ra_device a) (per_run_params (ra_params a) (process_args (ra_params a)) ''/c''
      (path_join ''/c'' (run_name 0)) 0) md 0 (ra_pre_delay_ms a) (ra_max_retries a) (ra_retry_delay_ms a) ?s =
      Some (Inr (seconds demo_fpu 0, demo_hit), ?s\<lparr>run_state := st\<rparr>)"
    using demo_call by blast
  moreover have "fault_injected demo_hit \<noteq> 0" "files demo_start = [(''/c'', Dir)]"
    by (simp_all add: demo_hit_def demo_start_def)
  ultimately show ?thesis using dirs by (simp add: inject_turn_def E on_disk_def)
qed

lemma demo_phase:
  "\<exists>ts results s'. injection_phase (demo_camp demo_hit [demo_hit_log]) demo_args ''/c'' 7 1 demo_start =
     Some ((ts, results), s')"
proof -
  let ?E = "demo_camp demo_hit [demo_hit_log]"
  obtain acc s' where "inject_turn ?E demo_args ''/c'' 7 0 ([- 1], [zero_result]) demo_start = Some (True, acc, s')"
    using demo_turn by blast
  moreover have "e_order ?E ''/c'' 1 1 = [0]" by (simp add: demo_camp_def)
  moreover have "f_of_int (e_fpu ?E) (- 1) = - 1" by (simp add: demo_camp_def demo_ana_def demo_fpu_def)
  ultimately show ?thesis by (cases acc) (simp add: injection_phase_def inject_loop.simps)
qed

theorem injection_phase_injects_all_witness:
  "\<exists>ts results s'. injection_phase (demo_camp demo_hit [demo_hit_log]) demo_args ''/c'' 7 1 demo_start =
     Some ((ts, results), s') \<and> list_all (\<lambda>r. fault_injected r \<noteq> 0) results"
  using demo_phase injection_phase_injects_all [OF demo_fair] by blast

lemma demo_reports:
  "run_send_and_poll (demo_device (Inr res)) F device p md ni pre mr rd pi s = Some (r, s') \<Longrightarrow>
     \<exists>dt. r = Inr (dt, res)"
  by (auto simp: run_send_and_poll_def send_and_poll_fd_def send_loop.simps poll_loop.simps poll_turn_def
    r_now_def r_open_def r_send_def r_receive_def r_kill_def demo_device_def Let_def bind_eq_Some_conv
    split: if_split_asm)

theorem campaign_may_never_end_witness:
  "injection_phase (demo_camp zero_result []) demo_args ''/c'' 7 1 demo_start = None"
proof (rule campaign_may_never_end [OF demo_fair])
  show "never_injects (demo_camp zero_result []) demo_args 7"
    by (auto simp: never_injects_def call_run_def bind_eq_Some_conv demo_camp_def zero_result_def dest!: demo_reports)
qed simp

end
