(* ===== verification/Run_Module.thy ===== *)
theory Run_Module
  imports Fij_Schedule Run_Campaign
begin

text \<open>
  The runner on the module. What the runner asks of its device is the locale \<open>session_device\<close>; the
  module's sessions, driven by the system calls of the runner and, between them, by a schedule of the
  actions of their threads, meet it. So what a run of the runner reports is what the module did for the
  parameters of that run.
\<close>

section \<open>The interface\<close>

text \<open>\<open>serves p fd w\<close>: the session behind \<open>fd\<close> has been given no other parameters than \<open>p\<close>;
  \<open>answers p res\<close>: \<open>res\<close> is a result for \<open>p\<close>.\<close>

locale session_device =
  fixes D :: "'w device_os"
    and good :: "'w \<Rightarrow> bool"
    and serves :: "fij_params \<Rightarrow> int \<Rightarrow> 'w \<Rightarrow> bool"
    and answers :: "fij_params \<Rightarrow> fij_result \<Rightarrow> bool"
  assumes device_opens: "good w \<Longrightarrow> o_open D device w = (r, w') \<Longrightarrow> good w' \<and> (\<forall>fd. r = Inr fd \<longrightarrow> serves p fd w')"
    and sending: "serves p fd w \<Longrightarrow> o_send D fd p w = Some (e, w') \<Longrightarrow> serves p fd w'"
    and receiving: "serves p fd w \<Longrightarrow> o_receive D fd w = Some (a, w') \<Longrightarrow>
      serves p fd w' \<and> (\<forall>res. a = Inr res \<longrightarrow> answers p res)"
    and killing: "serves p fd w \<Longrightarrow> o_kill D fd w = Some w' \<Longrightarrow> serves p fd w'"
    and sleeping: "serves p fd w \<Longrightarrow> serves p fd (o_sleep D ms w)"
    and looking: "serves p fd w \<Longrightarrow> serves p fd (snd (o_now D w))"
    and closing: "serves p fd w \<Longrightarrow> good (o_close D fd w)"
    and resting: "good w \<Longrightarrow> good (o_sleep D ms w)" "good w \<Longrightarrow> good (snd (o_now D w))"
begin

lemma r_sleep_serves: "serves p fd (world s) \<Longrightarrow> serves p fd (world (r_sleep D ms s))"
  by (simp add: r_sleep_def sleeping)

lemma r_now_serves: "serves p fd (world s) \<Longrightarrow> serves p fd (world (snd (r_now D s)))"
  using looking [of p fd "world s"] by (auto simp: r_now_def split: prod.splits)

lemma r_send_serves:
  "serves p fd (world s) \<Longrightarrow> r_send D fd p s = Some (e, s') \<Longrightarrow> serves p fd (world s')"
  by (auto simp: r_send_def bind_eq_Some_conv dest: sending)

lemma r_receive_serves:
  "serves p fd (world s) \<Longrightarrow> r_receive D fd s = Some (a, s') \<Longrightarrow>
     serves p fd (world s') \<and> (\<forall>res. a = Inr res \<longrightarrow> answers p res)"
  by (auto simp: r_receive_def bind_eq_Some_conv dest: receiving)

lemma r_kill_serves: "serves p fd (world s) \<Longrightarrow> r_kill D fd s = Some s' \<Longrightarrow> serves p fd (world s')"
  by (auto simp: r_kill_def bind_eq_Some_conv dest: killing)

lemma r_close_good: "serves p fd (world s) \<Longrightarrow> good (world (r_close D fd s))"
  by (simp add: r_close_def closing)

lemma send_loop_serves:
  "serves p fd (world s) \<Longrightarrow> D' = D \<Longrightarrow>
     wlp (send_loop D' fd p mr rd attempt s) (\<lambda>(e, s'). serves p fd (world s'))"
proof (induction D' fd p mr rd attempt s rule: send_loop.induct)
  case (1 D' fd p mr rd attempt s)
  show ?case
  proof (cases "r_send D fd p s")
    case None
    with 1 show ?thesis by (subst send_loop.simps) simp
  next
    case (Some x)
    obtain e s1 where x: "x = (e, s1)" by force
    with Some 1 have s1: "serves p fd (world s1)" using r_send_serves by blast
    show ?thesis
    proof (cases "e = EBUSY \<and> attempt < mr")
      case True
      with 1 Some x s1 show ?thesis by (subst send_loop.simps) (simp add: r_sleep_serves)
    qed (use 1 Some x s1 in \<open>subst send_loop.simps, auto\<close>)
  qed
qed

lemma poll_turn_serves:
  assumes "serves p fd (world s)"
  shows "wlp (poll_turn D fd start md ni killed s)
    (\<lambda>(k, a, s'). serves p fd (world s') \<and> (\<forall>res. a = Inr res \<longrightarrow> answers p res))"
proof -
  obtain now s0 where now: "r_now D s = (now, s0)" by force
  with r_now_serves [OF assms] have s0: "serves p fd (world s0)" by simp
  have rec: "wlp (r_receive D fd s1) (\<lambda>(a, s'). serves p fd (world s') \<and> (\<forall>res. a = Inr res \<longrightarrow> answers p res))"
    if "serves p fd (world s1)" for s1
    using r_receive_serves [OF that] by (auto intro!: wlpI)
  have kill: "wlp (r_kill D fd s0) (\<lambda>s1. serves p fd (world s1))"
    using r_kill_serves [OF s0] by (auto intro!: wlpI)
  show ?thesis
    unfolding poll_turn_def now Let_def prod.case
    by (auto intro!: wlp_mono [OF rec] wlp_mono [OF kill] s0)
qed

lemma poll_loop_serves:
  assumes "serves p fd (world s)"
  shows "wlp (poll_loop D fd start md ni rd pi killed mr s)
    (\<lambda>(a, s'). serves p fd (world s') \<and> (\<forall>res. a = Inr res \<longrightarrow> answers p res))"
  by (rule poll_loop_rule [where I = "\<lambda>k s1. serves p fd (world s1)"])
    (auto simp: assms turn_post_def r_sleep_serves split: sum.splits intro!: wlp_mono [OF poll_turn_serves])

text \<open>A run keeps the device good and reports a result for its parameters.\<close>

definition reported :: "fij_params \<Rightarrow> (exn + 'd \<times> fij_result) \<times> 'w rst \<Rightarrow> bool" where
  "reported p x \<longleftrightarrow> good (world (snd x)) \<and> (\<forall>dt res. fst x = Inr (dt, res) \<longrightarrow> answers p res)"

lemma send_and_poll_served:
  assumes "serves p fd (world s)"
  shows "wlp (send_and_poll_fd D F fd p start md ni mr rd pi s) (reported p)"
proof -
  have stop: "good (world (r_close D fd s3))" if "r_now D s2 = (stop, s3)" "serves p fd (world s2)" for stop s2 s3
    using r_close_good [OF r_now_serves [OF that(2)]] that(1) by simp
  have poll: "wlp (do {
       (r, s) \<leftarrow> poll_loop D fd start md ni rd pi False mr s1;
       case r of
         Inl e \<Rightarrow> Some (Inl (SystemError e), r_close D fd s)
       | Inr res \<Rightarrow>
           let (stop, s) = r_now D s;
               s = r_close D fd s
           in Some (Inr (seconds F (stop - start), res), s)
     }) (reported p)" if "serves p fd (world s1)" for s1
    unfolding wlp_simps
    by (rule wlp_mono [OF poll_loop_serves [OF that]])
      (auto simp: reported_def Let_def r_close_good stop split: sum.splits prod.splits)
  show ?thesis
    unfolding send_and_poll_fd_def wlp_simps
    by (rule wlp_mono [OF send_loop_serves [OF assms refl]])
      (use poll r_close_good in \<open>auto simp: reported_def\<close>)
qed

lemma run_served:
  assumes "good (world s)"
  shows "wlp (run_send_and_poll D F device p md ni pre mr rd pi s) (reported (poll_params p ni md))"
proof -
  let ?s = "if 0 < pre then r_sleep D pre s else s" and ?p = "poll_params p ni md"
  obtain start s1 where now: "r_now D ?s = (start, s1)" by force
  have "good (world ?s)" using assms by (simp add: r_sleep_def resting)
  with now have s1: "good (world s1)" using resting(2) [of "world ?s"] by (auto simp: r_now_def split: prod.splits)
  obtain r s2 where r: "r_open D device s1 = (r, s2)" by force
  then have s2: "good (world s2)" "\<And>fd. r = Inr fd \<Longrightarrow> serves ?p fd (world s2)"
    using device_opens [OF s1, of device _ _ ?p] by (auto simp: r_open_def split: prod.splits)
  with now r show ?thesis
    by (auto simp: run_send_and_poll_def Let_def reported_def [where x = "(Inl e, s)" for e s]
      split: sum.splits intro: send_and_poll_served)
qed

end

section \<open>The sessions of the module\<close>

text \<open>What the runner cannot see of Linux: the module's kernel, the effect of putting a message into user
  memory, the virtual file system's refusal to open the device, the clock, a sleep, the order in which the
  threads run, and the blocking command, which a campaign never uses.\<close>

record 'k linux =
  l_arch :: arch
  l_kernel :: "'k kernel"
  l_put :: "fij_params \<Rightarrow> 'k \<Rightarrow> 'k"
  l_refuse :: "string \<Rightarrow> 'k \<Rightarrow> int option"
  l_clock :: "'k \<Rightarrow> int"
  l_sleep :: "int \<Rightarrow> 'k \<Rightarrow> 'k"

record 'k node =
  nkern :: 'k
  nsess :: "int \<Rightarrow> 'k sess option"
  next_fd :: int

type_synonym 'k schedule = "'k node \<Rightarrow> (int \<times> act) list"

definition EBADF :: int where "EBADF = 9"

definition at_kern :: "'k \<Rightarrow> 'k sess \<Rightarrow> 'k sess" where
  "at_kern k S = S\<lparr>st_of := (st_of S)\<lparr>kern := k\<rparr>\<rparr>"

definition put_sess :: "int \<Rightarrow> 'k sess \<Rightarrow> 'k node \<Rightarrow> 'k node" where
  "put_sess fd S w = w\<lparr>nkern := kern (st_of S), nsess := (nsess w)(fd \<mapsto> S)\<rparr>"

definition open_sess :: "int \<Rightarrow> 'k node \<Rightarrow> 'k sess option" where
  "open_sess fd w = (case nsess w fd of
       None \<Rightarrow> None
     | Some S \<Rightarrow> if released S then None else Some (at_kern (nkern w) S))"

text \<open>An action that is not possible is skipped. The threads of a released session may go on.\<close>

definition node_act :: "'k linux \<Rightarrow> int \<times> act \<Rightarrow> 'k node \<Rightarrow> 'k node" where
  "node_act L x w = (case nsess w (fst x) of
       None \<Rightarrow> w
     | Some S \<Rightarrow> (case act_step (l_arch L) (l_kernel L) (snd x) (at_kern (nkern w) S) of
           None \<Rightarrow> w
         | Some S' \<Rightarrow> put_sess (fst x) S' w))"

definition others :: "'k linux \<Rightarrow> 'k schedule \<Rightarrow> 'k node \<Rightarrow> 'k node" where
  "others L sch w = fold (node_act L) (sch w) w"

definition module_open :: "'k linux \<Rightarrow> 'k schedule \<Rightarrow> string \<Rightarrow> 'k node \<Rightarrow> (int + int) \<times> 'k node" where
  "module_open L sch device w =
     (let w = others L sch w
      in case l_refuse L device (nkern w) of
           Some e \<Rightarrow> (Inl e, w)
         | None \<Rightarrow> (case fij_open (l_kernel L) \<lparr>kern = nkern w, klog = [], ctx = zero_ctx, work = []\<rparr> of
               None \<Rightarrow> (Inl ENOMEM, w)
             | Some (r, s) \<Rightarrow>
                 if r \<noteq> 0 then (Inl (- r), w\<lparr>nkern := kern s\<rparr>)
                 else let fd = next_fd w;
                          S = \<lparr>st_of = s, mon = MonOff, flip = FlipOff, released = False\<rparr>
                      in (Inr fd, (put_sess fd S w)\<lparr>next_fd := fd + 1\<rparr>)))"

text \<open>The task the monitor of a new run watches is the last one the call took a reference on.\<close>

definition last_task :: "kev list \<Rightarrow> task" where
  "last_task es = foldl (\<lambda>t e. case e of GetTask u \<Rightarrow> u | _ \<Rightarrow> t) 0 es"

definition sent_sess :: "'k sess \<Rightarrow> 'k st \<Rightarrow> 'k sess" where
  "sent_sess S s = S\<lparr>st_of := s,
     mon := mon_after (last_task (drop (length (klog (st_of S))) (klog s))) (st_of S) s (mon S),
     flip := flip_after (st_of S) s (flip S)\<rparr>"

definition module_send :: "'k linux \<Rightarrow> 'k schedule \<Rightarrow> int \<Rightarrow> fij_params \<Rightarrow> 'k node \<Rightarrow> (int \<times> 'k node) option" where
  "module_send L sch fd p w =
     (let w = others L sch w
      in case open_sess fd (w\<lparr>nkern := l_put L p (nkern w)\<rparr>) of
           None \<Rightarrow> Some (EBADF, w)
         | Some S \<Rightarrow> do {
             (r, s) \<leftarrow> ioctl_send_msg (l_kernel L) (st_of S);
             Some (- r, put_sess fd (sent_sess S s) w)
           })"

definition module_receive :: "'k linux \<Rightarrow> 'k schedule \<Rightarrow> int \<Rightarrow> 'k node \<Rightarrow> ((int + fij_result) \<times> 'k node) option" where
  "module_receive L sch fd w =
     (let w = others L sch w
      in case open_sess fd w of
           None \<Rightarrow> Some (Inl EBADF, w)
         | Some S \<Rightarrow> do {
             (r, s) \<leftarrow> ioctl_receive_msg (l_kernel L) (st_of S);
             Some (if r = 0 then Inr (ctx_result (ctx (st_of S))) else Inl (- r),
               put_sess fd (S\<lparr>st_of := s\<rparr>) w)
           })"

definition module_kill :: "'k linux \<Rightarrow> 'k schedule \<Rightarrow> int \<Rightarrow> 'k node \<Rightarrow> 'k node option" where
  "module_kill L sch fd w =
     (let w = others L sch w
      in case open_sess fd w of
           None \<Rightarrow> Some w
         | Some S \<Rightarrow> do {
             (r, s) \<leftarrow> ioctl_kill_target (l_kernel L) id (st_of S);
             Some (put_sess fd (S\<lparr>st_of := s\<rparr>) w)
           })"

text \<open>The release waits for the injection thread: at most its first piece and the rest are still to come.\<close>

definition module_close :: "'k linux \<Rightarrow> 'k schedule \<Rightarrow> int \<Rightarrow> 'k node \<Rightarrow> 'k node" where
  "module_close L sch fd w =
     (let w = node_act L (fd, FlipAct) (node_act L (fd, FlipAct) (others L sch w))
      in case open_sess fd w of
           None \<Rightarrow> w
         | Some S \<Rightarrow> put_sess fd (S\<lparr>st_of := snd (fij_release (l_kernel L) (st_of S)), flip := FlipOff,
             released := True\<rparr>) w)"

definition module_os ::
  "'k linux \<Rightarrow> 'k schedule \<Rightarrow> (int \<Rightarrow> fij_exec \<Rightarrow> 'k node \<Rightarrow> ((int + fij_exec) \<times> 'k node) option) \<Rightarrow> 'k node device_os" where
  "module_os L sch blocking = \<lparr>o_open = module_open L sch, o_close = module_close L sch,
     o_send = module_send L sch, o_receive = module_receive L sch, o_kill = module_kill L sch,
     o_exec = blocking, o_sleep = (\<lambda>ms w. others L sch (w\<lparr>nkern := l_sleep L ms (nkern w)\<rparr>)),
     o_now = (\<lambda>w. (l_clock L (nkern w), w))\<rparr>"

section \<open>A session serves one message\<close>

text \<open>\<open>copy_from_user\<close> fails or reads what the caller has put there.\<close>

definition copy_law :: "'k linux \<Rightarrow> bool" where
  "copy_law L \<longleftrightarrow> (\<forall>p k. fst (k_copy_from_user (l_kernel L) (l_put L p k)) \<in> {None, Some p})"

definition tagged :: "fij_params \<Rightarrow> 'k sess \<Rightarrow> bool" where
  "tagged p S \<longleftrightarrow> ctx_params (ctx (st_of S)) = p \<and>
     res_iteration_number (ctx_result (ctx (st_of S))) = iteration_number p \<and>
     (no_injection p \<noteq> 0 \<longrightarrow> idle S) \<and>
     (fault_injected (ctx_result (ctx (st_of S))) = 0 \<or>
      fault_injected (ctx_result (ctx (st_of S))) = 1 \<and> all_threads p = 0)"

definition unused :: "'k sess \<Rightarrow> bool" where
  "unused S \<longleftrightarrow> idle S \<and> mon S = MonOff \<and> monitor_done (ctx (st_of S)) = 0"

definition serving :: "'k kernel \<Rightarrow> fij_params \<Rightarrow> 'k sess \<Rightarrow> bool" where
  "serving K p S \<longleftrightarrow> \<not> released S \<and> sess_ok K S \<and> (unused S \<or> tagged p S)"

lemma at_kern_simps [simp]:
  "kern (st_of (at_kern k S)) = k" "ctx (st_of (at_kern k S)) = ctx (st_of S)" "mon (at_kern k S) = mon S"
  "flip (at_kern k S) = flip S" "released (at_kern k S) = released S" "work (st_of (at_kern k S)) = work (st_of S)"
  "klog (st_of (at_kern k S)) = klog (st_of S)"
  by (simp_all add: at_kern_def)

lemma at_kern_keeps [simp]:
  "sess_ok K (at_kern k S) \<longleftrightarrow> sess_ok K S" "idle (at_kern k S) \<longleftrightarrow> idle S"
  "unused (at_kern k S) \<longleftrightarrow> unused S" "tagged p (at_kern k S) \<longleftrightarrow> tagged p S"
  "serving K p (at_kern k S) \<longleftrightarrow> serving K p S"
  by (simp_all add: sess_ok_def probe_inv_def idle_def unused_def tagged_def serving_def)

lemma act_ok: "act_step A K a S = Some S' \<Longrightarrow> sess_ok K S \<Longrightarrow> \<not> released S \<Longrightarrow> sess_ok K S' \<and> \<not> released S'"
proof -
  assume act: "act_step A K a S = Some S'" and ok: "sess_ok K S" and live: "\<not> released S"
  have "released S' = released S" using act_keeps [OF _ act] ok by (simp add: sess_ok_def)
  with live step_ok [OF act_step_step [OF act]] ok show ?thesis by blast
qed

lemma serving_act:
  assumes "serving K p S" and "act_step A K a S = Some S'"
  shows "serving K p S'"
proof -
  from assms(1) have ok: "sess_ok K S" "\<not> released S" by (simp_all add: serving_def)
  note idle = act_idle [OF ok(1) _ assms(2)]
  have keeps: "keeps_run (st_of S) (st_of S')" using act_keeps [OF _ assms(2)] ok by (simp add: sess_ok_def)
  have "tagged p S'" if "tagged p S"
    using that keeps idle by (auto simp: tagged_def keeps_run_def)
  moreover have "\<not> unused S"
  proof
    assume "unused S"
    then have "idle S" "mon S = MonOff" by (simp_all add: unused_def)
    with idle assms(2) show False by (simp add: mon_act_def)
  qed
  ultimately show ?thesis using assms(1) act_ok [OF assms(2) ok] by (auto simp: serving_def)
qed

lemma serving_still:
  assumes "serving K p S" and "still (st_of S) s" and "exec (ctx s) = exec (ctx (st_of S))"
    and "uprobe_active (ctx s) = uprobe_active (ctx (st_of S))" and "restore (ctx s) = restore (ctx (st_of S))"
    and "work s = work (st_of S)"
  shows "serving K p (S\<lparr>st_of := s\<rparr>)"
proof -
  have "sess_ok K (S\<lparr>st_of := s\<rparr>)"
    by (rule sess_ok_still [where S = S]) (use assms(1,2) in \<open>simp_all add: serving_def\<close>)
  moreover have "idle (S\<lparr>st_of := s\<rparr>) \<longleftrightarrow> idle S" using assms(3-6) by (simp add: idle_def)
  moreover have "monitor_done (ctx s) = monitor_done (ctx (st_of S))" using assms(2) by (simp add: still_def)
  ultimately show ?thesis using assms(1,3) by (simp add: serving_def unused_def tagged_def)
qed

lemma serving_receive:
  assumes "serving K p S" and "ioctl_receive_msg K (st_of S) = Some (r, s)"
  shows "serving K p (S\<lparr>st_of := s\<rparr>) \<and> (r = 0 \<longrightarrow> tagged p S)"
proof -
  have "ctx s = ctx (st_of S) \<and> work s = work (st_of S) \<and> (r = 0 \<longrightarrow> monitor_done (ctx (st_of S)) \<noteq> 0)"
    using assms(2) by (auto simp: ioctl_receive_msg_def ask_eq Let_def noted_def split: if_split_asm)
  with assms(1) serving_still [OF assms(1) still_receive [OF assms(2)]] show ?thesis
    by (auto simp: serving_def unused_def)
qed

lemma serving_kill:
  assumes "serving K p S" and "ioctl_kill_target K id (st_of S) = Some (r, s)"
  shows "serving K p (S\<lparr>st_of := s\<rparr>)"
proof -
  have "exec (ctx s) = exec (ctx (st_of S)) \<and> work s = work (st_of S) \<and>
      uprobe_active (ctx s) = uprobe_active (ctx (st_of S)) \<and> restore (ctx s) = restore (ctx (st_of S))"
    using assms(2) by (auto simp: ioctl_kill_target_def fij_send_sigkill_def ask_eq Let_def tell_def noted_def upd_def
      split: if_split_asm option.splits)
  then show ?thesis using serving_still [OF assms(1) still_kill [OF assms(2)]] by simp
qed

lemma serving_send:
  assumes "serving K p S" and "ioctl_send_msg K (st_of S) = Some (r, s)"
    and "fst (k_copy_from_user K (kern (st_of S))) \<in> {None, Some p}"
  shows "serving K p (sent_sess S s)"
proof -
  from assms(1) have S: "sess_ok K S" "\<not> released S" by (simp_all add: serving_def)
  then have inv: "probe_inv (st_of S)" "targets_wf (ctx (st_of S))" by (simp_all add: sess_ok_def)
  have ok: "sess_ok K (sent_sess S s)"
    unfolding sent_sess_def by (rule sess_ok_send [OF S(1) send_sent [OF inv assms(2)]])
  show ?thesis
  proof (cases "fst (k_copy_from_user K (kern (st_of S)))")
    case None
    with assms(2) have "ctx s = ctx (st_of S)" "work s = work (st_of S)"
      by (auto simp: ioctl_send_msg_def ask_eq)
    with assms(1) ok show ?thesis
      by (auto simp: serving_def unused_def tagged_def idle_def sent_sess_def mon_after_def flip_after_def)
  next
    case (Some u)
    with assms(3) have [simp]: "u = p" by simp
    let ?s = "upd (\<lambda>c. c\<lparr>monitor_done := 0\<rparr>) (upd (upd_result (\<lambda>r. r\<lparr>res_iteration_number := iteration_number p\<rparr>))
      (upd (\<lambda>c. c\<lparr>exec := (exec c)\<lparr>params := p\<rparr>\<rparr>) ((st_of S)\<lparr>kern := snd (k_copy_from_user K (kern (st_of S)))\<rparr>)))"
    have "fij_start_exec K ?s = Some (r, s)"
      using assms(2) Some by (simp add: ioctl_send_msg_def ask_eq Let_def)
    then have run: "launched ?s s" using start_exec_launched [of K ?s] by (simp add: wlp_def)
    have "idle (sent_sess S s)" if "idle S" "no_injection p \<noteq> 0"
      using run that by (cases "bitflip_thread (ctx (st_of S))")
        (simp_all add: launched_def idle_def sent_sess_def flip_after_def upd_def)
    moreover have "idle S" if "no_injection p \<noteq> 0"
      using assms(1) that by (auto simp: serving_def unused_def tagged_def)
    moreover have "fault_injected (ctx_result (ctx (st_of S))) = 0 \<or>
        fault_injected (ctx_result (ctx (st_of S))) = 1 \<and> all_threads p = 0"
      using assms(1) by (auto simp: serving_def unused_def tagged_def idle_def)
    ultimately have "tagged p (sent_sess S s)"
      using run by (simp add: tagged_def launched_def sent_sess_def)
    with ok S(2) show ?thesis by (simp add: serving_def sent_sess_def)
  qed
qed

lemma serving_new:
  assumes "fij_open K \<lparr>kern = k, klog = [], ctx = zero_ctx, work = []\<rparr> = Some (0, s)"
  shows "serving K p \<lparr>st_of = s, mon = MonOff, flip = FlipOff, released = False\<rparr>"
proof -
  have "ctx s = fij_ctx_init zero_ctx" "work s = []" "klog s = [Kmalloc 1]"
    using assms by (auto simp: fij_open_def ask_eq Let_def noted_def upd_def split: if_split_asm)
  then show ?thesis
    by (simp add: serving_def unused_def idle_def sess_ok_def probe_inv_def targets_wf_def fij_ctx_init_def
      fij_uprobe_init_work_def zero_ctx_def inode_ref_def zero_result_def)
qed

section \<open>The module meets the interface\<close>

text \<open>Every session that is still open keeps the invariant of \<open>Fij_Session\<close>, and descriptors are new.\<close>

definition sound :: "'k kernel \<Rightarrow> 'k node \<Rightarrow> bool" where
  "sound K w \<longleftrightarrow> (\<forall>fd S. nsess w fd = Some S \<and> \<not> released S \<longrightarrow> sess_ok K S)"

definition node_ok :: "'k linux \<Rightarrow> 'k node \<Rightarrow> bool" where
  "node_ok L w \<longleftrightarrow> copy_law L \<and>
     (\<forall>fd S. nsess w fd = Some S \<and> \<not> released S \<longrightarrow> sess_ok (l_kernel L) S)"

definition node_serves :: "'k linux \<Rightarrow> fij_params \<Rightarrow> int \<Rightarrow> 'k node \<Rightarrow> bool" where
  "node_serves L p fd w \<longleftrightarrow> node_ok L w \<and> (\<exists>S. nsess w fd = Some S \<and> serving (l_kernel L) p S)"

text \<open>What a result says about the parameters it is for.\<close>

definition answers_for :: "fij_params \<Rightarrow> fij_result \<Rightarrow> bool" where
  "answers_for p res \<longleftrightarrow> res_iteration_number res = iteration_number p \<and>
     (fault_injected res = 0 \<or> fault_injected res = 1 \<and> no_injection p = 0 \<and> all_threads p = 0)"

lemma node_ok_put:
  "node_ok L w \<Longrightarrow> (\<not> released S \<Longrightarrow> sess_ok (l_kernel L) S) \<Longrightarrow> node_ok L (put_sess fd S w)"
  by (auto simp: node_ok_def put_sess_def)

lemma node_serves_put:
  "node_ok L w \<Longrightarrow> serving (l_kernel L) p S \<Longrightarrow> node_serves L p fd (put_sess fd S w)"
  by (auto simp: node_serves_def put_sess_def serving_def intro!: node_ok_put [unfolded put_sess_def])

lemma node_kern [simp]:
  "node_ok L (w\<lparr>nkern := k\<rparr>) \<longleftrightarrow> node_ok L w" "node_serves L p fd (w\<lparr>nkern := k\<rparr>) \<longleftrightarrow> node_serves L p fd w"
  "node_ok L (w\<lparr>next_fd := n\<rparr>) \<longleftrightarrow> node_ok L w" "node_serves L p fd (w\<lparr>next_fd := n\<rparr>) \<longleftrightarrow> node_serves L p fd w"
  by (simp_all add: node_ok_def node_serves_def)

lemma node_act_released:
  assumes "act_step A K a S = Some S'" and "released S"
  shows "released S'"
  using act_step_step [OF assms(1)] by (cases rule: step.cases) (use assms(2) in simp_all)

lemma node_act_ok: "node_ok L w \<Longrightarrow> node_ok L (node_act L x w)"
proof -
  assume ok: "node_ok L w"
  have "sess_ok (l_kernel L) S'" if "nsess w (fst x) = Some S" "\<not> released S'"
      "act_step (l_arch L) (l_kernel L) (snd x) (at_kern (nkern w) S) = Some S'" for S S'
  proof -
    have live: "\<not> released S" using node_act_released [OF that(3)] that(2) by auto
    with ok that(1) have "sess_ok (l_kernel L) S" by (simp add: node_ok_def)
    with live act_ok [OF that(3)] show ?thesis by simp
  qed
  with ok show ?thesis by (auto simp: node_act_def intro!: node_ok_put split: option.splits)
qed

lemma node_act_serves: "node_serves L p fd w \<Longrightarrow> node_serves L p fd (node_act L x w)"
proof -
  assume s: "node_serves L p fd w"
  then obtain S where S: "nsess w fd = Some S" "serving (l_kernel L) p S" "node_ok L w" by (auto simp: node_serves_def)
  show ?thesis
  proof (cases "fst x = fd")
    case True
    show ?thesis
    proof (cases "act_step (l_arch L) (l_kernel L) (snd x) (at_kern (nkern w) S)")
      case (Some S')
      have "serving (l_kernel L) p S'" by (rule serving_act [OF _ Some]) (simp add: S(2))
      with S True Some show ?thesis by (simp add: node_act_def node_serves_put)
    qed (use S True s in \<open>simp add: node_act_def\<close>)
  next
    case False
    with S node_act_ok [OF S(3), of x] show ?thesis
      by (auto simp: node_serves_def node_act_def put_sess_def split: option.splits)
  qed
qed

lemma others_ok: "node_ok L w \<Longrightarrow> node_ok L (others L sch w)"
proof -
  have "node_ok L w \<Longrightarrow> node_ok L (fold (node_act L) xs w)" for xs w
    by (induction xs arbitrary: w) (auto intro: node_act_ok)
  then show "node_ok L w \<Longrightarrow> ?thesis" by (simp add: others_def)
qed

lemma others_serves: "node_serves L p fd w \<Longrightarrow> node_serves L p fd (others L sch w)"
proof -
  have "node_serves L p fd w \<Longrightarrow> node_serves L p fd (fold (node_act L) xs w)" for xs w
    by (induction xs arbitrary: w) (auto intro: node_act_serves)
  then show "node_serves L p fd w \<Longrightarrow> ?thesis" by (simp add: others_def)
qed

lemma serves_open_sess:
  assumes "node_serves L p fd w"
  obtains S where "open_sess fd w = Some S" "serving (l_kernel L) p S" "kern (st_of S) = nkern w" "node_ok L w"
  using assms that by (auto simp: node_serves_def open_sess_def serving_def)

lemma tagged_answers: "tagged p S \<Longrightarrow> answers_for p (ctx_result (ctx (st_of S)))"
  by (auto simp: tagged_def answers_for_def idle_def)

lemma fij_open_returns: "\<exists>r s'. fij_open K s = Some (r, s')"
  by (simp add: fij_open_def ask_eq)

lemma module_open_law:
  assumes "node_ok L w" and "module_open L sch device w = (r, w')"
  shows "node_ok L w' \<and> (\<forall>fd. r = Inr fd \<longrightarrow> node_serves L p fd w')"
proof -
  let ?w = "others L sch w" and ?K = "l_kernel L"
  have w: "node_ok L ?w" using assms(1) by (rule others_ok)
  show ?thesis
  proof (cases "l_refuse L device (nkern ?w)")
    case None
    obtain e s where s: "fij_open ?K \<lparr>kern = nkern ?w, klog = [], ctx = zero_ctx, work = []\<rparr> = Some (e, s)"
      using fij_open_returns by fast
    show ?thesis
    proof (cases "e = 0")
      case True
      have "serving ?K q \<lparr>st_of = s, mon = MonOff, flip = FlipOff, released = False\<rparr>" for q
        by (rule serving_new [OF s [unfolded True]])
      with assms(2) None s True w show ?thesis
        by (auto simp: module_open_def Let_def intro!: node_serves_put node_ok_put simp: serving_def)
    qed (use assms(2) None s w in \<open>auto simp: module_open_def Let_def\<close>)
  qed (use assms(2) w in \<open>auto simp: module_open_def Let_def\<close>)
qed

lemma module_send_law:
  assumes "node_serves L p fd w" and "module_send L sch fd p w = Some (e, w')"
  shows "node_serves L p fd w'"
proof -
  let ?w = "others L sch w" and ?K = "l_kernel L"
  let ?u = "?w\<lparr>nkern := l_put L p (nkern ?w)\<rparr>"
  have "node_serves L p fd ?u" using others_serves [OF assms(1)] by simp
  then obtain S where S: "open_sess fd ?u = Some S" "serving ?K p S" "kern (st_of S) = l_put L p (nkern ?w)"
      "node_ok L ?w"
    by (rule serves_open_sess) simp
  with assms(2) obtain r s where r: "ioctl_send_msg ?K (st_of S) = Some (r, s)" "w' = put_sess fd (sent_sess S s) ?w"
    by (auto simp: module_send_def Let_def bind_eq_Some_conv)
  have "fst (k_copy_from_user ?K (kern (st_of S))) \<in> {None, Some p}"
    using S(3,4) by (simp add: node_ok_def copy_law_def)
  from node_serves_put [OF S(4) serving_send [OF S(2) r(1) this]] r(2) show ?thesis by simp
qed

lemma module_receive_law:
  assumes "node_serves L p fd w" and "module_receive L sch fd w = Some (a, w')"
  shows "node_serves L p fd w' \<and> (\<forall>res. a = Inr res \<longrightarrow> answers_for p res)"
proof -
  let ?w = "others L sch w" and ?K = "l_kernel L"
  obtain S where S: "open_sess fd ?w = Some S" "serving ?K p S" "node_ok L ?w"
    using others_serves [OF assms(1)] by (rule serves_open_sess)
  with assms(2) obtain r s where r: "ioctl_receive_msg ?K (st_of S) = Some (r, s)"
      "a = (if r = 0 then Inr (ctx_result (ctx (st_of S))) else Inl (- r))" "w' = put_sess fd (S\<lparr>st_of := s\<rparr>) ?w"
    by (auto simp: module_receive_def Let_def bind_eq_Some_conv)
  from serving_receive [OF S(2) r(1)] node_serves_put [OF S(3)] r(2,3) tagged_answers show ?thesis
    by (auto split: if_split_asm)
qed

lemma module_kill_law:
  assumes "node_serves L p fd w" and "module_kill L sch fd w = Some w'"
  shows "node_serves L p fd w'"
proof -
  let ?w = "others L sch w" and ?K = "l_kernel L"
  obtain S where S: "open_sess fd ?w = Some S" "serving ?K p S" "node_ok L ?w"
    using others_serves [OF assms(1)] by (rule serves_open_sess)
  with assms(2) obtain r s where r: "ioctl_kill_target ?K id (st_of S) = Some (r, s)" "w' = put_sess fd (S\<lparr>st_of := s\<rparr>) ?w"
    by (auto simp: module_kill_def Let_def bind_eq_Some_conv)
  from node_serves_put [OF S(3) serving_kill [OF S(2) r(1)]] r(2) show ?thesis by simp
qed

lemma module_close_law:
  assumes "node_serves L p fd w"
  shows "node_ok L (module_close L sch fd w)"
proof -
  let ?w = "node_act L (fd, FlipAct) (node_act L (fd, FlipAct) (others L sch w))"
  have "node_ok L ?w" using assms by (auto simp: node_serves_def intro!: node_act_ok others_ok)
  then show ?thesis by (auto simp: module_close_def Let_def intro!: node_ok_put split: option.splits)
qed

interpretation module: session_device "module_os L sch blocking" "node_ok L" "node_serves L" answers_for
  for L :: "'k linux" and sch blocking
proof (unfold_locales, unfold module_os_def device_os.simps)
  fix device r p fd e a and w w' :: "'k node" and ms :: int
  show "node_ok L w \<Longrightarrow> module_open L sch device w = (r, w') \<Longrightarrow>
      node_ok L w' \<and> (\<forall>fd. r = Inr fd \<longrightarrow> node_serves L p fd w')" by (rule module_open_law)
  show "node_serves L p fd w \<Longrightarrow> module_send L sch fd p w = Some (e, w') \<Longrightarrow> node_serves L p fd w'"
    by (rule module_send_law)
  show "node_serves L p fd w \<Longrightarrow> module_receive L sch fd w = Some (a, w') \<Longrightarrow>
      node_serves L p fd w' \<and> (\<forall>res. a = Inr res \<longrightarrow> answers_for p res)" by (rule module_receive_law)
  show "node_serves L p fd w \<Longrightarrow> module_kill L sch fd w = Some w' \<Longrightarrow> node_serves L p fd w'"
    by (rule module_kill_law)
  show "node_serves L p fd w \<Longrightarrow> node_ok L (module_close L sch fd w)" by (rule module_close_law)
qed (auto intro: others_serves others_ok)

section \<open>A campaign on a device that meets the interface\<close>

text \<open>The message of run \<open>i\<close> of a phase.\<close>

definition run_message :: "run_args \<Rightarrow> string \<Rightarrow> string \<Rightarrow> int \<Rightarrow> int \<Rightarrow> int \<Rightarrow> fij_params" where
  "run_message a campaign_str path ni md i =
     poll_params (per_run_params (ra_params a) (process_args (ra_params a)) campaign_str (path_join path (run_name i)) i) ni md"

lemma run_message_simps [simp]:
  "iteration_number (run_message a c d ni md i) = i" "no_injection (run_message a c d ni md i) = ni"
  "all_threads (run_message a c d ni md i) = all_threads (ra_params a)"
  by (simp_all add: run_message_def poll_params_def per_run_params_def)

context session_device begin

lemma call_run_served:
  assumes "e_os E = D" and "good (world (run_state s))"
  shows "wlp (call_run E device p md ni pre mr rd s) (\<lambda>(r, s'). good (world (run_state s')) \<and>
    (\<forall>dt res. r = Inr (dt, res) \<longrightarrow> answers (poll_params p ni md) res))"
  unfolding call_run_def wlp_simps assms(1)
  by (rule wlp_mono [OF run_served [OF assms(2)]]) (auto simp: reported_def)

lemma on_disk_served: "on_disk f s = (r, s') \<Longrightarrow> world (run_state s') = world (run_state s)"
  using on_disk_run_state [of f s] by simp

lemma baseline_run_served:
  assumes "e_os E = D" and "good (world (run_state s))"
    and "list_all (\<lambda>x. \<exists>i. answers (run_message a np np 1 0 i) (snd x)) acc"
  shows "wlp (baseline_run E a np i acc s) (\<lambda>(acc', s'). good (world (run_state s')) \<and>
    list_all (\<lambda>x. \<exists>i. answers (run_message a np np 1 0 i) (snd x)) acc')"
proof -
  obtain r s1 where mk: "on_disk (fs_create_directories (e_refusal E) (path_join np (run_name i))) s = (r, s1)" by force
  with assms(2) have s1: "good (world (run_state s1))" using on_disk_served by metis
  show ?thesis
  proof (cases r)
    case (Inr u)
    with mk assms(3) show ?thesis
      by (auto simp: baseline_run_def Let_def run_message_def split: sum.splits exn.splits
        intro!: wlp_mono [OF call_run_served [OF assms(1) s1]])
  qed (use mk s1 assms(3) in \<open>simp add: baseline_run_def Let_def\<close>)
qed

lemma baseline_loop_served:
  assumes "e_os E = D"
  shows "good (world (run_state s)) \<Longrightarrow> list_all (\<lambda>x. \<exists>i. answers (run_message a np np 1 0 i) (snd x)) acc \<Longrightarrow>
    wlp (baseline_runs_loop E a np order acc s) (\<lambda>(acc', s'). good (world (run_state s')) \<and>
      list_all (\<lambda>x. \<exists>i. answers (run_message a np np 1 0 i) (snd x)) acc')"
proof (induction order arbitrary: acc s)
  case (Cons i order)
  have "wlp (baseline_run E a np i acc s) (\<lambda>(acc', s'). good (world (run_state s')) \<and>
      list_all (\<lambda>x. \<exists>i. answers (run_message a np np 1 0 i) (snd x)) acc')"
    by (rule baseline_run_served [OF assms Cons.prems])
  then show ?case by (auto elim!: wlp_mono intro: Cons.IH)
qed simp

lemma inject_turn_served:
  assumes "e_os E = D" and "good (world (run_state s))"
  shows "wlp (inject_turn E a cp md i acc s) (\<lambda>(ok, acc', s'). good (world (run_state s')) \<and>
    (if ok then \<exists>dt res. (fault_injected res \<noteq> 0 \<and> answers (run_message a cp cp 0 md i) res) \<and>
       acc' = ((fst acc)[nat i := dt], (snd acc)[nat i := res])
     else acc' = acc))"
proof -
  obtain r s1 where mk: "on_disk (fs_create_directories (e_refusal E) (path_join cp (run_name i))) s = (r, s1)" by force
  with assms(2) have s1: "good (world (run_state s1))" using on_disk_served by metis
  show ?thesis
  proof (cases r)
    case (Inr u)
    with mk show ?thesis
      by (auto simp: inject_turn_def Let_def run_message_def on_disk_served split: sum.splits exn.splits prod.splits
        intro!: wlp_mono [OF call_run_served [OF assms(1) s1]])
  qed (use mk s1 in \<open>simp add: inject_turn_def Let_def\<close>)
qed

lemma inject_loop_served:
  fixes acc :: "'d inj" and s :: "'w camp"
  assumes "e_os E = D" and "good (world (run_state s))"
  shows "wlp (inject_loop E a cp md i acc s) (\<lambda>(acc', s'). good (world (run_state s')) \<and>
    (\<exists>dt res. (fault_injected res \<noteq> 0 \<and> answers (run_message a cp cp 0 md i) res) \<and>
       acc' = ((fst acc)[nat i := dt], (snd acc)[nat i := res])))"
proof (rule inject_loop_rule [where I = "\<lambda>acc1 s1. acc1 = acc \<and> good (world (run_state s1))"])
  fix acc1 :: "'d inj" and s1 :: "'w camp"
  assume "acc1 = acc \<and> good (world (run_state s1))"
  then show "wlp (inject_turn E a cp md i acc1 s1) (\<lambda>(ok, acc', s'). if ok then good (world (run_state s')) \<and>
      (\<exists>dt res. (fault_injected res \<noteq> 0 \<and> answers (run_message a cp cp 0 md i) res) \<and>
         acc' = ((fst acc)[nat i := dt], (snd acc)[nat i := res]))
      else acc' = acc \<and> good (world (run_state s')))"
    by (intro wlp_mono [OF inject_turn_served [OF assms(1)]]) (auto split: if_split_asm)
qed (use assms(2) in simp)

lemma injection_phase_served:
  assumes "e_os E = D" and "good (world (run_state s))"
  shows "wlp (injection_phase E a cp md runs s) (\<lambda>((ts, results), s'). good (world (run_state s')) \<and>
    length results = nat runs \<and> (fair_order E \<longrightarrow> (\<forall>i < nat runs. fault_injected (results ! i) \<noteq> 0 \<and>
      answers (run_message a cp cp 0 md (int i)) (results ! i))))"
proof -
  let ?R = "\<lambda>i res. fault_injected res \<noteq> 0 \<and> answers (run_message a cp cp 0 md i) res"
  let ?order = "e_order E cp 1 runs"
  have fair: "?R (int k) res" if "fair_order E" "k < nat runs"
      "(\<exists>i \<in> set ?order. k = nat i \<and> ?R i res) \<or> k \<notin> nat ` set ?order \<and> Z" for k res Z
  proof -
    have order: "set ?order = {0..runs - 1}" by (rule fair_set [OF that(1)])
    have "k \<in> nat ` set ?order" unfolding order by (rule image_eqI [of _ _ "int k"]) (use that(2) in auto)
    with that(3) show ?thesis unfolding order by auto
  qed
  show ?thesis
    unfolding injection_phase_def
  proof (rule wlp_mono [OF inject_runs_rule [where J = "\<lambda>s. good (world (run_state s))" and R = ?R]], goal_cases)
    case (1 i acc s)
    from inject_loop_served [OF assms(1) 1(2)] show ?case .
  next
    case (3 x)
    obtain ts results s' where x: "x = ((ts, results), s')" by (metis prod.collapse)
    with 3 have post: "good (world (run_state s'))" "length results = nat runs"
        "\<And>k. k < nat runs \<Longrightarrow> (\<exists>i \<in> set ?order. k = nat i \<and> ?R i (results ! k)) \<or>
          k \<notin> nat ` set ?order \<and> results ! k = zero_result" by simp_all
    from fair [OF _ _ post(3)] post(1,2) show ?case unfolding x by simp
  qed (rule assms(2))
qed

lemma injection_phase_refused:
  assumes "e_os E = D" and "good (world (run_state s))" and "fair_order E" and "0 < runs"
    and "\<And>i res. answers (run_message a cp cp 0 md i) res \<Longrightarrow> fault_injected res = 0"
  shows "injection_phase E a cp md runs s = None"
proof -
  have "wlp (injection_phase E a cp md runs s) (\<lambda>x. False)"
    by (rule wlp_mono [OF injection_phase_served [OF assms(1,2)]]) (use assms(3-5) in \<open>force split: prod.splits\<close>)
  then show ?thesis by (cases "injection_phase E a cp md runs s") auto
qed

lemma campaign_phases_served:
  assumes "e_os E = D" and "good (world (run_state s))"
  shows "wlp (campaign_phases E a cp runs baseline s) (\<lambda>(r, s'). good (world (run_state s')))"
proof -
  let ?np = "path_join cp ''no_inj''"
  obtain r s1 where mk: "on_disk (fs_create_directories (e_refusal E) ?np) s = (r, s1)" by force
  with assms(2) have s1: "good (world (run_state s1))" using on_disk_served by metis
  have base: "good (world (run_state s2))"
    if "baseline_runs_loop E a ?np (e_order E cp 0 baseline) [] s1 = Some (acc, s2)" for acc s2
    using wlpD [OF baseline_loop_served [OF assms(1) s1] that] by simp
  have inj: "good (world (run_state s3))"
    if "injection_phase E a cp md runs s2 = Some (x, s3)" "good (world (run_state s2))" for md s2 x s3
    using wlpD [OF injection_phase_served [OF assms(1) that(2)] that(1)] by (simp add: case_prod_unfold)
  show ?thesis
  proof (cases r)
    case (Inr u)
    with mk show ?thesis
      by (auto simp: campaign_phases_def Let_def split: sum.splits intro!: wlpI dest: base intro: inj [OF _ base])
  qed (use mk s1 in \<open>simp add: campaign_phases_def Let_def\<close>)
qed

lemma campaign_served:
  assumes "e_os E = D" and "good (world (run_state s))"
  shows "wlp (run_injection_campaign E a runs baseline s) (\<lambda>(r, s'). good (world (run_state s')))"
  unfolding run_injection_campaign_def using assms(2)
  by (auto simp: Let_def split: sum.splits intro!: wlpI [of "create_dir_in_path R c b f d" for R c b f d]
    campaign_phases_served [OF assms(1)])

lemma run_jobs_served:
  assumes "e_os E = D"
  shows "good (world (run_state s)) \<Longrightarrow>
    wlp (run_jobs E device pre mr rd jobs s) (\<lambda>(r, s'). good (world (run_state s')))"
proof (induction jobs arbitrary: s)
  case (Cons job jobs)
  then show ?case
    by (auto split: sum.splits intro!: wlp_mono [OF campaign_served [OF assms]])
qed simp

lemma program_served:
  assumes "e_os E = D" and "good (world (run_state s))"
  shows "wlp (main_program E argv s) (\<lambda>(code, s'). good (world (run_state s')))"
  unfolding main_program_def run_campaigns_from_config_def using assms(2)
  by (auto split: sum.splits intro!: wlp_mono [OF run_jobs_served [OF assms(1)]])

end

section \<open>The runner on the module\<close>

text \<open>C12: What a run of the runner reports is what the module did for it. Whatever the schedule of the module's
  threads, a result that \<open>run_send_and_poll\<close> returns carries the number of that run, its \<open>fault_injected\<close> is 0
  or 1, and 0 in a run without injection and in a run that injects into all threads; all open sessions keep
  their invariant.\<close>

theorem runner_reports_the_modules_run:
  assumes "node_ok L (world s)"
  shows "wlp (run_send_and_poll (module_os L sch blocking) F device p md ni pre mr rd pi s)
    (\<lambda>(r, s'). node_ok L (world s') \<and>
      (\<forall>dt res. r = Inr (dt, res) \<longrightarrow> res_iteration_number res = iteration_number p \<and>
        fault_injected res \<in> {0, 1} \<and> (ni \<noteq> 0 \<or> all_threads p \<noteq> 0 \<longrightarrow> fault_injected res = 0)))"
  by (rule wlp_mono [OF module.run_served [OF assms]])
    (auto simp: module.reported_def answers_for_def poll_params_def)




section \<open>Examples\<close>

text \<open>A module on the example kernel: the threads run to the end of the run between two system calls.\<close>

definition demo_linux :: "fij_params linux" where
  "demo_linux = \<lparr>l_arch = CONFIG_X86, l_kernel = demo_late, l_put = \<lambda>p k. p, l_refuse = \<lambda>_ _. None,
     l_clock = \<lambda>k. 0, l_sleep = \<lambda>ms k. k\<rparr>"

definition demo_acts :: "act list" where
  "demo_acts = [FlipAct, FlipAct, MonAct, MonAct, MonAct]"

definition demo_schedule :: "fij_params schedule" where
  "demo_schedule w = map (Pair 3) demo_acts"

definition demo_node :: "fij_params node" where
  "demo_node = \<lparr>nkern = zero_params, nsess = \<lambda>_. None, next_fd = 3\<rparr>"

definition demo_os :: "fij_params node device_os" where
  "demo_os = module_os demo_linux demo_schedule (\<lambda>fd p w. None)"

definition demo_new :: "fij_params sess" where
  "demo_new = \<lparr>st_of = \<lparr>kern = zero_params, klog = [Kmalloc 1], ctx = fij_ctx_init zero_ctx, work = []\<rparr>, mon = MonOff,
     flip = FlipOff, released = False\<rparr>"

lemma demo_node_ok: "node_ok demo_linux demo_node"
  by (simp add: node_ok_def copy_law_def demo_node_def demo_linux_def demo_late_simps)

lemma demo_sent: "\<exists>s. ioctl_send_msg demo_late (st_of (at_kern demo_msg demo_new)) = Some (0, s) \<and>
   ctx s = demo_ctx demo_msg \<and> last_task (drop 1 (klog s)) = 1 \<and> kern s = demo_msg"
  by (simp add: ioctl_send_msg_def start_exec_run_simps demo_late_simps demo_vmas_def argv_loop_tokens FIJ_MAX_ARGC_def
    tokens_def demo_new_def at_kern_def demo_ctx_simps last_task_def)

lemma node_acts:
  "nsess w fd = Some S \<Longrightarrow> nkern w = kern (st_of S) \<Longrightarrow> as \<noteq> [] \<Longrightarrow> acts (l_arch L) (l_kernel L) as S = Some S' \<Longrightarrow>
     fold (node_act L) (map (Pair fd) as) w = put_sess fd S' w"
proof (induction as arbitrary: w S)
  case (Cons a as)
  have at: "at_kern (nkern w) S = S" using Cons.prems(2) by (simp add: at_kern_def)
  obtain S1 where S1: "act_step (l_arch L) (l_kernel L) a S = Some S1" "acts (l_arch L) (l_kernel L) as S1 = Some S'"
    using Cons.prems(4) by (auto simp: bind_eq_Some_conv)
  with Cons.prems(1) at have step: "node_act L (fd, a) w = put_sess fd S1 w" by (simp add: node_act_def)
  show ?case
  proof (cases "as = []")
    case False
    from Cons.IH [of "put_sess fd S1 w" S1, OF _ _ False S1(2)] show ?thesis by (simp add: step put_sess_def)
  qed (use S1 step in simp)
qed simp

lemma others_idle:
  "(\<And>S. nsess w 3 = Some S \<Longrightarrow> mon S = MonOff \<and> flip S = FlipOff) \<Longrightarrow> others demo_linux demo_schedule w = w"
proof -
  assume idle: "\<And>S. nsess w 3 = Some S \<Longrightarrow> mon S = MonOff \<and> flip S = FlipOff"
  have skip: "node_act demo_linux (3, a) w = w" if "a = MonAct \<or> a = FlipAct" for a
    using idle that by (auto simp: node_act_def mon_act_def flip_act_def at_kern_def split: option.splits)
  show ?thesis by (simp add: others_def demo_schedule_def demo_acts_def skip)
qed

lemma demo_opens:
  "module_open demo_linux demo_schedule dev demo_node = (Inr 3, (put_sess 3 demo_new demo_node)\<lparr>next_fd := 4\<rparr>)"
proof -
  have "others demo_linux demo_schedule demo_node = demo_node" by (rule others_idle) (simp add: demo_node_def)
  then show ?thesis
    by (simp add: module_open_def fij_open_def demo_linux_def demo_late_simps demo_node_def demo_new_def ask_eq Let_def
      tell_def noted_def upd_def put_sess_def demo_ctx_simps)
qed

definition demo_ready_node :: "fij_params node \<Rightarrow> bool" where
  "demo_ready_node w \<longleftrightarrow> (\<exists>S. nsess w 3 = Some S \<and> nkern w = kern (st_of S) \<and> ctx (st_of S) = demo_ctx demo_msg \<and>
     kern (st_of S) = demo_msg \<and> \<not> released S \<and> mon S = MonLoop 1 \<and> flip S = FlipStart)"

lemma demo_sends:
  assumes "nsess w 3 = Some demo_new"
  shows "\<exists>w'. module_send demo_linux demo_schedule 3 demo_msg w = Some (0, w') \<and> demo_ready_node w'"
proof -
  obtain s where s: "ioctl_send_msg demo_late (st_of (at_kern demo_msg demo_new)) = Some (0, s)"
      "ctx s = demo_ctx demo_msg" "last_task (drop 1 (klog s)) = 1" "kern s = demo_msg"
    using demo_sent by blast
  let ?S = "sent_sess (at_kern demo_msg demo_new) s"
  have "others demo_linux demo_schedule w = w" by (rule others_idle) (simp add: assms demo_new_def)
  then have "module_send demo_linux demo_schedule 3 demo_msg w = Some (0, put_sess 3 ?S w)"
    using assms s(1) by (simp add: module_send_def open_sess_def demo_linux_def demo_new_def)
  moreover have "demo_ready_node (put_sess 3 ?S w)"
    using s(2-4) by (simp add: demo_ready_node_def put_sess_def sent_sess_def mon_after_def flip_after_def demo_new_def
      demo_ctx_simps at_kern_def)
  ultimately show ?thesis by blast
qed

lemma demo_receives:
  assumes "demo_ready_node w"
  shows "\<exists>w' res. module_receive demo_linux demo_schedule 3 w = Some (Inr res, w') \<and> fault_injected res = 1 \<and> exit_code res = 139"
proof -
  obtain S where S: "nsess w 3 = Some S" "nkern w = kern (st_of S)" "ctx (st_of S) = demo_ctx demo_msg"
      "kern (st_of S) = demo_msg" "\<not> released S" "mon S = MonLoop 1" "flip S = FlipStart"
    using assms by (auto simp: demo_ready_node_def)
  obtain S' where S': "acts CONFIG_X86 demo_late demo_acts S = Some S'" "demo_done S'"
    using demo_late_run [OF S(3-7)] by (auto simp: demo_acts_def)
  have "others demo_linux demo_schedule w = put_sess 3 S' w"
    unfolding others_def demo_schedule_def
    by (rule node_acts [OF S(1,2)]) (use S'(1) in \<open>simp_all add: demo_linux_def demo_acts_def\<close>)
  with S'(2) show ?thesis
    by (simp add: module_receive_def open_sess_def put_sess_def demo_done_def ioctl_receive_msg_def demo_linux_def
      demo_late_simps ask_eq Let_def)
qed

definition demo_mod_params :: fij_params where
  "demo_mod_params = zero_params\<lparr>process_path := ''/bin/t'', target_reg := 1, reg_bit := 4, reg_bit_present := 1\<rparr>"

definition demo_mod_args :: run_args where
  "demo_mod_args = \<lparr>ra_device = ''/dev/fij'', ra_params = demo_mod_params, ra_pre_delay_ms = 0, ra_max_retries = 5,
     ra_retry_delay_ms = 50\<rparr>"

lemma demo_message: "run_message demo_mod_args ''/c'' ''/c'' 0 7 0 = demo_msg"
  by code_simp

lemma demo_os_simps:
  "o_open demo_os = module_open demo_linux demo_schedule" "o_close demo_os = module_close demo_linux demo_schedule"
  "o_send demo_os = module_send demo_linux demo_schedule" "o_receive demo_os = module_receive demo_linux demo_schedule"
  "o_now demo_os = Pair 0"
  by (simp_all add: demo_os_def module_os_def) (simp add: demo_linux_def)

lemma demo_module_run:
  assumes "poll_params p 0 7 = demo_msg" "world s = demo_node"
  shows "\<exists>dt res s'. run_send_and_poll demo_os F device p 7 0 0 mr rd pi s = Some (Inr (dt, res), s') \<and> fault_injected res = 1 \<and> exit_code res = 139"
proof -
  obtain w1 where w1: "module_send demo_linux demo_schedule 3 demo_msg ((put_sess 3 demo_new demo_node)\<lparr>next_fd := 4\<rparr>) = Some (0, w1)"
      "demo_ready_node w1"
    using demo_sends [of "(put_sess 3 demo_new demo_node)\<lparr>next_fd := 4\<rparr>"] by (auto simp: put_sess_def)
  obtain w2 res where w2: "module_receive demo_linux demo_schedule 3 w1 = Some (Inr res, w2)"
      "fault_injected res = 1" "exit_code res = 139"
    using demo_receives [OF w1(2)] by blast
  from assms w1(1) w2 show ?thesis
    by (simp add: run_send_and_poll_def send_and_poll_fd_def send_loop.simps poll_loop.simps poll_turn_def r_now_def
      r_open_def r_close_def r_send_def r_receive_def r_kill_def demo_os_simps demo_opens Let_def ms_of_ns_def s32_small)
qed

definition demo_mod_json :: "(djson, int) json_lib" where
  "demo_mod_json = (demo_json [])\<lparr>j_dump := \<lambda>j. ([], None)\<rparr>"

definition demo_mod_env :: "(fij_params node, djson, int, unit) camp_env" where
  "demo_mod_env = \<lparr>e_os = demo_os, e_ana = (demo_ana [])\<lparr>a_json := demo_mod_json\<rparr>,
     e_arch = CONFIG_X86, e_cwd = ''/h'', e_touch = \<lambda>_ d. d, e_hash = \<lambda>_. 0, e_timestamp = \<lambda>_. ''now'',
     e_order = \<lambda>_ _ n. [0..n - 1]\<rparr>"

definition demo_mod_start :: "fij_params node camp" where
  "demo_mod_start = \<lparr>run_state = \<lparr>world = demo_node, rlog = []\<rparr>, files = [(''/c'', Dir)]\<rparr>"

lemma demo_mod_fair: "fair_order demo_mod_env"
  by (simp add: fair_order_def demo_mod_env_def schedule_def)

lemma foldl_keeps: "P x \<Longrightarrow> (\<And>y q. P y \<Longrightarrow> P (f y q)) \<Longrightarrow> P (foldl f x qs)"
  by (induction qs arbitrary: x) simp_all

lemma create_directories_refused:
  "\<forall>e. fst (fs_create_directories R f d) = Inl e \<longrightarrow> (\<exists>n. e = SystemError n)"
  unfolding fs_create_directories_def
  by (rule foldl_keeps) (auto split: sum.splits prod.splits mkdir_result.splits)

lemma demo_payload: "\<exists>j. log_payload demo_mod_json F ts i dt res = Inr j"
  by (simp add: log_payload_def raw_result_def set_members_def demo_mod_json_def demo_json_def d_set_def)

lemma demo_mod_log:
  "fst (log_injection_iteration R demo_mod_json F ts c i dt res d) = Inl e \<Longrightarrow> \<exists>n. e = SystemError n"
  using demo_payload [of F ts i dt res] create_directories_refused [of R "path_join c (run_name i)" d]
  by (auto simp: log_injection_iteration_def Let_def demo_mod_json_def split: prod.splits sum.splits)

lemma demo_mod_turn:
  "\<exists>acc' s'. inject_turn demo_mod_env demo_mod_args ''/c'' 7 0 acc demo_mod_start = Some (True, acc', s')"
proof -
  let ?E = demo_mod_env
  have E: "e_refusal ?E = (\<lambda>_ _. None)" "e_json ?E = demo_mod_json" "e_fpu ?E = demo_fpu" "e_os ?E = demo_os"
      "e_timestamp ?E = (\<lambda>_. ''now'')" "e_touch ?E = (\<lambda>_ d. d)"
    by (simp_all add: demo_mod_env_def demo_ana_def)
  obtain d where d: "fs_create_directories (\<lambda>_ _. None) (path_join ''/c'' (run_name 0)) [(''/c'', Dir)] = (Inr (), d)"
    using demo_dirs(1) by (metis prod.collapse)
  let ?s = "demo_mod_start\<lparr>files := d\<rparr>"
  let ?p = "per_run_params (ra_params demo_mod_args) (process_args (ra_params demo_mod_args)) ''/c''
      (path_join ''/c'' (run_name 0)) 0"
  have p: "poll_params ?p 0 7 = demo_msg" using demo_message by (simp add: run_message_def)
  have world: "world (run_state ?s) = demo_node" by (simp add: demo_mod_start_def)
  obtain dt res q where run: "run_send_and_poll demo_os demo_fpu (ra_device demo_mod_args) ?p 7 0 0
      (ra_max_retries demo_mod_args) (ra_retry_delay_ms demo_mod_args) 1 (run_state ?s) = Some (Inr (dt, res), q)"
      "fault_injected res = 1"
    using demo_module_run [OF p world, of demo_fpu "ra_device demo_mod_args" "ra_max_retries demo_mod_args"
      "ra_retry_delay_ms demo_mod_args" 1] by blast
  have pre: "ra_pre_delay_ms demo_mod_args = 0" by (simp add: demo_mod_args_def)
  obtain r d' where log: "log_injection_iteration (\<lambda>_ _. None) demo_mod_json demo_fpu ''now'' ''/c'' 0 dt res d = (r, d')"
    by force
  have "r = Inr () \<or> (\<exists>n. r = Inl (SystemError n))"
    using demo_mod_log [of "\<lambda>_ _. None" demo_fpu "''now''" "''/c''" 0 dt res d] log by (cases r) auto
  moreover have "files demo_mod_start = [(''/c'', Dir)]" by (simp add: demo_mod_start_def)
  ultimately show ?thesis using d run log
    by (auto simp: inject_turn_def call_run_def E on_disk_def pre)
qed

lemma demo_mod_phase:
  "\<exists>ts results s'. injection_phase demo_mod_env demo_mod_args ''/c'' 7 1 demo_mod_start = Some ((ts, results), s')"
proof -
  obtain acc s' where "inject_turn demo_mod_env demo_mod_args ''/c'' 7 0 ([- 1], [zero_result]) demo_mod_start =
      Some (True, acc, s')"
    using demo_mod_turn by blast
  moreover have "e_order demo_mod_env ''/c'' 1 1 = [0]" by (simp add: demo_mod_env_def)
  moreover have "f_of_int (e_fpu demo_mod_env) (- 1) = - 1" by (simp add: demo_mod_env_def demo_ana_def demo_fpu_def)
  ultimately show ?thesis by (cases acc) (simp add: injection_phase_def inject_loop.simps)
qed

lemma demo_mod_ok: "node_ok demo_linux (world (run_state demo_mod_start))"
  by (simp add: demo_mod_start_def demo_node_ok)

lemma demo_mod_os: "e_os demo_mod_env = module_os demo_linux demo_schedule (\<lambda>fd p w. None)"
  by (simp add: demo_mod_env_def demo_os_def)

theorem runner_reports_the_modules_run_witness:
  "\<exists>dt res s'. run_send_and_poll demo_os demo_fpu ''/dev/fij'' demo_msg 7 0 0 5 50 1
     \<lparr>world = demo_node, rlog = []\<rparr> = Some (Inr (dt, res), s') \<and> fault_injected res = 1 \<and>
     res_iteration_number res = 0 \<and> node_ok demo_linux (world s')"
proof -
  let ?s = "\<lparr>world = demo_node, rlog = []\<rparr>"
  have ok: "node_ok demo_linux (world ?s)" and p: "poll_params demo_msg 0 7 = demo_msg"
    by (simp_all add: demo_node_ok poll_params_def demo_msg_def zero_params_def)
  obtain dt res s' where run: "run_send_and_poll demo_os demo_fpu ''/dev/fij'' demo_msg 7 0 0 5 50 1 ?s =
      Some (Inr (dt, res), s')" "fault_injected res = 1"
    using demo_module_run [OF p, of ?s demo_fpu "''/dev/fij''" 5 50 1] by auto
  from wlpD [OF runner_reports_the_modules_run [OF ok] run(1) [unfolded demo_os_def]] run show ?thesis
    by (simp add: demo_msg_def zero_params_def)
qed




end
